(* ===== verification/Prelude.thy ===== *)
theory Prelude
  imports Main "HOL-Library.Word" "HOL-Library.Monad_Syntax"
begin

text \<open>
  Shared vocabulary of the development: the machine types of the Rust sources, what they use
  of the standard library (byte strings and their UTF-8 validity, big-endian conversion,
  decimal parsing and printing of \<open>usize\<close>, \<open>std::io::Error\<close>, slices), and the list lemmas
  that the components share.

  \<^item> A Rust \<open>String\<close> or \<open>&str\<close> is its sequence of UTF-8 bytes, \<open>rstr\<close>; \<open>str ''abc''\<close> is the
    literal \<open>"abc"\<close>.
  \<^item> A fallible call returns \<open>'e + 'a\<close>, \<open>Inl\<close> for \<open>Err\<close>, \<open>Inr\<close> for \<open>Ok\<close>.
  \<^item> A call that may panic returns \<open>'a run\<close>; \<open>None\<close> is the panic of the calling task.
  \<^item> \<open>usize\<close> is \<open>nat\<close>: lengths and offsets of objects that fit in memory. Where the source's
    arithmetic on a fixed width can wrap, the model uses words or writes the wrap-around out.
\<close>

named_theorems cursor_simps \<open>definitions and laws of the read and write cursors\<close>
named_theorems stream_simps \<open>definitions and laws of the datagram stream\<close>
named_theorems window_simps \<open>laws of the transfer window\<close>

section \<open>Machine types\<close>

type_synonym byte = "8 word"
type_synonym u16 = "16 word"
type_synonym u32 = "32 word"
type_synonym usize = nat
type_synonym bytes = "byte list"
type_synonym rstr = "byte list"
type_synonym 'a run = "'a option"

definition usize_modulus :: nat where
  "usize_modulus = 2 ^ 64"

datatype ErrorKind =
    UnexpectedEof | InvalidData | NotFound | PermissionDenied | ConnectionReset | TimedOut | InvalidInput | OtherKind

record io_error =
  kind :: ErrorKind
  detail :: rstr

definition io_kind :: "ErrorKind \<Rightarrow> io_error" where
  "io_kind k = \<lparr>kind = k, detail = []\<rparr>"

definition io_other :: "rstr \<Rightarrow> io_error" where
  "io_other m = \<lparr>kind = OtherKind, detail = m\<rparr>"

text \<open>The operator \<open>?\<close> on a call that updates a state: go on with the value or return the error.\<close>

definition and_then :: "(('e + 'a) \<times> 's) run \<Rightarrow> ('a \<Rightarrow> 's \<Rightarrow> (('e + 'b) \<times> 's) run) \<Rightarrow> (('e + 'b) \<times> 's) run" where
  "and_then m k = do {
     (r, s) \<leftarrow> m;
     case r of Inl e \<Rightarrow> Some (Inl e, s) | Inr a \<Rightarrow> k a s
   }"

section \<open>Byte strings\<close>

definition str :: "string \<Rightarrow> rstr" where
  "str s = map of_char s"

definition slash :: byte where "slash = 47"
definition dot :: byte where "dot = 46"

definition trim_start_matches :: "byte \<Rightarrow> rstr \<Rightarrow> rstr" where
  "trim_start_matches c s = dropWhile (\<lambda>b. b = c) s"

definition starts_with :: "rstr \<Rightarrow> rstr \<Rightarrow> bool" where
  "starts_with s p = (take (length p) s = p)"

fun contains :: "rstr \<Rightarrow> rstr \<Rightarrow> bool" where
  "contains [] p = (p = [])"
| "contains (b # s) p = (starts_with (b # s) p \<or> contains s p)"

fun join_with :: "rstr \<Rightarrow> rstr list \<Rightarrow> rstr" where
  "join_with sep [] = []"
| "join_with sep [s] = s"
| "join_with sep (s # t # ss) = s @ sep @ join_with sep (t # ss)"

fun position :: "('a \<Rightarrow> bool) \<Rightarrow> 'a list \<Rightarrow> nat option" where
  "position P [] = None"
| "position P (x # xs) = (if P x then Some 0 else map_option Suc (position P xs))"

text \<open>\<open>String::from_utf8\<close> accepts exactly the well-formed UTF-8 sequences (no overlong
  encoding, no surrogate, nothing above U+10FFFF).\<close>

definition cont_byte :: "byte \<Rightarrow> bool" where
  "cont_byte b \<longleftrightarrow> 0x80 \<le> b \<and> b \<le> 0xBF"

fun utf8_valid :: "bytes \<Rightarrow> bool" where
  "utf8_valid [] = True"
| "utf8_valid (a # r) =
    (if a < 0x80 then utf8_valid r
     else case r of
       [] \<Rightarrow> False
     | b # r2 \<Rightarrow>
        if 0xC2 \<le> a \<and> a \<le> 0xDF then cont_byte b \<and> utf8_valid r2
        else (case r2 of
            [] \<Rightarrow> False
          | c # r3 \<Rightarrow>
             if 0xE0 \<le> a \<and> a \<le> 0xEF
             then cont_byte b \<and> (a = 0xE0 \<longrightarrow> 0xA0 \<le> b) \<and> (a = 0xED \<longrightarrow> b \<le> 0x9F)
                  \<and> cont_byte c \<and> utf8_valid r3
             else (case r3 of
                 [] \<Rightarrow> False
               | d # r4 \<Rightarrow>
                  0xF0 \<le> a \<and> a \<le> 0xF4 \<and> cont_byte b \<and> (a = 0xF0 \<longrightarrow> 0x90 \<le> b)
                  \<and> (a = 0xF4 \<longrightarrow> b \<le> 0x8F) \<and> cont_byte c \<and> cont_byte d \<and> utf8_valid r4)))"

section \<open>Decimal numbers\<close>

text \<open>\<open>usize::to_string\<close> and \<open>str::parse::<usize>\<close>: an optional \<open>+\<close>, then at least one digit,
  no other byte, and no overflow of 64 bits.\<close>

definition digit_byte :: "nat \<Rightarrow> byte" where
  "digit_byte d = of_nat (48 + d)"

fun usize_to_string :: "nat \<Rightarrow> rstr" where
  "usize_to_string n =
    (if n < 10 then [digit_byte n] else usize_to_string (n div 10) @ [digit_byte (n mod 10)])"

definition hex_digit :: "nat \<Rightarrow> byte" where
  "hex_digit d = of_nat (if d < 10 then 48 + d else 87 + d)"

fun hex_string :: "nat \<Rightarrow> rstr" where
  "hex_string n = (if n < 16 then [hex_digit n] else hex_string (n div 16) @ [hex_digit (n mod 16)])"

text \<open>\<open>Debug\<close> of a string: quotes, backslashes and control characters are escaped. Characters
  outside ASCII are kept.\<close>

definition debug_escape_byte :: "byte \<Rightarrow> rstr" where
  "debug_escape_byte b =
    (if b = 0 then [92, 48]
     else if b = 9 then [92, 116]
     else if b = 10 then [92, 110]
     else if b = 13 then [92, 114]
     else if b = 34 \<or> b = 92 then [92, b]
     else if b < 16 then [92, 117, 123, hex_digit (unat b), 125]
     else if b < 32 \<or> b = 127 then [92, 117, 123, hex_digit (unat b div 16), hex_digit (unat b mod 16), 125]
     else [b])"

definition str_debug :: "rstr \<Rightarrow> rstr" where
  "str_debug s = [34] @ concat (map debug_escape_byte s) @ [34]"

definition is_digit :: "byte \<Rightarrow> bool" where
  "is_digit b \<longleftrightarrow> 48 \<le> b \<and> b \<le> 57"

fun parse_digits :: "nat \<Rightarrow> rstr \<Rightarrow> nat option" where
  "parse_digits acc [] = Some acc"
| "parse_digits acc (b # s) =
    (if is_digit b
     then let acc' = 10 * acc + (unat b - 48)
          in if acc' < usize_modulus then parse_digits acc' s else None
     else None)"

definition parse_usize :: "rstr \<Rightarrow> nat option" where
  "parse_usize s =
    (case s of
       [] \<Rightarrow> None
     | b # r \<Rightarrow> if b = 43 then (if r = [] then None else parse_digits 0 r) else parse_digits 0 s)"

section \<open>Slices and big-endian words\<close>

definition write_at :: "'a list \<Rightarrow> nat \<Rightarrow> 'a list \<Rightarrow> 'a list" where
  "write_at buf i xs = take i buf @ xs @ drop (i + length xs) buf"

definition slice :: "'a list \<Rightarrow> nat \<Rightarrow> nat \<Rightarrow> 'a list" where
  "slice xs i j = take (j - i) (drop i xs)"

definition from_be_bytes :: "byte \<Rightarrow> byte \<Rightarrow> u16" where
  "from_be_bytes a b = or (push_bit 8 (ucast a)) (ucast b)"

definition be_bytes :: "u16 \<Rightarrow> bytes" where
  "be_bytes w = [ucast (drop_bit 8 w), ucast w]"

section \<open>Lemmas on byte strings\<close>

lemma unat_of_char: "unat (of_char c :: byte) = (of_char c :: nat)"
proof -
  have "unat (of_nat (of_char c) :: byte) = (of_char c :: nat)"
    using nat_of_char_less_256 [of c] by (simp only: unat_of_nat) (simp add: take_bit_eq_mod)
  then show ?thesis by (simp only: of_nat_of_char)
qed

lemma of_char_byte_inject: "(of_char c :: byte) = of_char d \<longleftrightarrow> c = d"
  by (metis unat_of_char of_char_eq_iff)

lemma str_eq_iff [simp]: "str s = str t \<longleftrightarrow> s = t"
  unfolding str_def by (rule inj_map_eq_map) (simp add: inj_on_def of_char_byte_inject)

lemma length_str [simp]: "length (str s) = length s"
  by (simp add: str_def)

lemma str_Nil [simp]: "str [] = []"
  by (simp add: str_def)

lemma str_eq_Nil [simp]: "str s = [] \<longleftrightarrow> s = []"
  by (simp add: str_def)

lemma utf8_valid_ascii: "\<forall>b \<in> set s. b < 0x80 \<Longrightarrow> utf8_valid s"
  by (induction s) auto

lemma utf8_valid_append_ascii:
  "b < 0x80 \<Longrightarrow> utf8_valid (b # s) = utf8_valid s"
  by simp

lemma position_SomeD:
  "position P xs = Some i \<Longrightarrow> i < length xs \<and> P (xs ! i) \<and> (\<forall>j < i. \<not> P (xs ! j))"
proof (induction xs arbitrary: i)
  case (Cons x xs)
  show ?case
  proof (cases "P x")
    case False
    with Cons.prems obtain k where k: "position P xs = Some k" "i = Suc k"
      by auto
    from Cons.IH [OF k(1)] False k(2) show ?thesis
      by (auto simp: nth_Cons split: nat.splits)
  qed (use Cons.prems in simp)
qed simp

lemma position_append:
  "\<forall>x \<in> set xs. \<not> P x \<Longrightarrow> P y \<Longrightarrow> position P (xs @ y # ys) = Some (length xs)"
  by (induction xs) auto

lemma position_None: "position P xs = None \<longleftrightarrow> (\<forall>x \<in> set xs. \<not> P x)"
  by (induction xs) auto

lemma position_Some_split:
  assumes "position P xs = Some i"
  shows "xs = take i xs @ xs ! i # drop (Suc i) xs \<and> P (xs ! i) \<and> (\<forall>x \<in> set (take i xs). \<not> P x)"
proof -
  from position_SomeD [OF assms] have i: "i < length xs" "P (xs ! i)" and no: "\<forall>j < i. \<not> P (xs ! j)"
    by auto
  from i(1) have "xs = take i xs @ xs ! i # drop (Suc i) xs"
    by (simp add: id_take_nth_drop)
  moreover from no have "\<forall>x \<in> set (take i xs). \<not> P x"
    by (auto simp: in_set_conv_nth)
  ultimately show ?thesis using i(2) by blast
qed

lemma starts_with_self_append [simp]: "starts_with (p @ s) p"
  by (simp add: starts_with_def)

lemma starts_with_iff: "starts_with s p \<longleftrightarrow> (\<exists>t. s = p @ t)"
  unfolding starts_with_def by (metis append_eq_conv_conj append_take_drop_id)

section \<open>Lemmas on decimal numbers\<close>

declare usize_to_string.simps [simp del] hex_string.simps [simp del]

lemma unat_digit_byte: "d < 10 \<Longrightarrow> unat (digit_byte d) = 48 + d"
  unfolding digit_byte_def by (simp only: unat_of_nat) simp

lemma is_digit_digit_byte: "d < 10 \<Longrightarrow> is_digit (digit_byte d)"
  unfolding is_digit_def word_le_nat_alt by (simp add: unat_digit_byte)

lemma parse_digits_append:
  "parse_digits acc (s @ t) = Option.bind (parse_digits acc s) (\<lambda>a. parse_digits a t)"
  by (induction acc s rule: parse_digits.induct) (auto simp: Let_def)

lemma parse_digits_to_string:
  "n < usize_modulus \<Longrightarrow> parse_digits 0 (usize_to_string n) = Some n"
proof (induction n rule: usize_to_string.induct)
  case (1 n)
  show ?case
  proof (cases "n < 10")
    case True
    with 1 show ?thesis
      by (simp add: usize_to_string.simps [of n] is_digit_digit_byte unat_digit_byte)
  next
    case False
    with 1 have "parse_digits 0 (usize_to_string (n div 10)) = Some (n div 10)"
      by auto
    with False 1 show ?thesis
      by (simp add: usize_to_string.simps [of n] parse_digits_append is_digit_digit_byte
          unat_digit_byte)
  qed
qed

lemma usize_to_string_not_Nil [simp]: "usize_to_string n \<noteq> []"
  by (simp add: usize_to_string.simps [of n])

lemma set_usize_to_string: "b \<in> set (usize_to_string n) \<Longrightarrow> is_digit b"
proof (induction n rule: usize_to_string.induct)
  case (1 n)
  then show ?case
    by (cases "n < 10") (auto simp: usize_to_string.simps [of n] is_digit_digit_byte)
qed

theorem parse_usize_to_string:
  assumes "n < usize_modulus"
  shows "parse_usize (usize_to_string n) = Some n"
proof -
  obtain b s where bs: "usize_to_string n = b # s"
    by (cases "usize_to_string n") auto
  then have "is_digit b" using set_usize_to_string [of b n] by simp
  then have "b \<noteq> 43" by (auto simp: is_digit_def)
  with parse_digits_to_string [OF assms] bs show ?thesis
    by (simp add: parse_usize_def)
qed

section \<open>Lemmas on slices and words\<close>

lemma length_write_at [simp]: "i + length xs \<le> length buf \<Longrightarrow> length (write_at buf i xs) = length buf"
  by (simp add: write_at_def)

lemma write_at_append:
  "length pre = i \<Longrightarrow> write_at (pre @ mid @ post) i xs = pre @ xs @ drop (length xs) (mid @ post)"
  by (simp add: write_at_def)

lemma update_pair_write_at:
  assumes "i + 2 \<le> length buf"
  shows "buf[i := x, i + 1 := y] = write_at buf i [x, y]"
proof -
  define pre where "pre = take i buf"
  from assms have len: "length pre = i" by (simp add: pre_def)
  from assms obtain u v post where "drop i buf = u # v # post"
    by (metis Cons_nth_drop_Suc Suc_le_eq add_2_eq_Suc' less_SucI less_Suc_eq_le not_less_eq_eq)
  then have "buf = pre @ u # v # post"
    by (metis pre_def append_take_drop_id)
  with len show ?thesis by (auto simp: write_at_def list_update_append)
qed

lemma take_write_at: "i \<le> length buf \<Longrightarrow> take (i + length xs) (write_at buf i xs) = take i buf @ xs"
  by (simp add: write_at_def)

lemma be_bytes_inverse [simp]: "from_be_bytes (ucast (drop_bit 8 w)) (ucast w) = w"
  unfolding from_be_bytes_def
  by (rule bit_word_eqI) (auto simp: bit_simps)

lemma from_be_bytes_inverse:
  "be_bytes (from_be_bytes a b) = [a, b]"
proof -
  have "ucast (drop_bit 8 (from_be_bytes a b)) = a"
    unfolding from_be_bytes_def
    by (rule bit_word_eqI) (auto simp: bit_simps dest: bit_imp_le_length)
  moreover have "ucast (from_be_bytes a b) = b"
    unfolding from_be_bytes_def by (rule bit_word_eqI) (auto simp: bit_simps)
  ultimately show ?thesis by (simp add: be_bytes_def)
qed

lemma length_be_bytes [simp]: "length (be_bytes w) = 2"
  by (simp add: be_bytes_def)

lemma unat_u16_less [simp]: "unat (w :: u16) < 65536"
  using unsigned_less [of w] by simp

lemma unat_of_nat_u16: "unat (of_nat n :: u16) = n mod 65536"
  by (simp add: unat_of_nat take_bit_eq_mod)

lemma take_header [simp]: "take (n + 4) (a # b # c # d # xs) = a # b # c # d # take n xs"
  by (simp add: numeral_eq_Suc)

lemma unat_u16_Suc: "(a :: u16) < b \<Longrightarrow> unat (a + 1) = Suc (unat a)"
  by unat_arith

end
