(* ===== verification/Cursor.thy ===== *)
theory Cursor
  imports Prelude
begin

text \<open>
  The cursors of \<open>src/cursor/mod.rs\<close>: \<open>ReadCursor\<close> extracts big-endian \<open>u16\<close> values and
  NUL-terminated UTF-8 strings from a received datagram, \<open>WriteCursor\<close> puts them into a
  caller's buffer. Every operation takes the cursor and returns it updated. A string is put
  with an index expression that can be out of range, so \<open>put_string\<close> returns a \<open>run\<close>, whose
  \<open>None\<close> is the panic.
\<close>

section \<open>Definitions\<close>

record ReadCursor =
  datagram :: bytes
  index :: usize

definition ReadCursor_new :: "bytes \<Rightarrow> ReadCursor" where
  "ReadCursor_new d = \<lparr>datagram = d, index = 0\<rparr>"

definition extract_ushort :: "ReadCursor \<Rightarrow> (io_error + u16) \<times> ReadCursor" where
  "extract_ushort c =
    (let end_index = index c + 2 in
     if length (datagram c) < end_index then (Inl (io_kind UnexpectedEof), c)
     else (Inr (from_be_bytes (datagram c ! index c) (datagram c ! (index c + 1))),
           c\<lparr>index := end_index\<rparr>))"

definition extract_string :: "ReadCursor \<Rightarrow> (io_error + rstr) \<times> ReadCursor" where
  "extract_string c =
    (if length (datagram c) \<le> index c then (Inl (io_kind UnexpectedEof), c)
     else case position (\<lambda>b. b = 0) (drop (index c) (datagram c)) of
       Some relative_null_index \<Rightarrow>
         (let absolute_null_index = index c + relative_null_index;
              raw = slice (datagram c) (index c) absolute_null_index in
          if utf8_valid raw then (Inr raw, c\<lparr>index := absolute_null_index + 1\<rparr>)
          else (Inl \<lparr>kind = InvalidData, detail = str ''Can't parse UTF-8''\<rparr>, c))
     | None \<Rightarrow> (Inl \<lparr>kind = InvalidData, detail = str ''Null-terminated string is not found''\<rparr>, c))"

record BufferError =
  message :: rstr

definition BufferError_new :: "rstr \<Rightarrow> BufferError" where
  "BufferError_new m = \<lparr>message = m\<rparr>"

definition BufferError_display :: "BufferError \<Rightarrow> rstr" where
  "BufferError_display e = str ''<'' @ message e @ str ''>''"

record WriteCursor =
  buffer :: bytes
  offset :: usize

definition WriteCursor_new :: "bytes \<Rightarrow> WriteCursor" where
  "WriteCursor_new b = \<lparr>buffer = b, offset = 0\<rparr>"

definition put_ushort :: "WriteCursor \<Rightarrow> u16 \<Rightarrow> (BufferError + usize) \<times> WriteCursor" where
  "put_ushort c value =
    (let end_index = offset c + 2 in
     if length (buffer c) < end_index
     then (Inl (BufferError_new (str ''Too little data left to write u16'')), c)
     else (Inr end_index,
           c\<lparr>buffer := (buffer c)
                [offset c := ucast (drop_bit 8 (and value 0xFF00)),
                 offset c + 1 := ucast (and value 0xFF)],
             offset := end_index\<rparr>))"

definition put_string :: "WriteCursor \<Rightarrow> rstr \<Rightarrow> ((BufferError + usize) \<times> WriteCursor) run" where
  "put_string c s =
    (let string_size = length s;
         end_index = offset c + string_size + 1 in
     if length (buffer c) < end_index
     then Some (Inl (BufferError_new
            (str ''Too little data left to write a string '' @ usize_to_string string_size
             @ str '' bytes size'')), c)
     else let written = write_at (buffer c) (offset c) s in
       if end_index < length written
       then Some (Inr end_index, c\<lparr>buffer := written[end_index := 0], offset := end_index\<rparr>)
       else None)"

section \<open>Reading\<close>

lemma ReadCursor_new_simps [simp]:
  "datagram (ReadCursor_new d) = d" "index (ReadCursor_new d) = 0"
  by (simp_all add: ReadCursor_new_def)

lemma extract_ushort_datagram: "datagram (snd (extract_ushort c)) = datagram c"
  by (simp add: extract_ushort_def Let_def)

lemma extract_string_datagram: "datagram (snd (extract_string c)) = datagram c"
  by (simp add: extract_string_def Let_def split: option.splits)

lemma extract_ushort_bounds:
  "index c \<le> length (datagram c) \<Longrightarrow> index (snd (extract_ushort c)) \<le> length (datagram c)"
  by (simp add: extract_ushort_def Let_def)

text \<open>A string that was extracted is the prefix of the rest of the datagram up to its first
  NUL, and the cursor stands behind that NUL.\<close>

lemma extract_string_InrD:
  assumes "extract_string c = (Inr s, c')"
  shows "index c < length (datagram c) \<and> utf8_valid s \<and> 0 \<notin> set s
    \<and> drop (index c) (datagram c) = s @ 0 # drop (index c') (datagram c)
    \<and> c' = c\<lparr>index := index c + length s + 1\<rparr> \<and> index c' \<le> length (datagram c)"
proof -
  let ?r = "drop (index c) (datagram c)"
  from assms obtain i where lt: "index c < length (datagram c)"
    and p: "position (\<lambda>b. b = 0) ?r = Some i"
    and s: "s = take i ?r" "utf8_valid s" and c': "c' = c\<lparr>index := index c + i + 1\<rparr>"
    by (auto simp: extract_string_def Let_def slice_def split: if_splits option.splits)
  from position_SomeD [OF p] have i: "i < length ?r" by simp
  from position_Some_split [OF p] have sp: "?r = take i ?r @ 0 # drop (Suc i) ?r"
    and nz: "0 \<notin> set (take i ?r)" by auto
  from i s(1) have len: "length s = i" by simp
  have "drop (Suc i) ?r = drop (index c') (datagram c)"
    by (simp add: c' add.commute add.left_commute)
  with sp s(1) have "?r = s @ 0 # drop (index c') (datagram c)" by simp
  moreover from i have "index c' \<le> length (datagram c)" by (simp add: c')
  ultimately show ?thesis using lt s nz c' len by auto
qed

lemma extract_string_decreases:
  assumes "extract_string c = (Inr s, c')"
  shows "length (datagram c') - index c' < length (datagram c) - index c"
  using extract_string_InrD [OF assms] by auto

text \<open>Conversely, a valid string followed by a NUL is extracted as it stands.\<close>

lemma extract_string_at:
  assumes "datagram c = pre @ s @ 0 # post" "index c = length pre" "utf8_valid s" "0 \<notin> set s"
  shows "extract_string c = (Inr s, c\<lparr>index := length pre + length s + 1\<rparr>)"
proof -
  have "position (\<lambda>b. b = 0) (s @ 0 # post) = Some (length s)"
    by (rule position_append) (use assms(4) in auto)
  with assms show ?thesis
    by (simp add: extract_string_def slice_def)
qed

lemma extract_string_eof:
  "length (datagram c) \<le> index c \<Longrightarrow> extract_string c = (Inl (io_kind UnexpectedEof), c)"
  by (simp add: extract_string_def)

lemma extract_string_eof_iff:
  "fst (extract_string c) = Inl e \<Longrightarrow> kind e = UnexpectedEof \<longleftrightarrow> length (datagram c) \<le> index c"
  by (auto simp: extract_string_def io_kind_def Let_def split: if_splits option.splits)

lemma extract_ushort_at:
  assumes "datagram c = pre @ a # b # post" "index c = length pre"
  shows "extract_ushort c = (Inr (from_be_bytes a b), c\<lparr>index := length pre + 2\<rparr>)"
  using assms by (simp add: extract_ushort_def Let_def nth_append)

section \<open>Writing\<close>

lemma WriteCursor_new_simps [simp]:
  "buffer (WriteCursor_new b) = b" "offset (WriteCursor_new b) = 0"
  by (simp_all add: WriteCursor_new_def)

lemma put_ushort_bytes:
  "ucast (drop_bit 8 (and (value :: u16) 0xFF00)) = (ucast (drop_bit 8 value) :: byte)"
  "ucast (and (value :: u16) 0xFF) = (ucast value :: byte)"
proof -
  have m: "bit (0xFF00 :: u16) n \<longleftrightarrow> 8 \<le> n \<and> n < 16" "bit (0xFF :: u16) n \<longleftrightarrow> n < 8" for n
  proof -
    have "(0xFF00 :: u16) = push_bit 8 (mask 8)" "(0xFF :: u16) = mask 8"
      by (simp_all add: mask_eq_exp_minus_1)
    then show "bit (0xFF00 :: u16) n \<longleftrightarrow> 8 \<le> n \<and> n < 16" "bit (0xFF :: u16) n \<longleftrightarrow> n < 8"
      by (auto simp only: bit_simps) (auto dest: bit_imp_le_length)
  qed
  show "ucast (drop_bit 8 (and value 0xFF00)) = (ucast (drop_bit 8 value) :: byte)"
    by (rule bit_word_eqI) (simp only: bit_ucast_iff bit_drop_bit_eq bit_and_iff o_def m, auto)
  show "ucast (and value 0xFF) = (ucast value :: byte)"
    by (rule bit_word_eqI) (simp only: bit_ucast_iff bit_and_iff m, auto)
qed

lemma put_ushort_length: "length (buffer (snd (put_ushort c v))) = length (buffer c)"
  by (simp add: put_ushort_def Let_def)

lemma put_string_length:
  "put_string c s = Some (r, c') \<Longrightarrow> length (buffer c') = length (buffer c)"
  by (auto simp: put_string_def Let_def split: if_splits)

text \<open>A cursor is \<^emph>\<open>clean\<close> when every byte from its offset on is zero. Puts into a clean cursor
  append the encoded value and leave a clean cursor.\<close>

definition clean :: "WriteCursor \<Rightarrow> bytes \<Rightarrow> nat \<Rightarrow> bool" where
  "clean c pre n \<longleftrightarrow> buffer c = pre @ replicate n 0 \<and> offset c = length pre"

lemma clean_new: "clean (WriteCursor_new (replicate n 0)) [] n"
  by (simp add: clean_def)

lemma clean_put_ushort:
  assumes "clean c pre n" "2 \<le> n"
  shows "\<exists>c'. put_ushort c v = (Inr (length pre + 2), c') \<and> clean c' (pre @ be_bytes v) (n - 2)"
proof -
  from assms(2) obtain m where n: "n = Suc (Suc m)" by (metis Suc_le_D numeral_2_eq_2 Suc_le_mono)
  with assms(1) show ?thesis
    by (auto simp: put_ushort_def clean_def put_ushort_bytes be_bytes_def Let_def
        list_update_append)
qed

lemma clean_put_string:
  assumes "clean c pre n" "length s + 1 < n"
  shows "\<exists>c'. put_string c s = Some (Inr (length pre + length s + 1), c')
    \<and> clean c' (pre @ s @ [0]) (n - (length s + 1))"
proof -
  define m where "m = n - (length s + 2)"
  with assms(2) have n: "n - length s = Suc (Suc m)" by simp
  have "write_at (buffer c) (offset c) s = pre @ s @ replicate (n - length s) 0"
    using assms(1) by (simp add: clean_def write_at_def)
  with n have w: "write_at (buffer c) (offset c) s = pre @ s @ 0 # 0 # replicate m 0"
    by simp
  have z: "(pre @ s @ 0 # 0 # replicate m 0)[length pre + length s + 1 := 0]
      = pre @ s @ 0 # 0 # replicate m 0"
    by (simp add: list_update_append)
  have "\<not> length (buffer c) < offset c + length s + 1"
    using assms by (simp add: clean_def)
  moreover from n have "n - (length s + 1) = Suc m" by simp
  ultimately show ?thesis using w z assms(1)
    by (simp add: put_string_def Let_def clean_def)
qed

text \<open>On an arbitrary buffer: what was put, byte by byte. The byte that should terminate a
  string is the one the buffer held before.\<close>

lemma put_ushort_eq:
  "put_ushort c v =
    (if length (buffer c) < offset c + 2
     then (Inl (BufferError_new (str ''Too little data left to write u16'')), c)
     else (Inr (offset c + 2),
           c\<lparr>buffer := write_at (buffer c) (offset c) (be_bytes v), offset := offset c + 2\<rparr>))"
proof (cases "length (buffer c) < offset c + 2")
  case False
  then have "(buffer c)[offset c := x, offset c + 1 := y] = write_at (buffer c) (offset c) [x, y]"
    for x y by (intro update_pair_write_at) simp
  with False show ?thesis
    by (simp add: put_ushort_def be_bytes_def put_ushort_bytes Let_def)
qed (simp add: put_ushort_def)

lemma put_string_InrD:
  assumes "put_string c s = Some (Inr n, c')"
  shows "n = offset c + length s + 1 \<and> offset c' = n \<and> n < length (buffer c)
    \<and> take n (buffer c') = take (offset c) (buffer c) @ s @ [buffer c ! (offset c + length s)]"
proof -
  from assms have n: "n = offset c + length s + 1" "n < length (buffer c)"
    and c': "offset c' = n" "buffer c' = (write_at (buffer c) (offset c) s)[n := 0]"
    by (auto simp: put_string_def Let_def split: if_splits)
  have "take n (buffer c') = take n (write_at (buffer c) (offset c) s)"
    by (simp add: c')
  also have "\<dots> = take (offset c) (buffer c) @ s @ [buffer c ! (offset c + length s)]"
    using n by (simp add: write_at_def min_def take_Suc_conv_app_nth hd_drop_conv_nth
        take_Suc)
  finally show ?thesis using n c' by simp
qed

lemma put_string_outcome:
  "put_string c s = None \<longleftrightarrow> length (buffer c) = offset c + length s + 1"
  "(\<exists>n c'. put_string c s = Some (Inr n, c')) \<longleftrightarrow> offset c + length s + 1 < length (buffer c)"
  by (auto simp: put_string_def Let_def)

end
