(* ===== verification/Tftp_Error.thy ===== *)
theory Tftp_Error
  imports Cursor
begin

text \<open>
  \<open>src/error.rs\<close>: the TFTP error values, their codes, their printed form and their
  serialisation into an ERROR packet (opcode 5, code, NUL-terminated message).
\<close>

section \<open>Definitions\<close>

definition ERROR :: u16 where "ERROR = 0x05"
definition UNDEFINED_ERROR :: u16 where "UNDEFINED_ERROR = 0x00"
definition FILE_NOT_FOUND :: u16 where "FILE_NOT_FOUND = 0x01"
definition ACCESS_VIOLATION :: u16 where "ACCESS_VIOLATION = 0x02"
definition ILLEGAL_OPERATION :: u16 where "ILLEGAL_OPERATION = 0x04"

datatype TFTPError =
    UndefinedError rstr
  | FileNotFound rstr
  | AccessViolation rstr
  | IllegalOperation rstr

definition undefined_error :: "string \<Rightarrow> TFTPError" where
  "undefined_error m = UndefinedError (str m)"

definition file_not_found :: TFTPError where
  "file_not_found = FileNotFound (str ''File not found'')"

definition access_violation :: TFTPError where
  "access_violation = AccessViolation (str ''Access violation'')"

definition illegal_operation :: "string \<Rightarrow> TFTPError" where
  "illegal_operation m = IllegalOperation (str m)"

fun TFTPError_parse :: "TFTPError \<Rightarrow> u16 \<times> rstr" where
  "TFTPError_parse (UndefinedError s) = (UNDEFINED_ERROR, s)"
| "TFTPError_parse (FileNotFound s) = (FILE_NOT_FOUND, s)"
| "TFTPError_parse (AccessViolation s) = (ACCESS_VIOLATION, s)"
| "TFTPError_parse (IllegalOperation s) = (ILLEGAL_OPERATION, s)"

definition TFTPError_serialize :: "TFTPError \<Rightarrow> bytes \<Rightarrow> ((BufferError + usize) \<times> bytes) run" where
  "TFTPError_serialize e buf =
    (let cursor = WriteCursor_new buf;
         (code, msg) = TFTPError_parse e in
     case put_ushort cursor ERROR of
       (Inl err, cursor) \<Rightarrow> Some (Inl err, buffer cursor)
     | (Inr _, cursor) \<Rightarrow>
        (case put_ushort cursor code of
           (Inl err, cursor) \<Rightarrow> Some (Inl err, buffer cursor)
         | (Inr _, cursor) \<Rightarrow>
             map_option (\<lambda>(r, cursor). (r, buffer cursor)) (put_string cursor msg)))"

definition hex02 :: "u16 \<Rightarrow> rstr" where
  "hex02 w = (let h = hex_string (unat w) in replicate (2 - length h) 48 @ h)"

definition TFTPError_display :: "TFTPError \<Rightarrow> rstr" where
  "TFTPError_display e =
    (let (code, msg) = TFTPError_parse e in str ''TFTP ERROR: [0x'' @ hex02 code @ str ''] '' @ msg)"

text \<open>The ERROR packet of the protocol, and the size that \<open>serialize\<close> announces for it.\<close>

definition error_packet :: "TFTPError \<Rightarrow> bytes" where
  "error_packet e = be_bytes ERROR @ be_bytes (fst (TFTPError_parse e)) @ snd (TFTPError_parse e) @ [0]"

definition error_size :: "TFTPError \<Rightarrow> nat" where
  "error_size e = length (snd (TFTPError_parse e)) + 5"

section \<open>Serialisation\<close>

lemma length_error_packet [simp]: "length (error_packet e) = error_size e"
  by (simp add: error_packet_def error_size_def)

lemma serialize_unfold:
  assumes "4 \<le> length buf" and "TFTPError_parse e = (code, msg)"
  shows "TFTPError_serialize e buf =
    map_option (\<lambda>(r, c). (r, buffer c))
      (put_string \<lparr>buffer = be_bytes ERROR @ be_bytes code @ drop 4 buf, offset = 4\<rparr> msg)"
proof -
  from assms(1) obtain a b c d rest where "buf = a # b # c # d # rest"
    by (auto simp: Suc_le_length_iff numeral_eq_Suc)
  with assms(2) show ?thesis
    by (simp add: TFTPError_serialize_def put_ushort_eq Let_def WriteCursor_new_def write_at_def
        be_bytes_def numeral_eq_Suc)
qed

lemma serialize_success:
  assumes "error_size e < length buf"
  shows "\<exists>buf'. TFTPError_serialize e buf = Some (Inr (error_size e), buf')
    \<and> length buf' = length buf
    \<and> take (error_size e) buf' = butlast (error_packet e) @ [buf ! (error_size e - 1)]"
proof -
  obtain code msg where p: "TFTPError_parse e = (code, msg)" by fastforce
  let ?c = "\<lparr>buffer = be_bytes ERROR @ be_bytes code @ drop 4 buf, offset = 4\<rparr>"
  have "offset ?c + length msg + 1 < length (buffer ?c)"
    using assms p by (simp add: error_size_def)
  then obtain n c' where r: "put_string ?c msg = Some (Inr n, c')"
    using put_string_outcome(2) by blast
  from put_string_InrD [OF r] have n: "n = error_size e"
    and t: "take n (buffer c') = be_bytes ERROR @ be_bytes code @ msg @ [buf ! (4 + length msg)]"
    using assms p by (auto simp: error_size_def nth_append be_bytes_def)
  from put_string_length [OF r] have "length (buffer c') = length buf"
    using assms by (simp add: error_size_def)
  moreover from assms have "4 \<le> length buf" by (simp add: error_size_def)
  ultimately show ?thesis
    using r n t p by (simp add: serialize_unfold error_packet_def butlast_append error_size_def
        add.commute)
qed

lemma serialize_panics:
  assumes "length buf = error_size e"
  shows "TFTPError_serialize e buf = None"
proof -
  obtain code msg where p: "TFTPError_parse e = (code, msg)" by fastforce
  with assms show ?thesis
    by (simp add: serialize_unfold error_size_def put_string_outcome)
qed

lemma serialize_too_small:
  assumes "length buf < error_size e"
  shows "\<exists>err buf'. TFTPError_serialize e buf = Some (Inl err, buf') \<and> length buf' = length buf"
proof -
  obtain code msg where p: "TFTPError_parse e = (code, msg)" by fastforce
  show ?thesis
  proof (cases "4 \<le> length buf")
    case True
    with assms p show ?thesis
      by (simp add: serialize_unfold error_size_def put_string_def Let_def) arith
  next
    case False
    with p show ?thesis
      by (auto simp: TFTPError_serialize_def put_ushort_eq Let_def)
  qed
qed

lemma serialize_zeroed:
  assumes "error_size e < n"
  shows "\<exists>buf'. TFTPError_serialize e (replicate n 0) = Some (Inr (error_size e), buf')
    \<and> take (error_size e) buf' = error_packet e"
proof -
  have "butlast (error_packet e) @ [0] = error_packet e"
    by (simp add: error_packet_def butlast_append)
  moreover have "replicate n 0 ! (error_size e - 1) = (0 :: byte)"
    using assms by simp
  ultimately show ?thesis
    using serialize_success [of e "replicate n 0"] assms by auto
qed

end
