(* ===== verification/Messages.thy ===== *)
theory Messages
  imports Tftp_Error
begin

text \<open>
  \<open>src/messages/mod.rs\<close>: the read request, parsed from a received datagram, and the options
  acknowledgement, serialised into a buffer. The option table of a request is a
  \<open>HashMap<String, String>\<close>, modelled as a map; the options of an acknowledgement are the
  ordered vector of pairs the code keeps.
\<close>

section \<open>Definitions\<close>

definition RRQ :: u16 where "RRQ = 0x01"
definition OACK :: u16 where "OACK = 0x06"
definition OCTET :: rstr where "OCTET = str ''octet''"

record ReadRequest =
  filename :: rstr
  options :: "rstr \<rightharpoonup> rstr"

abbreviation bad_format :: TFTPError where
  "bad_format \<equiv> undefined_error ''Bad format''"

text \<open>The loop of \<open>ReadRequest::parse\<close> that collects the option pairs until the datagram ends.\<close>

function parse_options :: "ReadCursor \<Rightarrow> (rstr \<rightharpoonup> rstr) \<Rightarrow> TFTPError + (rstr \<rightharpoonup> rstr)" where
  "parse_options cursor opts =
    (case extract_string cursor of
       (Inl error, _) \<Rightarrow> if kind error = UnexpectedEof then Inr opts else Inl bad_format
     | (Inr option_name, cursor1) \<Rightarrow>
        (case extract_string cursor1 of
           (Inl _, _) \<Rightarrow> Inl bad_format
         | (Inr option_value, cursor2) \<Rightarrow> parse_options cursor2 (opts(option_name \<mapsto> option_value))))"
  by pat_completeness auto
termination
proof (relation "measure (\<lambda>(c, _). length (datagram c) - index c)", goal_cases)
  case (2 cursor opts r1 cursor1 option_name r2 cursor2 option_value)
  then have "extract_string cursor = (Inr option_name, cursor1)"
    "extract_string cursor1 = (Inr option_value, cursor2)" by simp_all
  then have "length (datagram cursor2) - index cursor2 < length (datagram cursor1) - index cursor1"
    "length (datagram cursor1) - index cursor1 < length (datagram cursor) - index cursor"
    by (simp_all add: extract_string_decreases)
  then show ?case by simp
qed simp

declare parse_options.simps [simp del]

text \<open>\<open>Debug\<close> of a map lists its entries in the order of its iteration, which is the argument \<open>entries\<close>.\<close>

definition map_debug :: "(rstr \<times> rstr) list \<Rightarrow> rstr" where
  "map_debug entries = str ''{'' @ join_with (str '', '') (map (\<lambda>(k, v). str_debug k @ str '': '' @ str_debug v) entries) @ str ''}''"

definition ReadRequest_display :: "(rstr \<times> rstr) list \<Rightarrow> ReadRequest \<Rightarrow> rstr" where
  "ReadRequest_display entries r = str ''RRQ: '' @ [39] @ filename r @ [39] @ str '' ('' @ map_debug entries @ str '')''"

definition ReadRequest_parse :: "bytes \<Rightarrow> TFTPError + ReadRequest" where
  "ReadRequest_parse raw =
    (case extract_ushort (ReadCursor_new raw) of
       (Inl _, _) \<Rightarrow> Inl bad_format
     | (Inr opcode, cursor) \<Rightarrow>
        if opcode \<noteq> RRQ then Inl (illegal_operation ''Only RRQ is supported'')
        else (case extract_string cursor of
           (Inl _, _) \<Rightarrow> Inl (undefined_error ''Can't obtain filename'')
         | (Inr fname, cursor) \<Rightarrow>
            (case extract_string cursor of
               (Inl _, _) \<Rightarrow> Inl bad_format
             | (Inr mode, cursor) \<Rightarrow>
                if mode \<noteq> OCTET
                then if mode = [] then Inl bad_format
                     else Inl (undefined_error ''Only octet mode is supported'')
                else (case parse_options cursor Map.empty of
                   Inl e \<Rightarrow> Inl e
                 | Inr opts \<Rightarrow> Inr \<lparr>filename = fname, options = opts\<rparr>))))"

text \<open>\<open>open_in\<close> is generic in the file system root; the root is passed as its \<open>open\<close>.\<close>

definition open_in :: "ReadRequest \<Rightarrow> (rstr \<Rightarrow> 'r) \<Rightarrow> 'r" where
  "open_in request fs_open = fs_open (trim_start_matches slash (filename request))"

definition yield_options :: "ReadRequest \<Rightarrow> (rstr \<rightharpoonup> rstr)" where
  "yield_options request = options request"

record OptionsAcknowledge =
  oack_options :: "(rstr \<times> rstr) list"

definition OptionsAcknowledge_new :: OptionsAcknowledge where
  "OptionsAcknowledge_new = \<lparr>oack_options = []\<rparr>"

fun put_options :: "WriteCursor \<Rightarrow> (rstr \<times> rstr) list \<Rightarrow> usize
    \<Rightarrow> ((BufferError + usize) \<times> WriteCursor) run" where
  "put_options c [] off = Some (Inr off, c)"
| "put_options c ((key, val) # rest) off = do {
     (r, c) \<leftarrow> put_string c key;
     case r of
       Inl e \<Rightarrow> Some (Inl e, c)
     | Inr _ \<Rightarrow> do {
         (r, c) \<leftarrow> put_string c val;
         case r of
           Inl e \<Rightarrow> Some (Inl e, c)
         | Inr off' \<Rightarrow> put_options c rest off'
       }
   }"

definition OptionsAcknowledge_serialize ::
    "OptionsAcknowledge \<Rightarrow> bytes \<Rightarrow> ((BufferError + usize) \<times> bytes) run" where
  "OptionsAcknowledge_serialize oack buf =
    (if buf = [] then Some (Inr 0, buf)
     else case put_ushort (WriteCursor_new buf) OACK of
       (Inl e, c) \<Rightarrow> Some (Inl e, buffer c)
     | (Inr _, c) \<Rightarrow> map_option (\<lambda>(r, c). (r, buffer c)) (put_options c (oack_options oack) 0))"

definition OptionsAcknowledge_push :: "OptionsAcknowledge \<Rightarrow> rstr \<times> rstr \<Rightarrow> OptionsAcknowledge" where
  "OptionsAcknowledge_push oack opt = oack\<lparr>oack_options := oack_options oack @ [opt]\<rparr>"

definition has_options :: "OptionsAcknowledge \<Rightarrow> bool" where
  "has_options oack \<longleftrightarrow> oack_options oack \<noteq> []"

definition OptionsAcknowledge_display :: "OptionsAcknowledge \<Rightarrow> rstr" where
  "OptionsAcknowledge_display oack =
    str ''OACK: ['' @ join_with (str '','') (map (\<lambda>(n, v). n @ str ''='' @ v) (oack_options oack))
    @ str '']''"

text \<open>The packet formats of RFC 1350 and RFC 2347 that the two messages implement.\<close>

definition wf_str :: "rstr \<Rightarrow> bool" where
  "wf_str s \<longleftrightarrow> utf8_valid s \<and> 0 \<notin> set s"

definition wf_options :: "(rstr \<times> rstr) list \<Rightarrow> bool" where
  "wf_options opts \<longleftrightarrow> (\<forall>(k, v) \<in> set opts. wf_str k \<and> wf_str v)"

definition option_bytes :: "(rstr \<times> rstr) list \<Rightarrow> bytes" where
  "option_bytes opts = concat (map (\<lambda>(k, v). k @ 0 # v @ [0]) opts)"

definition rrq_packet :: "rstr \<Rightarrow> (rstr \<times> rstr) list \<Rightarrow> bytes" where
  "rrq_packet fname opts = be_bytes RRQ @ fname @ 0 # OCTET @ 0 # option_bytes opts"

definition oack_packet :: "(rstr \<times> rstr) list \<Rightarrow> bytes" where
  "oack_packet opts = be_bytes OACK @ option_bytes opts"

section \<open>Parsing\<close>

lemma option_bytes_simps [simp]:
  "option_bytes [] = []"
  "option_bytes ((k, v) # opts) = k @ 0 # v @ 0 # option_bytes opts"
  by (simp_all add: option_bytes_def)

lemma wf_options_simps [simp]:
  "wf_options []"
  "wf_options ((k, v) # opts) \<longleftrightarrow> wf_str k \<and> wf_str v \<and> wf_options opts"
  by (auto simp: wf_options_def)

lemma parse_options_complete:
  assumes "datagram c = pre @ option_bytes opts" "index c = length pre" "wf_options opts"
  shows "parse_options c m = Inr (m ++ map_of (rev opts))"
  using assms
proof (induction opts arbitrary: c m pre)
  case Nil
  then show ?case
    by (subst parse_options.simps) (simp add: extract_string_eof io_kind_def)
next
  case (Cons kv opts)
  obtain k v where kv: "kv = (k, v)" by fastforce
  let ?c1 = "c\<lparr>index := length pre + length k + 1\<rparr>"
  let ?c2 = "c\<lparr>index := length pre + length k + 1 + length v + 1\<rparr>"
  have e1: "extract_string c = (Inr k, ?c1)"
    by (rule extract_string_at [where post = "v @ 0 # option_bytes opts"])
      (use Cons.prems kv in \<open>auto simp: wf_str_def\<close>)
  have e2: "extract_string ?c1 = (Inr v, ?c2)"
    using extract_string_at [of ?c1 "pre @ k @ [0]" v "option_bytes opts"] Cons.prems kv
    by (auto simp: wf_str_def)
  have "parse_options ?c2 (m(k \<mapsto> v)) = Inr (m(k \<mapsto> v) ++ map_of (rev opts))"
    using Cons.prems kv by (intro Cons.IH [where pre = "pre @ k @ 0 # v @ [0]"]) auto
  with e1 e2 kv show ?case
    by (subst parse_options.simps) (simp add: map_add_upd_left map_of_append)
qed

lemma parse_options_sound:
  "parse_options c m = Inr m' \<Longrightarrow>
    \<exists>opts. drop (index c) (datagram c) = option_bytes opts \<and> wf_options opts
      \<and> m' = m ++ map_of (rev opts)"
proof (induction c m rule: parse_options.induct)
  case (1 c m)
  obtain r1 c1 where e1: "extract_string c = (r1, c1)" by fastforce
  show ?case
  proof (cases r1)
    case (Inl e)
    with e1 "1.prems" have "m' = m" "kind e = UnexpectedEof"
      by (auto simp: parse_options.simps [of c m] split: if_splits)
    with e1 Inl extract_string_eof_iff [of c e] show ?thesis
      by (intro exI [where x = "[]"]) auto
  next
    case (Inr k)
    obtain r2 c2 where e2: "extract_string c1 = (r2, c2)" by fastforce
    with "1.prems" e1 Inr obtain v where v: "r2 = Inr v"
      by (cases r2) (auto simp: parse_options.simps [of c m])
    from e1 Inr have d1: "drop (index c) (datagram c) = k @ 0 # drop (index c1) (datagram c)"
      "wf_str k" "datagram c1 = datagram c"
      using extract_string_InrD [of c k c1] by (auto simp: wf_str_def)
    from e2 v have d2: "drop (index c1) (datagram c1) = v @ 0 # drop (index c2) (datagram c1)"
      "wf_str v" "datagram c2 = datagram c1"
      using extract_string_InrD [of c1 v c2] by (auto simp: wf_str_def)
    have "parse_options c2 (m(k \<mapsto> v)) = Inr m'"
      using "1.prems" e1 e2 Inr v by (auto simp: parse_options.simps [of c m])
    then obtain opts where "drop (index c2) (datagram c2) = option_bytes opts" "wf_options opts"
      "m' = m(k \<mapsto> v) ++ map_of (rev opts)"
      using "1.IH" [OF e1 [symmetric] Inr e2 [symmetric] v] by blast
    with d1 d2 show ?thesis
      by (intro exI [where x = "(k, v) # opts"]) (simp add: map_add_upd_left map_of_append)
  qed
qed

lemma wf_OCTET: "wf_str OCTET"
  by (simp add: wf_str_def OCTET_def str_def)

lemma be_bytes_RRQ [simp]: "be_bytes RRQ = [0, 1]"
  by (simp add: be_bytes_def RRQ_def)

lemma be_bytes_OACK [simp]: "be_bytes OACK = [0, 6]"
  by (simp add: be_bytes_def OACK_def)

lemma from_be_bytes_eq_iff: "from_be_bytes a b = w \<longleftrightarrow> [a, b] = be_bytes w"
  by (metis from_be_bytes_inverse be_bytes_def be_bytes_inverse list.inject)

lemma ReadRequest_parse_complete:
  assumes "wf_str fname" "wf_options opts"
  shows "ReadRequest_parse (rrq_packet fname opts) = Inr \<lparr>filename = fname, options = map_of (rev opts)\<rparr>"
proof -
  let ?d = "rrq_packet fname opts"
  let ?c1 = "\<lparr>datagram = ?d, index = 2\<rparr>"
  let ?c2 = "\<lparr>datagram = ?d, index = 2 + length fname + 1\<rparr>"
  let ?c3 = "\<lparr>datagram = ?d, index = 2 + length fname + 1 + length OCTET + 1\<rparr>"
  have e1: "extract_ushort (ReadCursor_new ?d) = (Inr RRQ, ?c1)"
    using extract_ushort_at [of "ReadCursor_new ?d" "[]" 0 1]
    by (simp add: rrq_packet_def from_be_bytes_eq_iff ReadCursor_new_def)
  have e2: "extract_string ?c1 = (Inr fname, ?c2)"
    using extract_string_at [of ?c1 "[0, 1]" fname "OCTET @ 0 # option_bytes opts"] assms(1)
    by (simp add: rrq_packet_def wf_str_def)
  have e3: "extract_string ?c2 = (Inr OCTET, ?c3)"
    using extract_string_at [of ?c2 "[0, 1] @ fname @ [0]" OCTET "option_bytes opts"] wf_OCTET
    by (simp add: rrq_packet_def wf_str_def)
  have e4: "parse_options ?c3 Map.empty = Inr (map_of (rev opts))"
    using parse_options_complete [of ?c3 "[0, 1] @ fname @ 0 # OCTET @ [0]" opts Map.empty] assms(2)
    by (simp add: rrq_packet_def)
  show ?thesis
    by (simp only: ReadRequest_parse_def e1 e2 e3 e4 prod.case sum.case simp_thms if_False)
qed

lemma ReadRequest_parse_sound:
  assumes "ReadRequest_parse raw = Inr r"
  shows "\<exists>opts. raw = rrq_packet (filename r) opts \<and> wf_str (filename r) \<and> wf_options opts
    \<and> options r = map_of (rev opts)"
proof -
  obtain op c1 where e1: "extract_ushort (ReadCursor_new raw) = (Inr op, c1)" and op: "op = RRQ"
    using assms by (auto simp: ReadRequest_parse_def split: prod.splits sum.splits if_splits)
  obtain fname c2 where e2: "extract_string c1 = (Inr fname, c2)"
    using assms e1 op by (auto simp: ReadRequest_parse_def split: prod.splits sum.splits if_splits)
  obtain c3 m where e3: "extract_string c2 = (Inr OCTET, c3)"
    and e4: "parse_options c3 Map.empty = Inr m" and r: "r = \<lparr>filename = fname, options = m\<rparr>"
    using assms e1 e2 op
    by (auto simp: ReadRequest_parse_def split: prod.splits sum.splits if_splits)
  from e1 have c1: "c1 = \<lparr>datagram = raw, index = 2\<rparr>" and len: "2 \<le> length raw"
    and op2: "from_be_bytes (raw ! 0) (raw ! 1) = RRQ"
    using op by (auto simp: extract_ushort_def ReadCursor_new_def Let_def split: if_splits)
  from len obtain a b rest where "raw = a # b # rest"
    by (auto simp: Suc_le_length_iff numeral_2_eq_2)
  with op2 have raw: "raw = be_bytes RRQ @ drop 2 raw"
    by (simp add: from_be_bytes_eq_iff del: be_bytes_RRQ)
  from extract_string_InrD [OF e2] c1 have f: "wf_str fname" "datagram c2 = raw"
    "drop 2 raw = fname @ 0 # drop (index c2) raw" by (auto simp: wf_str_def)
  from extract_string_InrD [OF e3] f(2) have o: "datagram c3 = raw"
    "drop (index c2) raw = OCTET @ 0 # drop (index c3) raw" by auto
  from parse_options_sound [OF e4] o(1) obtain opts where
    "drop (index c3) raw = option_bytes opts" "wf_options opts" "m = map_of (rev opts)" by auto
  with raw f o(2) r show ?thesis
    by (intro exI [where x = opts]) (simp add: rrq_packet_def)
qed

section \<open>Serialising the acknowledgement\<close>

lemma clean_put_options:
  assumes "clean c pre n" "length (option_bytes opts) < n"
  shows "\<exists>c'. put_options c opts off =
      Some (Inr (if opts = [] then off else length pre + length (option_bytes opts)), c')
    \<and> clean c' (pre @ option_bytes opts) (n - length (option_bytes opts))"
  using assms
proof (induction opts arbitrary: c pre n off)
  case (Cons kv opts)
  obtain k v where kv: "kv = (k, v)" by fastforce
  from Cons.prems kv have n: "length k + length v + length (option_bytes opts) + 2 < n" by simp
  then obtain c1 where p1: "put_string c k = Some (Inr (length pre + length k + 1), c1)"
    and k1: "clean c1 (pre @ k @ [0]) (n - (length k + 1))"
    using clean_put_string [OF Cons.prems(1), of k] by auto
  from n have "length v + 1 < n - (length k + 1)" by simp
  then obtain c2 where p2: "put_string c1 v
      = Some (Inr (length (pre @ k @ [0]) + length v + 1), c2)"
    and k2: "clean c2 (pre @ k @ 0 # v @ [0]) (n - (length k + 1) - (length v + 1))"
    using clean_put_string [OF k1, of v] by auto
  from n have "length (option_bytes opts) < n - (length k + 1) - (length v + 1)" by simp
  from Cons.IH [OF k2 this, of "length (pre @ k @ [0]) + length v + 1"] obtain c3 where
    "put_options c2 opts (length (pre @ k @ [0]) + length v + 1) =
      Some (Inr (if opts = [] then length (pre @ k @ [0]) + length v + 1
        else length (pre @ k @ 0 # v @ [0]) + length (option_bytes opts)), c3)"
    "clean c3 ((pre @ k @ 0 # v @ [0]) @ option_bytes opts)
       (n - (length k + 1) - (length v + 1) - length (option_bytes opts))" by blast
  with p1 p2 kv show ?case
    by (simp add: algebra_simps split: if_splits)
qed simp

lemma OptionsAcknowledge_serialize_zeroed:
  assumes "oack_options oack \<noteq> []" "length (oack_packet (oack_options oack)) < n"
  shows "\<exists>buf'. OptionsAcknowledge_serialize oack (replicate n 0)
      = Some (Inr (length (oack_packet (oack_options oack))), buf')
    \<and> length buf' = n
    \<and> take (length (oack_packet (oack_options oack))) buf' = oack_packet (oack_options oack)"
proof -
  from assms(2) have n: "length (option_bytes (oack_options oack)) + 2 < n"
    by (simp add: oack_packet_def)
  then obtain c1 where p: "put_ushort (WriteCursor_new (replicate n 0)) OACK = (Inr 2, c1)"
    and k: "clean c1 (be_bytes OACK) (n - 2)"
    using clean_put_ushort [OF clean_new [of n], of OACK] by auto
  from n have "length (option_bytes (oack_options oack)) < n - 2" by simp
  from clean_put_options [OF k this, of 0] assms(1) obtain c2 where
    o: "put_options c1 (oack_options oack) 0
      = Some (Inr (length (oack_packet (oack_options oack))), c2)"
    and k2: "clean c2 (oack_packet (oack_options oack))
      (n - 2 - length (option_bytes (oack_options oack)))"
    by (auto simp: oack_packet_def)
  from n have "replicate n (0 :: byte) \<noteq> []" by auto
  with p o k2 n show ?thesis
    by (auto simp: OptionsAcknowledge_serialize_def clean_def oack_packet_def)
qed

text \<open>A peer that reads the option pairs behind the opcode of the acknowledgement gets the
  table that was pushed.\<close>

lemma oack_packet_readable:
  assumes "wf_options opts"
  shows "parse_options \<lparr>datagram = oack_packet opts, index = 2\<rparr> Map.empty = Inr (map_of (rev opts))"
  using parse_options_complete [of "\<lparr>datagram = oack_packet opts, index = 2\<rparr>" "[0, 6]" opts
      Map.empty] assms
  by (simp add: oack_packet_def)

text \<open>The errors of the request parser fit every buffer of the server.\<close>

lemma parse_options_error: "parse_options cursor opts = Inl e \<Longrightarrow> e = bad_format"
proof (induction cursor opts rule: parse_options.induct)
  case (1 cursor opts)
  from "1.prems" show ?case
    by (subst (asm) parse_options.simps) (auto split: prod.splits sum.splits if_splits dest: "1.IH" [OF sym _ sym])
qed

lemma ReadRequest_parse_error_size:
  assumes "ReadRequest_parse raw = Inl e"
  shows "error_size e < 64"
proof -
  have "e \<in> {bad_format, illegal_operation ''Only RRQ is supported'',
      undefined_error ''Can't obtain filename'', undefined_error ''Only octet mode is supported''}"
    using assms
    by (auto simp: ReadRequest_parse_def split: prod.splits sum.splits if_splits dest: parse_options_error)
  then show ?thesis
    by (auto simp: error_size_def undefined_error_def illegal_operation_def)
qed

end
