(* ===== verification/Tftp_Options.thy ===== *)
theory Tftp_Options
  imports Messages
begin

text \<open>
  \<open>src/options/mod.rs\<close>: the TFTP options \<open>blksize\<close>, \<open>timeout\<close>, \<open>tsize\<close> and \<open>windowsize\<close>, read
  from the option table of a request and printed back for the acknowledgement. The three
  options that carry a bounded number obey one contract, the locale \<open>ranged_option\<close>, which is
  interpreted for each of them.
\<close>

section \<open>Definitions\<close>

definition TSIZE :: rstr where "TSIZE = str ''tsize''"
definition TIMEOUT :: rstr where "TIMEOUT = str ''timeout''"
definition BLKSIZE :: rstr where "BLKSIZE = str ''blksize''"
definition WINDOW_SIZE :: rstr where "WINDOW_SIZE = str ''windowsize''"

definition BLOCK_SIZE_BOTTOM_CAP :: usize where "BLOCK_SIZE_BOTTOM_CAP = 8"
definition BLOCK_SIZE_UPPER_CAP :: usize where "BLOCK_SIZE_UPPER_CAP = 65535"
definition ACK_TIMEOUT_BOTTOM_CAP :: usize where "ACK_TIMEOUT_BOTTOM_CAP = 1"
definition ACK_TIMEOUT_UPPER_CAP :: usize where "ACK_TIMEOUT_UPPER_CAP = 255"
definition WINDOW_SIZE_BOTTOM_CAP :: usize where "WINDOW_SIZE_BOTTOM_CAP = 1"
definition WINDOW_SIZE_UPPER_CAP :: usize where "WINDOW_SIZE_UPPER_CAP = 65535"

record Blksize =
  block_size :: usize

definition Blksize_find_in :: "(rstr \<rightharpoonup> rstr) \<Rightarrow> Blksize option" where
  "Blksize_find_in opts =
    (case opts BLKSIZE of
       None \<Rightarrow> None
     | Some block_size_string \<Rightarrow>
        (case parse_usize block_size_string of
           None \<Rightarrow> None
         | Some n \<Rightarrow>
             if BLOCK_SIZE_BOTTOM_CAP \<le> n \<and> n \<le> BLOCK_SIZE_UPPER_CAP
             then Some \<lparr>block_size = n\<rparr> else None))"

definition Blksize_as_key_pair :: "Blksize \<Rightarrow> rstr \<times> rstr" where
  "Blksize_as_key_pair b = (BLKSIZE, usize_to_string (block_size b))"

definition Blksize_get_size :: "Blksize \<Rightarrow> usize" where
  "Blksize_get_size b = block_size b"

definition Blksize_default :: Blksize where
  "Blksize_default = \<lparr>block_size = 512\<rparr>"

record AckTimeout =
  timeout :: usize

definition AckTimeout_default :: AckTimeout where
  "AckTimeout_default = \<lparr>timeout = 5\<rparr>"

definition AckTimeout_find_in :: "(rstr \<rightharpoonup> rstr) \<Rightarrow> AckTimeout option" where
  "AckTimeout_find_in opts =
    (case opts TIMEOUT of
       None \<Rightarrow> None
     | Some timeout_string \<Rightarrow>
        (case parse_usize timeout_string of
           None \<Rightarrow> None
         | Some n \<Rightarrow>
             if ACK_TIMEOUT_BOTTOM_CAP \<le> n \<and> n \<le> ACK_TIMEOUT_UPPER_CAP
             then Some \<lparr>timeout = n\<rparr> else None))"

definition AckTimeout_as_key_pair :: "AckTimeout \<Rightarrow> rstr \<times> rstr" where
  "AckTimeout_as_key_pair t = (TIMEOUT, usize_to_string (timeout t))"

definition AckTimeout_display :: "AckTimeout \<Rightarrow> rstr" where
  "AckTimeout_display t = str ''[timeout: '' @ usize_to_string (timeout t) @ str '']''"

record TSize =
  file_size :: usize

definition TSize_is_requested :: "(rstr \<rightharpoonup> rstr) \<Rightarrow> bool" where
  "TSize_is_requested opts \<longleftrightarrow> opts TSIZE \<noteq> None"

text \<open>\<open>TSize::obtain\<close> works on any \<open>OpenedFile\<close>, passed as its \<open>get_size\<close>.\<close>

definition TSize_obtain :: "('f \<Rightarrow> (io_error + usize) \<times> 'f) \<Rightarrow> 'f \<Rightarrow> (io_error + TSize) \<times> 'f" where
  "TSize_obtain get_size opened_file =
    (case get_size opened_file of
       (Inl e, f) \<Rightarrow> (Inl e, f)
     | (Inr n, f) \<Rightarrow> (Inr \<lparr>file_size = n\<rparr>, f))"

definition TSize_as_key_pair :: "TSize \<Rightarrow> rstr \<times> rstr" where
  "TSize_as_key_pair t = (TSIZE, usize_to_string (file_size t))"

datatype WindowSize = WindowSize (window_size_0: usize)

definition WindowSize_display :: "WindowSize \<Rightarrow> rstr" where
  "WindowSize_display w = str ''[blocks_count: '' @ usize_to_string (window_size_0 w) @ str '']''"

definition WindowSize_find_in :: "(rstr \<rightharpoonup> rstr) \<Rightarrow> WindowSize option" where
  "WindowSize_find_in opts =
    (case opts WINDOW_SIZE of
       None \<Rightarrow> None
     | Some window_size \<Rightarrow>
        (case parse_usize window_size of
           None \<Rightarrow> None
         | Some n \<Rightarrow>
             if WINDOW_SIZE_BOTTOM_CAP \<le> n \<and> n \<le> WINDOW_SIZE_UPPER_CAP
             then Some (WindowSize n) else None))"

definition WindowSize_get_size :: "WindowSize \<Rightarrow> usize" where
  "WindowSize_get_size w = window_size_0 w"

definition WindowSize_as_key_pair :: "WindowSize \<Rightarrow> rstr \<times> rstr" where
  "WindowSize_as_key_pair w = (WINDOW_SIZE, usize_to_string (window_size_0 w))"

definition WindowSize_default :: WindowSize where
  "WindowSize_default = WindowSize 1"

section \<open>The contract of a ranged option\<close>

locale ranged_option =
  fixes name :: rstr
    and lo hi :: nat
    and find_in :: "(rstr \<rightharpoonup> rstr) \<Rightarrow> 'o option"
    and as_key_pair :: "'o \<Rightarrow> rstr \<times> rstr"
    and val :: "'o \<Rightarrow> nat"
  assumes find_in_iff:
      "find_in opts = Some x \<longleftrightarrow>
        (\<exists>s. opts name = Some s \<and> parse_usize s = Some (val x)) \<and> lo \<le> val x \<and> val x \<le> hi"
    and key_pair: "as_key_pair x = (name, usize_to_string (val x))"
    and hi_fits: "hi < usize_modulus"
    and val_onto: "\<exists>x. val x = n"
begin

lemma found_in_range: "find_in opts = Some x \<Longrightarrow> lo \<le> val x \<and> val x \<le> hi"
  by (simp add: find_in_iff)

lemma not_found_iff:
  "find_in opts = None \<longleftrightarrow>
    (\<forall>s n. opts name = Some s \<and> parse_usize s = Some n \<longrightarrow> n < lo \<or> hi < n)"
proof -
  have "find_in opts \<noteq> None \<longleftrightarrow> (\<exists>x. find_in opts = Some x)" by auto
  also have "\<dots> \<longleftrightarrow> (\<exists>s n. opts name = Some s \<and> parse_usize s = Some n \<and> lo \<le> n \<and> n \<le> hi)"
    by (auto simp: find_in_iff) (metis val_onto)
  finally show ?thesis by (meson not_less)
qed

text \<open>The pair echoed in the acknowledgement denotes the value that was accepted.\<close>

lemma echo_accepted:
  assumes "find_in opts = Some x" "acked name = Some (snd (as_key_pair x))"
  shows "find_in acked = Some x"
proof -
  from found_in_range [OF assms(1)] hi_fits have "val x < usize_modulus" by simp
  then have "parse_usize (snd (as_key_pair x)) = Some (val x)"
    by (simp add: key_pair parse_usize_to_string)
  with assms(2) found_in_range [OF assms(1)] show ?thesis
    by (simp add: find_in_iff)
qed

lemma echo_wf: "wf_str (snd (as_key_pair x))"
proof -
  have "b < 0x80 \<and> b \<noteq> 0" if "is_digit b" for b
    using that by (auto simp: is_digit_def word_less_nat_alt word_le_nat_alt)
  then show ?thesis
    unfolding wf_str_def key_pair snd_conv
    using set_usize_to_string utf8_valid_ascii by blast
qed

end

lemma usize_modulus_big: "65535 < usize_modulus"
  by (simp add: usize_modulus_def)

interpretation blksize: ranged_option BLKSIZE BLOCK_SIZE_BOTTOM_CAP BLOCK_SIZE_UPPER_CAP
    Blksize_find_in Blksize_as_key_pair block_size
  by unfold_locales
    (auto simp: Blksize_find_in_def Blksize_as_key_pair_def BLOCK_SIZE_UPPER_CAP_def
      usize_modulus_big split: option.splits intro: exI [where x = "Blksize.make _"]
      simp: Blksize.make_def)

interpretation ack_timeout: ranged_option TIMEOUT ACK_TIMEOUT_BOTTOM_CAP ACK_TIMEOUT_UPPER_CAP
    AckTimeout_find_in AckTimeout_as_key_pair timeout
  by unfold_locales
    (auto simp: AckTimeout_find_in_def AckTimeout_as_key_pair_def ACK_TIMEOUT_UPPER_CAP_def
      usize_modulus_def split: option.splits intro: exI [where x = "AckTimeout.make _"]
      simp: AckTimeout.make_def)

interpretation window_size: ranged_option WINDOW_SIZE WINDOW_SIZE_BOTTOM_CAP WINDOW_SIZE_UPPER_CAP
    WindowSize_find_in WindowSize_as_key_pair window_size_0
  by unfold_locales
    (auto simp: WindowSize_find_in_def WindowSize_as_key_pair_def WINDOW_SIZE_UPPER_CAP_def
      usize_modulus_big split: option.splits intro: WindowSize.sel WindowSize.collapse)

lemma option_names_distinct: "distinct [TSIZE, TIMEOUT, BLKSIZE, WINDOW_SIZE]"
  by (simp add: TSIZE_def TIMEOUT_def BLKSIZE_def WINDOW_SIZE_def)

end
