(* ===== verification/Ip_Addr.thy ===== *)
theory Ip_Addr
  imports Prelude
begin

text \<open>
  What the sources use of \<open>std::net\<close>: addresses, their printed form (\<open>IpAddr::to_string\<close>, which names a
  peer's directory and configuration) and its parser (\<open>IpAddr::from_str\<close>, by which the server maps a changed
  configuration file back to the peer). A reader of the parser takes the remaining input and
  returns the value with what is left, or \<open>None\<close> without consuming anything.
\<close>

datatype IpAddr =
    V4 byte byte byte byte
  | V6 u16 u16 u16 u16 u16 u16 u16 u16

type_synonym SocketAddr = "IpAddr \<times> u16"

section \<open>Printing\<close>

definition colon :: byte where "colon = 58"

definition ipv4_string :: "byte \<Rightarrow> byte \<Rightarrow> byte \<Rightarrow> byte \<Rightarrow> rstr" where
  "ipv4_string a b c d = join_with [dot] (map (\<lambda>octet. usize_to_string (unat octet)) [a, b, c, d])"

text \<open>The first longest run of zero segments, as start and length; \<open>i\<close> is the index of the next
  segment.\<close>

fun zero_span :: "nat \<Rightarrow> nat \<times> nat \<Rightarrow> nat \<times> nat \<Rightarrow> u16 list \<Rightarrow> nat \<times> nat" where
  "zero_span i cur longest [] = longest"
| "zero_span i cur longest (s # ss) =
    (if s = 0
     then let start = (if snd cur = 0 then i else fst cur);
              cur = (start, snd cur + 1);
              longest = (if snd longest < snd cur then cur else longest)
          in zero_span (i + 1) cur longest ss
     else zero_span (i + 1) (0, 0) longest ss)"

definition segments_string :: "u16 list \<Rightarrow> rstr" where
  "segments_string ss = join_with [colon] (map (\<lambda>s. hex_string (unat s)) ss)"

definition ipv6_string :: "u16 list \<Rightarrow> rstr" where
  "ipv6_string ss =
    (if take 6 ss = [0, 0, 0, 0, 0, 0xFFFF]
     then str ''::ffff:'' @ (case concat (map be_bytes (drop 6 ss)) of
            [a, b, c, d] \<Rightarrow> ipv4_string a b c d | _ \<Rightarrow> [])
     else case zero_span 0 (0, 0) (0, 0) ss of
       (start, len) \<Rightarrow>
         if 1 < len
         then segments_string (take start ss) @ [colon, colon] @ segments_string (drop (start + len) ss)
         else segments_string ss)"

fun IpAddr_to_string :: "IpAddr \<Rightarrow> rstr" where
  "IpAddr_to_string (V4 a b c d) = ipv4_string a b c d"
| "IpAddr_to_string (V6 a b c d e f g h) = ipv6_string [a, b, c, d, e, f, g, h]"

section \<open>Parsing\<close>

type_synonym 'a reader = "rstr \<Rightarrow> ('a \<times> rstr) option"

definition to_digit :: "nat \<Rightarrow> byte \<Rightarrow> nat option" where
  "to_digit radix b =
    (let d = (if 48 \<le> b \<and> b \<le> 57 then unat b - 48
              else if 97 \<le> b \<and> b \<le> 122 then unat b - 87
              else if 65 \<le> b \<and> b \<le> 90 then unat b - 55
              else radix)
     in if d < radix then Some d else None)"

fun read_digits :: "nat \<Rightarrow> nat \<Rightarrow> nat \<Rightarrow> nat \<Rightarrow> nat \<Rightarrow> rstr \<Rightarrow> (nat \<times> nat \<times> rstr) option" where
  "read_digits radix limit max_digits acc count [] = Some (acc, count, [])"
| "read_digits radix limit max_digits acc count (b # s) =
    (case to_digit radix b of
       None \<Rightarrow> Some (acc, count, b # s)
     | Some d \<Rightarrow>
        if limit \<le> acc * radix + d \<or> max_digits < count + 1 then None
        else read_digits radix limit max_digits (acc * radix + d) (count + 1) s)"

definition read_number :: "nat \<Rightarrow> nat \<Rightarrow> nat \<Rightarrow> bool \<Rightarrow> nat reader" where
  "read_number radix limit max_digits allow_zero_prefix s = do {
     (n, count, rest) \<leftarrow> read_digits radix limit max_digits 0 0 s;
     if count = 0 then None
     else if \<not> allow_zero_prefix \<and> (s \<noteq> [] \<and> hd s = 48) \<and> 1 < count then None
     else Some (n, rest)
   }"

definition read_given_char :: "byte \<Rightarrow> unit reader" where
  "read_given_char c s = (case s of b # r \<Rightarrow> if b = c then Some ((), r) else None | [] \<Rightarrow> None)"

definition read_separator :: "byte \<Rightarrow> nat \<Rightarrow> 'a reader \<Rightarrow> 'a reader" where
  "read_separator sep i inner s =
    (if 0 < i then do { (_, s) \<leftarrow> read_given_char sep s; inner s } else inner s)"

definition read_octet :: "nat \<Rightarrow> byte reader" where
  "read_octet i s = do {
     (n, s) \<leftarrow> read_separator dot i (read_number 10 256 3 False) s;
     Some (of_nat n, s)
   }"

definition read_ipv4_addr :: "(byte \<times> byte \<times> byte \<times> byte) reader" where
  "read_ipv4_addr s = do {
     (a, s) \<leftarrow> read_octet 0 s;
     (b, s) \<leftarrow> read_octet 1 s;
     (c, s) \<leftarrow> read_octet 2 s;
     (d, s) \<leftarrow> read_octet 3 s;
     Some ((a, b, c, d), s)
   }"

text \<open>\<open>read_groups\<close>: up to \<open>limit\<close> groups from group \<open>i\<close> on, whether they end in an embedded IPv4
  address, and the rest of the input; \<open>k\<close> counts the groups left.\<close>

fun read_groups :: "nat \<Rightarrow> nat \<Rightarrow> rstr \<Rightarrow> u16 list \<times> bool \<times> rstr" where
  "read_groups i 0 s = ([], False, s)"
| "read_groups i (Suc k) s =
    (case (if 0 < k then read_separator colon i read_ipv4_addr s else None) of
       Some ((a, b, c, d), s) \<Rightarrow> ([from_be_bytes a b, from_be_bytes c d], True, s)
     | None \<Rightarrow>
        (case read_separator colon i (read_number 16 65536 4 True) s of
           None \<Rightarrow> ([], False, s)
         | Some (g, s) \<Rightarrow>
            (case read_groups (i + 1) k s of (gs, v4, s) \<Rightarrow> (of_nat g # gs, v4, s))))"

definition read_ipv6_addr :: "u16 list reader" where
  "read_ipv6_addr s =
    (case read_groups 0 8 s of
       (head, head_ipv4, s) \<Rightarrow>
         if length head = 8 then Some (head, s)
         else if head_ipv4 then None
         else do {
           (_, s) \<leftarrow> read_given_char colon s;
           (_, s) \<leftarrow> read_given_char colon s;
           let (tail, _, s) = read_groups 0 (8 - (length head + 1)) s;
           Some (head @ replicate (8 - length head - length tail) 0 @ tail, s)
         })"

fun ipv6_of_groups :: "u16 list \<Rightarrow> IpAddr option" where
  "ipv6_of_groups [a, b, c, d, e, f, g, h] = Some (V6 a b c d e f g h)"
| "ipv6_of_groups _ = None"

definition IpAddr_from_str :: "rstr \<Rightarrow> IpAddr option" where
  "IpAddr_from_str s =
    (case read_ipv4_addr s of
       Some ((a, b, c, d), rest) \<Rightarrow> if rest = [] then Some (V4 a b c d) else None
     | None \<Rightarrow>
        (case read_ipv6_addr s of
           Some (groups, rest) \<Rightarrow> if rest = [] then ipv6_of_groups groups else None
         | None \<Rightarrow> None))"

section \<open>IPv4 addresses read back\<close>

lemma to_digit_digit_byte: "d < 10 \<Longrightarrow> to_digit 10 (digit_byte d) = Some d"
  using is_digit_digit_byte [of d]
  by (simp add: to_digit_def is_digit_def unat_digit_byte)

lemma digit_byte_48: "d < 10 \<Longrightarrow> digit_byte d = 48 \<longleftrightarrow> d = 0"
  using unat_digit_byte [of d] by (auto simp: digit_byte_def)

lemma read_digits_stop:
  "s = [] \<or> to_digit radix (hd s) = None \<Longrightarrow> read_digits radix limit max_digits acc count s = Some (acc, count, s)"
  by (cases s) auto

lemma decimal_octet:
  assumes "n < 256"
  shows "usize_to_string n =
    (if n < 10 then [digit_byte n]
     else if n < 100 then [digit_byte (n div 10), digit_byte (n mod 10)]
     else [digit_byte (n div 100), digit_byte (n div 10 mod 10), digit_byte (n mod 10)])"
proof -
  have "n div 10 div 10 = n div 100" by (simp add: div_mult2_eq [symmetric])
  with assms show ?thesis
    by (auto simp: usize_to_string.simps [of n] usize_to_string.simps [of "n div 10"]
        usize_to_string.simps [of "n div 100"])
qed

lemma read_number_octet:
  assumes "n < 256" "s = [] \<or> to_digit 10 (hd s) = None"
  shows "read_number 10 256 3 False (usize_to_string n @ s) = Some (n, s)"
proof -
  have d: "n div 10 < 10" if "n < 100" using that by simp
  have e: "n div 100 < 10" using assms(1) by simp
  have f: "n div 100 * 10 + n div 10 mod 10 = n div 10"
    using div_mult_mod_eq [of "n div 10" 10] by (simp add: div_mult2_eq [symmetric])
  have g: "n div 10 * 10 + n mod 10 = n" by simp
  have h: "0 < n div 100" "n div 10 < 256" if "\<not> n < 100" using that assms(1) by (auto simp: div_greater_zero_iff)
  consider "n < 10" | "\<not> n < 10" "n < 100" | "\<not> n < 100" by blast
  then show ?thesis
    using assms d e f g h
    by cases (simp_all add: read_number_def decimal_octet to_digit_digit_byte digit_byte_48
        read_digits_stop div_greater_zero_iff)
qed

lemma read_octet_string:
  assumes "s = [] \<or> to_digit 10 (hd s) = None" "pre = (if i = 0 then [] else [dot])"
  shows "read_octet i (pre @ usize_to_string (unat a) @ s) = Some (a, s)"
proof -
  have "unat a < 256" using unsigned_less [of a] by simp
  with assms read_number_octet [of "unat a" s] show ?thesis
    by (simp add: read_octet_def read_separator_def read_given_char_def)
qed

lemma to_digit_dot: "to_digit 10 dot = None"
  by (simp add: to_digit_def dot_def)

lemma read_ipv4_string: "read_ipv4_addr (ipv4_string a b c d) = Some ((a, b, c, d), [])"
proof -
  let ?u = "\<lambda>x :: byte. usize_to_string (unat x)"
  show ?thesis
    using read_octet_string [of "dot # ?u b @ dot # ?u c @ dot # ?u d" "[]" 0 a]
      read_octet_string [of "dot # ?u c @ dot # ?u d" "[dot]" 1 b]
      read_octet_string [of "dot # ?u d" "[dot]" 2 c] read_octet_string [of "[]" "[dot]" 3 d]
    by (simp add: ipv4_string_def read_ipv4_addr_def to_digit_dot)
qed

section \<open>IPv6 addresses read back\<close>

lemma to_digit_hex_digit: "d < 16 \<Longrightarrow> to_digit 16 (hex_digit d) = Some d"
  unfolding to_digit_def hex_digit_def
  by (simp add: word_le_nat_alt unat_of_nat Let_def)

lemma hex_segment:
  assumes "n < 65536"
  shows "hex_string n =
    (if n < 16 then [hex_digit n]
     else if n < 256 then [hex_digit (n div 16), hex_digit (n mod 16)]
     else if n < 4096 then [hex_digit (n div 256), hex_digit (n div 16 mod 16), hex_digit (n mod 16)]
     else [hex_digit (n div 4096), hex_digit (n div 256 mod 16), hex_digit (n div 16 mod 16), hex_digit (n mod 16)])"
proof -
  have "n div 16 div 16 = n div 256" "n div 256 div 16 = n div 4096" by (simp_all add: div_mult2_eq [symmetric])
  with assms show ?thesis
    by (auto simp: hex_string.simps [of n] hex_string.simps [of "n div 16"] hex_string.simps [of "n div 256"]
        hex_string.simps [of "n div 4096"])
qed

lemma read_number_segment:
  assumes "n < 65536" "s = [] \<or> to_digit 16 (hd s) = None"
  shows "read_number 16 65536 4 True (hex_string n @ s) = Some (n, s)"
proof -
  have eq: "n div 16 * 16 + n mod 16 = n" "n div 256 * 16 + n div 16 mod 16 = n div 16"
    "n div 4096 * 16 + n div 256 mod 16 = n div 256"
    using div_mult_mod_eq [of "n div 16" 16] div_mult_mod_eq [of "n div 256" 16] by (simp_all add: div_mult2_eq [symmetric])
  have bound: "n div 16 < 65536" "n div 256 < 65536" "n div 4096 < 16" using assms(1) by simp_all
  consider "n < 16" | "\<not> n < 16" "n < 256" | "\<not> n < 256" "n < 4096" | "\<not> n < 4096" by blast
  then show ?thesis
    using assms bound eq
    by cases (simp_all add: read_number_def hex_segment to_digit_hex_digit read_digits_stop)
qed

lemma read_number_colon:
  "radix \<le> 16 \<Longrightarrow> s = [] \<or> hd s = colon \<Longrightarrow> read_number radix limit max_digits zp s = None"
  by (cases s) (auto simp: read_number_def to_digit_def colon_def)

lemma read_digits_suffix:
  "read_digits radix limit max_digits acc count s = Some (n, k, s') \<Longrightarrow> set s' \<subseteq> set s"
  by (induction radix limit max_digits acc count s rule: read_digits.induct) (auto split: option.splits if_splits)

lemma read_number_suffix: "read_number radix limit max_digits zp s = Some (n, s') \<Longrightarrow> set s' \<subseteq> set s"
  by (auto simp: read_number_def split: bind_splits if_splits dest: read_digits_suffix [THEN subsetD])

lemma no_ipv4_without_dot:
  assumes "dot \<notin> set s"
  shows "read_ipv4_addr s = None"
proof -
  have "read_octet 1 s' = None" if "set s' \<subseteq> set s" for s'
    using that assms by (auto simp: read_octet_def read_separator_def read_given_char_def split: list.split)
  moreover have "set s' \<subseteq> set s" if "read_octet 0 s = Some (a, s')" for a s'
    using that by (auto simp: read_octet_def read_separator_def split: bind_splits dest: read_number_suffix [THEN subsetD])
  ultimately show ?thesis by (auto simp: read_ipv4_addr_def split: bind_split)
qed

lemma hex_digit_plain:
  assumes "d < 16"
  shows "hex_digit d \<noteq> dot" "hex_digit d \<noteq> colon"
  using to_digit_hex_digit [OF assms] by (auto simp: to_digit_def dot_def colon_def)

lemma dot_in_hex_string: "dot \<notin> set (hex_string n)"
proof (induction n rule: hex_string.induct)
  case (1 n)
  then show ?case using hex_digit_plain(1) [of n] hex_digit_plain(1) [of "n mod 16"] by (auto simp: hex_string.simps [of n])
qed

lemma segments_string_Nil [simp]: "segments_string [] = []"
  by (simp add: segments_string_def)

lemma segments_string_Cons:
  "segments_string (x # ss) = hex_string (unat x) @ (if ss = [] then [] else colon # segments_string ss)"
  by (cases ss) (simp_all add: segments_string_def)

lemma dot_in_segments_string: "dot \<notin> set (segments_string ss)"
  by (induction ss) (simp_all add: segments_string_Cons dot_in_hex_string, simp add: dot_def colon_def)

lemma to_digit_colon: "to_digit 16 colon = None"
  by (simp add: to_digit_def colon_def)

text \<open>Where the groups end: at the end of the input or before a double colon.\<close>

lemma read_groups_end:
  assumes "s = [] \<or> (\<exists>r. s = colon # colon # r)" "dot \<notin> set s"
  shows "read_groups i k s = ([], False, s)"
proof (cases k)
  case (Suc n)
  have "read_separator colon i read_ipv4_addr s = None"
    using assms no_ipv4_without_dot [of s] no_ipv4_without_dot [of "tl s"]
    by (auto simp: read_separator_def read_given_char_def)
  moreover have "read_separator colon i (read_number 16 65536 4 True) s = None"
    using assms(1) by (auto simp: read_separator_def read_given_char_def read_number_colon)
  ultimately show ?thesis using Suc by simp
qed simp

lemma read_groups_segments:
  assumes "length ss \<le> k" "s = [] \<or> (\<exists>r. s = colon # colon # r)" "dot \<notin> set s"
  shows "read_groups i k ((if i = 0 \<or> ss = [] then [] else [colon]) @ segments_string ss @ s) = (ss, False, s)"
  using assms(1)
proof (induction ss arbitrary: i k)
  case Nil
  then show ?case using read_groups_end [OF assms(2,3)] by simp
next
  case (Cons x ss)
  then obtain n where k: "k = Suc n" "length ss \<le> n" by (cases k) auto
  let ?rest = "(if ss = [] then [] else [colon]) @ segments_string ss @ s"
  let ?in = "(if i = 0 then [] else [colon]) @ hex_string (unat x) @ ?rest"
  have "dot \<notin> set (hex_string (unat x) @ ?rest)"
    using assms(3) dot_in_hex_string dot_in_segments_string by (auto simp: dot_def colon_def)
  then have v4: "read_separator colon i read_ipv4_addr ?in = None"
    using no_ipv4_without_dot by (auto simp: read_separator_def read_given_char_def)
  have "?rest = [] \<or> to_digit 16 (hd ?rest) = None" using assms(2) to_digit_colon by auto
  moreover have "unat x < 65536" using unsigned_less [of x] by simp
  ultimately have "read_separator colon i (read_number 16 65536 4 True) ?in = Some (unat x, ?rest)"
    using read_number_segment [of "unat x" ?rest] by (auto simp: read_separator_def read_given_char_def)
  moreover have "read_groups (i + 1) n ?rest = (ss, False, s)" using Cons.IH [OF k(2), of "i + 1"] by simp
  ultimately have "read_groups i k ?in = (x # ss, False, s)" using v4 k by (cases ss) auto
  then show ?case by (cases "ss = []"; cases "i = 0") (simp_all add: segments_string_Cons)
qed

text \<open>The run of zeros that is printed as a double colon.\<close>

definition zero_run :: "u16 list \<Rightarrow> nat \<times> nat \<Rightarrow> bool" where
  "zero_run ss r \<longleftrightarrow> fst r + snd r \<le> length ss \<and> (\<forall>j < snd r. ss ! (fst r + j) = 0)"

lemma zero_run_append: "zero_run ps r \<Longrightarrow> zero_run (ps @ ss) r"
  by (auto simp: zero_run_def nth_append)

lemma zero_span_run:
  assumes "zero_run ps longest" "zero_run ps cur" "snd cur = 0 \<or> fst cur + snd cur = length ps"
  shows "zero_run (ps @ ss) (zero_span (length ps) cur longest ss)"
  using assms
proof (induction ss arbitrary: ps cur longest)
  case (Cons s ss)
  note longest = zero_run_append [OF Cons.prems(1), of "[s]"]
  show ?case
  proof (cases "s = 0")
    case True
    define c where "c = (if snd cur = 0 then length ps else fst cur, snd cur + 1)"
    have c: "zero_run (ps @ [s]) c" "fst c + snd c = length (ps @ [s])"
      using Cons.prems(2,3) True by (auto simp: c_def zero_run_def nth_append less_Suc_eq)
    have "zero_run (ps @ [s]) (if snd longest < snd c then c else longest)" using longest c(1) by simp
    moreover have "zero_span (length ps) cur longest (s # ss)
        = zero_span (length (ps @ [s])) c (if snd longest < snd c then c else longest) ss"
      using True by (simp add: c_def Let_def)
    ultimately show ?thesis using Cons.IH [of "ps @ [s]" _ c] c by simp
  next
    case False
    have "zero_run (ps @ [s]) (0, 0)" by (simp add: zero_run_def)
    from Cons.IH [OF longest this] False show ?thesis by simp
  qed
qed (simp add: zero_run_def)

lemma zero_run_cut:
  assumes "zero_run ss (start, len)"
  shows "take start ss @ replicate len 0 @ drop (start + len) ss = ss"
proof -
  have "take len (drop start ss) = replicate len 0"
    using assms by (intro nth_equalityI) (auto simp: zero_run_def)
  then show ?thesis by (metis append_take_drop_id drop_drop add.commute)
qed

lemma read_ipv6_segments:
  assumes "length ss = 8" "take 6 ss \<noteq> [0, 0, 0, 0, 0, 0xFFFF]"
  shows "read_ipv6_addr (ipv6_string ss) = Some (ss, []) \<and> dot \<notin> set (ipv6_string ss)"
proof -
  obtain start len where span: "zero_span 0 (0, 0) (0, 0) ss = (start, len)" by fastforce
  have run: "zero_run ss (start, len)"
    using zero_span_run [of "[]" "(0, 0)" "(0, 0)" ss] span by (simp add: zero_run_def)
  show ?thesis
  proof (cases "1 < len")
    case True
    let ?tail = "segments_string (drop (start + len) ss)" and ?s = "segments_string (take start ss)"
    have len: "start + len \<le> 8" using run assms(1) by (simp add: zero_run_def)
    have nodot: "dot \<notin> set (colon # colon # ?tail)" using dot_in_segments_string by (auto simp: dot_def colon_def)
    have "read_groups 0 8 (?s @ colon # colon # ?tail) = (take start ss, False, colon # colon # ?tail)"
      using read_groups_segments [of "take start ss" 8 "colon # colon # ?tail" 0] nodot assms(1) by simp
    moreover have "read_groups 0 (8 - (start + 1)) ?tail = (drop (start + len) ss, False, [])"
      using read_groups_segments [of "drop (start + len) ss" "8 - (start + 1)" "[]" 0] True assms(1) by simp
    ultimately have "read_ipv6_addr (?s @ colon # colon # ?tail) = Some (ss, [])"
      using True len assms(1) zero_run_cut [OF run] by (simp add: read_ipv6_addr_def read_given_char_def)
    with True span assms(2) nodot dot_in_segments_string show ?thesis by (simp add: ipv6_string_def)
  next
    case False
    have "read_groups 0 8 (segments_string ss) = (ss, False, [])"
      using read_groups_segments [of ss 8 "[]" 0] assms(1) by simp
    with False span assms dot_in_segments_string show ?thesis by (simp add: ipv6_string_def read_ipv6_addr_def)
  qed
qed

text \<open>An address of IPv4 inside IPv6 is printed with its last four bytes as an IPv4 address.\<close>

lemma no_ipv4_at:
  assumes "s = [] \<or> to_digit 10 (hd s) = None"
  shows "read_ipv4_addr s = None"
  using read_digits_stop [OF assms] by (simp add: read_ipv4_addr_def read_octet_def read_separator_def read_number_def)

lemma read_groups_step:
  "k = Suc n \<Longrightarrow> read_groups i k s =
    (case (if 0 < n then read_separator colon i read_ipv4_addr s else None) of
       Some ((a, b, c, d), s) \<Rightarrow> ([from_be_bytes a b, from_be_bytes c d], True, s)
     | None \<Rightarrow>
        (case read_separator colon i (read_number 16 65536 4 True) s of
           None \<Rightarrow> ([], False, s)
         | Some (g, s) \<Rightarrow> (case read_groups (i + 1) n s of (gs, v4, s) \<Rightarrow> (of_nat g # gs, v4, s))))"
  by (simp only: read_groups.simps)

lemma read_ipv6_mapped: "read_ipv6_addr (str ''::ffff:'' @ ipv4_string a b c d)
    = Some ([0, 0, 0, 0, 0, 0xFFFF, from_be_bytes a b, from_be_bytes c d], [])"
proof -
  let ?v4 = "ipv4_string a b c d"
  have prefix: "str ''::ffff:'' @ ?v4 = colon # colon # hex_string 65535 @ colon # ?v4"
    by (simp add: hex_segment hex_digit_def str_def colon_def)
  have head: "read_groups 0 8 (colon # s) = ([], False, colon # s)" for s
    using no_ipv4_at [of "colon # s"] read_number_colon [of 16 "colon # s"]
    by (simp add: read_groups_step [of 8 7] read_separator_def to_digit_def colon_def)
  have "read_groups 1 6 (colon # ?v4) = ([from_be_bytes a b, from_be_bytes c d], True, [])"
    using read_ipv4_string [of a b c d] by (simp add: read_groups_step [of 6 5] read_separator_def read_given_char_def)
  moreover have "read_number 16 65536 4 True (hex_string 65535 @ colon # ?v4) = Some (65535, colon # ?v4)"
    using to_digit_colon by (intro read_number_segment) simp_all
  moreover have "read_ipv4_addr (hex_string 65535 @ colon # ?v4) = None"
    by (rule no_ipv4_at) (simp add: hex_segment hex_digit_def to_digit_def)
  ultimately have "read_groups 0 7 (hex_string 65535 @ colon # ?v4) = ([65535, from_be_bytes a b, from_be_bytes c d], True, [])"
    by (simp add: read_groups_step [of 7 6] read_separator_def)
  moreover have "replicate 5 0 = [0, 0, 0, 0, 0 :: u16]" by (simp add: eval_nat_numeral)
  ultimately show ?thesis unfolding prefix by (simp add: head read_ipv6_addr_def read_given_char_def)
qed

lemma IpAddr_roundtrip: "IpAddr_from_str (IpAddr_to_string ip) = Some ip"
proof (cases ip)
  case (V4 a b c d)
  then show ?thesis using read_ipv4_string [of a b c d] by (simp add: IpAddr_from_str_def)
next
  case (V6 a b c d e f g h)
  let ?ss = "[a, b, c, d, e, f, g, h]"
  show ?thesis
  proof (cases "take 6 ?ss = [0, 0, 0, 0, 0, 0xFFFF]")
    case True
    then have "IpAddr_to_string ip = str ''::ffff:'' @ ipv4_string (ucast (drop_bit 8 g)) (ucast g) (ucast (drop_bit 8 h)) (ucast h)"
      using V6 by (simp add: ipv6_string_def be_bytes_def)
    moreover have "read_ipv4_addr (str ''::ffff:'' @ s) = None" for s
      by (rule no_ipv4_at) (simp add: str_def to_digit_def)
    ultimately show ?thesis using V6 True by (simp add: IpAddr_from_str_def read_ipv6_mapped)
  next
    case False
    then show ?thesis
      using V6 read_ipv6_segments [of ?ss] no_ipv4_without_dot [of "ipv6_string ?ss"] by (simp add: IpAddr_from_str_def)
  qed
qed

end
