(* ===== verification/Datagram_Stream.thy ===== *)
theory Datagram_Stream
  imports Tftp_Options Ip_Addr
begin

text \<open>
  \<open>src/datagram_stream.rs\<close> and \<open>AckTimeout::timeout\<close> of \<open>src/options/mod.rs\<close>. A stream is a UDP
  socket that talks to one peer. The socket's surroundings are explicit: \<open>inbox\<close> lists what
  happens at the socket in order (a datagram arrives from some address, the receive call
  fails, or the timer that guards the receive call elapses), \<open>send_results\<close> lists what the next
  \<open>send_to\<close> calls return (a call beyond the list sends everything), and \<open>outbox\<close> collects the
  datagrams that the socket accepted. Once the inbox is used up nothing arrives any more, so a guarded receive ends by
  its timer. \<open>waited\<close> adds up the seconds of the timers that elapsed. The \<open>display\<close> string of the source is computed where it is
  asked for.
\<close>

section \<open>Definitions\<close>

datatype net_event =
    Arrives SocketAddr bytes
  | RecvFails io_error
  | Elapses

record DatagramStream =
  peer_address :: SocketAddr
  inbox :: "net_event list"
  send_results :: "(io_error + usize) list"
  outbox :: "bytes list"
  waited :: nat

definition DatagramStream_new ::
    "net_event list \<Rightarrow> (io_error + usize) list \<Rightarrow> SocketAddr \<Rightarrow> DatagramStream" where
  "DatagramStream_new events results peer =
    \<lparr>peer_address = peer, inbox = events, send_results = results, outbox = [], waited = 0\<rparr>"

text \<open>The two ends as diagnostics name them; \<open>local_address\<close> is the address the socket is bound to.\<close>

definition DatagramStream_display :: "SocketAddr \<Rightarrow> DatagramStream \<Rightarrow> rstr" where
  "DatagramStream_display local_address st =
    str ''<'' @ IpAddr_to_string (fst local_address) @ [colon] @ usize_to_string (unat (snd local_address)) @ str '' <=> ''
    @ IpAddr_to_string (fst (peer_address st)) @ [colon] @ usize_to_string (unat (snd (peer_address st))) @ str ''>''"

definition send_to :: "DatagramStream \<Rightarrow> bytes \<Rightarrow> (io_error + usize) \<times> DatagramStream" where
  "send_to st d =
    (case send_results st of
       [] \<Rightarrow> (Inr (length d), st\<lparr>outbox := outbox st @ [d]\<rparr>)
     | Inl e # rs \<Rightarrow> (Inl e, st\<lparr>send_results := rs\<rparr>)
     | Inr n # rs \<Rightarrow> (Inr n, st\<lparr>send_results := rs, outbox := outbox st @ [d]\<rparr>))"

definition stream_send :: "DatagramStream \<Rightarrow> bytes \<Rightarrow> (io_error + unit) \<times> DatagramStream" where
  "stream_send st buf =
    (case send_to st buf of
       (Inr sent, st) \<Rightarrow>
         if sent \<noteq> length buf then (Inl (io_kind ConnectionReset), st) else (Inr (), st)
     | (Inl error, st) \<Rightarrow> (Inl error, st))"

text \<open>\<open>recv_from\<close> fills the front of the buffer and drops what does not fit.\<close>

definition recv_into :: "bytes \<Rightarrow> bytes \<Rightarrow> bytes" where
  "recv_into buf d = take (length buf) d @ drop (length d) buf"

text \<open>\<open>DatagramStream::recv\<close> under a timer: \<open>Inl ()\<close> when the timer elapses first. A datagram that
  is ignored has been written into the buffer nevertheless.\<close>

fun stream_recv :: "SocketAddr \<Rightarrow> net_event list \<Rightarrow> bytes \<Rightarrow> usize
    \<Rightarrow> (unit + (io_error + usize)) \<times> net_event list \<times> bytes" where
  "stream_recv peer [] buf min_size = (Inl (), [], buf)"
| "stream_recv peer (Elapses # es) buf min_size = (Inl (), es, buf)"
| "stream_recv peer (RecvFails error # es) buf min_size = (Inr (Inl error), es, buf)"
| "stream_recv peer (Arrives remote_address d # es) buf min_size =
    (let recv_size = min (length buf) (length d);
         buf' = recv_into buf d in
     if remote_address \<noteq> peer then stream_recv peer es buf' min_size
     else if recv_size < min_size then stream_recv peer es buf' min_size
     else (Inr (Inr recv_size), es, buf'))"

definition recv_timeout :: "AckTimeout \<Rightarrow> DatagramStream \<Rightarrow> bytes \<Rightarrow> usize
    \<Rightarrow> (unit + (io_error + usize)) \<times> DatagramStream \<times> bytes" where
  "recv_timeout t st buf min_size =
    (case stream_recv (peer_address st) (inbox st) buf min_size of
       (r, es, buf') \<Rightarrow>
         (r, st\<lparr>inbox := es,
               waited := waited st + (case r of Inl _ \<Rightarrow> timeout t | Inr _ \<Rightarrow> 0)\<rparr>, buf'))"

text \<open>An event the loop of \<open>recv\<close> skips: a datagram of another sender, or a runt.\<close>

fun ignorable :: "SocketAddr \<Rightarrow> nat \<Rightarrow> usize \<Rightarrow> net_event \<Rightarrow> bool" where
  "ignorable peer cap min_size (Arrives a d) \<longleftrightarrow> a \<noteq> peer \<or> min cap (length d) < min_size"
| "ignorable peer cap min_size _ \<longleftrightarrow> False"

section \<open>Sending\<close>

lemma stream_send_frame:
  "peer_address (snd (stream_send st d)) = peer_address st"
  "inbox (snd (stream_send st d)) = inbox st"
  "waited (snd (stream_send st d)) = waited st"
  by (simp_all add: stream_send_def send_to_def split: list.splits sum.splits)

lemma stream_send_reliable [stream_simps]:
  "send_results st = [] \<Longrightarrow> stream_send st d = (Inr (), st\<lparr>outbox := outbox st @ [d]\<rparr>)"
  by (simp add: stream_send_def send_to_def)

lemma stream_send_outbox:
  "outbox (snd (stream_send st d)) = outbox st \<or> outbox (snd (stream_send st d)) = outbox st @ [d]"
  by (auto simp: stream_send_def send_to_def split: list.splits sum.splits)

lemma stream_send_OkD:
  "stream_send st d = (Inr u, st') \<Longrightarrow> outbox st' = outbox st @ [d]"
  by (auto simp: stream_send_def send_to_def split: list.splits sum.splits if_splits)

section \<open>Receiving\<close>

lemma length_recv_into [simp]: "length (recv_into buf d) = length buf"
  by (simp add: recv_into_def)

lemma take_recv_into: "length d \<le> length buf \<Longrightarrow> take (length d) (recv_into buf d) = d"
  by (simp add: recv_into_def)

lemma stream_recv_length: "stream_recv p es buf k = (r, es', buf') \<Longrightarrow> length buf' = length buf"
proof (induction es arbitrary: buf)
  case (Cons e es)
  show ?case
  proof (cases e)
    case (Arrives a d)
    with Cons.prems Cons.IH [of "recv_into buf d"] show ?thesis
      by (auto simp: Let_def split: if_splits)
  qed (use Cons.prems in auto)
qed simp

lemma stream_recv_shrinks:
  "stream_recv p es buf k = (r, es', buf') \<Longrightarrow>
    length es' \<le> length es \<and> (\<forall>x. r = Inr x \<longrightarrow> length es' < length es)"
proof (induction es arbitrary: buf)
  case (Cons e es)
  show ?case
  proof (cases e)
    case (Arrives a d)
    with Cons.prems Cons.IH [of "recv_into buf d"] show ?thesis
      by (auto simp: Let_def less_Suc_eq split: if_splits)
  qed (use Cons.prems in auto)
qed auto

text \<open>A received datagram is the first one that the loop does not skip: it came from the peer
  and is long enough.\<close>

lemma stream_recv_OkD:
  "stream_recv p es buf k = (Inr (Inr n), es', buf') \<Longrightarrow>
    \<exists>skipped d b. es = skipped @ Arrives p d # es' \<and> list_all (ignorable p (length buf) k) skipped
      \<and> n = min (length buf) (length d) \<and> k \<le> n \<and> length b = length buf \<and> buf' = recv_into b d"
proof (induction p es buf k rule: stream_recv.induct)
  case (4 p a d es buf k)
  show ?case
  proof (cases "a \<noteq> p \<or> min (length buf) (length d) < k")
    case True
    with "4.prems" have e: "stream_recv p es (recv_into buf d) k = (Inr (Inr n), es', buf')"
      by (auto simp: Let_def split: if_splits)
    have "\<exists>skipped d' b. es = skipped @ Arrives p d' # es'
        \<and> list_all (ignorable p (length buf) k) skipped
        \<and> n = min (length buf) (length d') \<and> k \<le> n \<and> length b = length buf \<and> buf' = recv_into b d'"
      using True "4.IH"(1) [OF refl refl _ e] "4.IH"(2) [OF refl refl _ _ e]
      by (cases "a = p") simp_all
    then obtain skipped d' b where
      "es = skipped @ Arrives p d' # es'" "list_all (ignorable p (length buf) k) skipped"
      "n = min (length buf) (length d')" "k \<le> n" "length b = length buf" "buf' = recv_into b d'"
      by blast
    with True show ?thesis
      by (intro exI [where x = "Arrives a d # skipped"] exI [where x = d'] exI [where x = b]) auto
  next
    case False
    with "4.prems" show ?thesis
      by (intro exI [where x = "[]"] exI [where x = d] exI [where x = buf])
        (auto simp: Let_def split: if_splits)
  qed
qed auto

lemma stream_recv_skips:
  "list_all (ignorable p (length buf) k) skipped \<Longrightarrow>
    \<exists>b. length b = length buf \<and> stream_recv p (skipped @ es) buf k = stream_recv p es b k"
proof (induction skipped arbitrary: buf)
  case (Cons e skipped)
  from Cons.prems obtain a d where e: "e = Arrives a d" "a \<noteq> p \<or> min (length buf) (length d) < k"
    by (cases e) auto
  from Cons.IH [of "recv_into buf d"] Cons.prems obtain b where
    "length b = length buf" "stream_recv p (skipped @ es) (recv_into buf d) k = stream_recv p es b k"
    by auto
  with e show ?case by (auto simp: Let_def)
qed auto

lemma recv_timeout_frame:
  assumes "recv_timeout t st buf k = (r, st', buf')"
  shows "peer_address st' = peer_address st \<and> send_results st' = send_results st
    \<and> outbox st' = outbox st \<and> length buf' = length buf
    \<and> length (inbox st') \<le> length (inbox st)
    \<and> (\<forall>x. r = Inr x \<longrightarrow> length (inbox st') < length (inbox st))"
proof -
  obtain r1 es b where e: "stream_recv (peer_address st) (inbox st) buf k = (r1, es, b)"
    using prod_cases3 by blast
  with assms stream_recv_length [OF e] stream_recv_shrinks [OF e] show ?thesis
    by (auto simp: recv_timeout_def)
qed

end
