(* ===== verification/Fs.thy ===== *)
theory Fs
  imports Prelude
begin

text \<open>
  \<open>src/fs.rs\<close>: the traits \<open>OpenedFile\<close> and \<open>Root\<close> through which a session reads a file. A method
  that mutates \<open>self\<close> or a caller's buffer returns both updated. \<open>opened_file\<close> is the contract a
  transfer relies on: \<open>rest f\<close> are the bytes \<open>f\<close> has still to deliver, and a read fills the front
  of the buffer with as many of them as fit. \<open>total_file\<close> is what keeps a session from panicking. The
  contracts are interpreted for the local file and for the reader of the remote disk.
\<close>

datatype ('l, 'r) RootKind = LocalKind 'l | RemoteKind 'r

type_synonym 'f read_to = "'f \<Rightarrow> bytes \<Rightarrow> ((io_error + usize) \<times> 'f \<times> bytes) run"
type_synonym 'f get_size = "'f \<Rightarrow> (io_error + usize) \<times> 'f"

text \<open>What the type of \<open>read_to\<close> alone promises: the caller's slice keeps its length.\<close>

locale readable =
  fixes read_to :: "'f read_to"
  assumes read_to_length: "read_to f buf = Some (r, f', buf') \<Longrightarrow> length buf' = length buf"

text \<open>A file whose methods do not panic, as long as it is \<open>safe\<close>, and whose size fits the machine.\<close>

locale total_file = readable read_to
  for read_to :: "'f read_to" +
  fixes get_size :: "'f get_size"
    and safe :: "'f \<Rightarrow> bool"
  assumes read_to_runs: "safe f \<Longrightarrow> \<exists>r f' buf'. read_to f buf = Some (r, f', buf') \<and> safe f'"
    and get_size_safe: "safe f \<Longrightarrow> get_size f = (r, f') \<Longrightarrow> safe f' \<and> (\<forall>n. r = Inr n \<longrightarrow> n < usize_modulus)"

locale opened_file = readable read_to
  for read_to :: "'f read_to" +
  fixes get_size :: "'f get_size"
    and rest :: "'f \<Rightarrow> bytes"
    and healthy :: "'f \<Rightarrow> bool"
    and fresh :: "'f \<Rightarrow> bool"
  assumes read_to_delivers:
      "healthy f \<Longrightarrow> n = min (length buf) (length (rest f)) \<Longrightarrow>
        \<exists>f'. read_to f buf = Some (Inr n, f', take n (rest f) @ drop n buf)
          \<and> healthy f' \<and> rest f' = drop n (rest f)"
    and get_size_of_fresh:
      "healthy f \<Longrightarrow> fresh f \<Longrightarrow>
        \<exists>f'. get_size f = (Inr (length (rest f)), f') \<and> healthy f' \<and> fresh f' \<and> rest f' = rest f"
begin

lemma read_to_exhausted:
  assumes "healthy f" "rest f = []"
  shows "\<exists>f'. read_to f buf = Some (Inr 0, f', buf) \<and> healthy f' \<and> rest f' = []"
  using read_to_delivers [OF assms(1), of 0 buf] assms(2) by simp

text \<open>A read that returns less than the buffer has delivered the last byte.\<close>

lemma short_read_is_last:
  assumes "healthy f" "read_to f buf = Some (Inr n, f', buf')" "n < length buf"
  shows "rest f' = []"
  using read_to_delivers [OF assms(1) refl, of buf] assms(2,3) by auto

end

end
