(* ===== verification/Paths.thy ===== *)
theory Paths
  imports Prelude "HOL-Library.Sublist" "HOL-Library.List_Lexorder"
begin

text \<open>
  What the sources use of \<open>std::path\<close> on Unix. A path is its bytes; \<open>components\<close> is the iterator of the
  same name, by which paths are compared, sorted and checked for a prefix. \<open>resolve\<close> says where a path
  leads in a tree without symbolic links.
\<close>

section \<open>Definitions\<close>

datatype Component = RootDir | CurDir | ParentDir | Normal rstr

fun split_slash :: "rstr \<Rightarrow> rstr list" where
  "split_slash [] = [[]]"
| "split_slash (b # s) = (if b = slash then [] # split_slash s
     else case split_slash s of [] \<Rightarrow> [[b]] | p # ps \<Rightarrow> (b # p) # ps)"

fun part_component :: "rstr \<Rightarrow> Component option" where
  "part_component p =
    (if p = [] \<or> p = [dot] then None else if p = [dot, dot] then Some ParentDir else Some (Normal p))"

definition has_root :: "rstr \<Rightarrow> bool" where
  "has_root p \<longleftrightarrow> p \<noteq> [] \<and> hd p = slash"

definition components :: "rstr \<Rightarrow> Component list" where
  "components p =
    (if has_root p then [RootDir] else if hd (split_slash p) = [dot] then [CurDir] else [])
    @ List.map_filter part_component (split_slash p)"

text \<open>\<open>PathBuf::join\<close>: an absolute argument replaces the path, a relative one is appended after a
  separator.\<close>

definition path_join :: "rstr \<Rightarrow> rstr \<Rightarrow> rstr" where
  "path_join p q =
    (if has_root q then q
     else if p \<noteq> [] \<and> last p \<noteq> slash then p @ [slash] @ q else p @ q)"

definition path_starts_with :: "rstr \<Rightarrow> rstr \<Rightarrow> bool" where
  "path_starts_with p base = prefix (components base) (components p)"

text \<open>\<open>Path::file_name\<close>: the last component, if it is a name.\<close>

definition file_name :: "rstr \<Rightarrow> rstr option" where
  "file_name p =
    (if components p = [] then None
     else case last (components p) of Normal name \<Rightarrow> Some name | _ \<Rightarrow> None)"

text \<open>Where a path leads without symbolic links: \<open>..\<close> drops the last directory entered, and has no
  effect at the top.\<close>

fun enter :: "rstr list \<Rightarrow> Component \<Rightarrow> rstr list" where
  "enter dirs RootDir = []"
| "enter dirs CurDir = dirs"
| "enter dirs ParentDir = butlast dirs"
| "enter dirs (Normal name) = dirs @ [name]"

definition resolve :: "rstr \<Rightarrow> rstr list" where
  "resolve p = foldl enter [] (components p)"

section \<open>The order of components\<close>

fun component_key :: "Component \<Rightarrow> nat list" where
  "component_key RootDir = [0]"
| "component_key CurDir = [1]"
| "component_key ParentDir = [2]"
| "component_key (Normal name) = 3 # map unat name"

lemma component_key_inject: "component_key c = component_key d \<longleftrightarrow> c = d"
  by (cases c; cases d) (auto dest!: map_injective simp: inj_on_def intro: unsigned_word_eqI)

instantiation Component :: linorder
begin

definition less_eq_Component :: "Component \<Rightarrow> Component \<Rightarrow> bool" where
  "less_eq_Component c d \<longleftrightarrow> component_key c \<le> component_key d"

definition less_Component :: "Component \<Rightarrow> Component \<Rightarrow> bool" where
  "less_Component c d \<longleftrightarrow> component_key c < component_key d"

instance
  by standard (auto simp: less_eq_Component_def less_Component_def component_key_inject less_le_not_le
      dest: order.antisym)

end

section \<open>Laws of paths\<close>

lemma split_slash_not_Nil [simp]: "split_slash s \<noteq> []"
  by (cases s) (auto split: list.splits)

lemma split_slash_append: "split_slash (a @ slash # b) = split_slash a @ split_slash b"
  by (induction a) (auto split: list.splits)

lemma map_filter_append [simp]: "List.map_filter f (xs @ ys) = List.map_filter f xs @ List.map_filter f ys"
  by (induction xs) (auto simp: List.map_filter_simps split: option.splits)

lemma map_filter_part_Nil [simp]: "List.map_filter part_component [[]] = []"
  by (simp add: List.map_filter_simps)

lemma has_root_append [simp]: "p \<noteq> [] \<Longrightarrow> has_root (p @ q) = has_root p"
  by (simp add: has_root_def)

lemma components_append_slash:
  assumes "a \<noteq> []"
  shows "components (a @ slash # b) = components a @ List.map_filter part_component (split_slash b)"
  using assms by (simp add: components_def split_slash_append)

lemma components_trailing_slash:
  "a \<noteq> [] \<Longrightarrow> components (a @ [slash]) = components a"
  using components_append_slash [of a "[]"] by simp

lemma components_root_slash: "components (slash # b) = RootDir # List.map_filter part_component (split_slash b)"
  by (simp add: components_def has_root_def List.map_filter_simps)

text \<open>The names of a relative path, a leading \<open>.\<close> left out.\<close>

lemma components_join:
  assumes "\<not> has_root q" "p \<noteq> []"
  shows "components (path_join p q) = components p @ List.map_filter part_component (split_slash q)"
proof (cases "last p = slash")
  case False
  with assms show ?thesis by (simp add: path_join_def components_append_slash)
next
  case True
  with assms(2) obtain a where p: "p = a @ [slash]" by (metis append_butlast_last_id)
  with assms(1) have j: "path_join p q = a @ slash # q" by (simp add: path_join_def)
  show ?thesis
  proof (cases "a = []")
    case True
    with p j show ?thesis
      using components_root_slash [of q] components_root_slash [of "[]"] by simp
  next
    case False
    with p j show ?thesis by (simp add: components_append_slash components_trailing_slash)
  qed
qed

lemma trim_has_no_root: "\<not> has_root (trim_start_matches slash s)"
  by (induction s) (auto simp: has_root_def trim_start_matches_def)

lemma path_join_starts_with: "\<not> has_root q \<Longrightarrow> path_starts_with (path_join p q) p"
proof (cases "p = []")
  case True
  then show ?thesis by (simp add: path_starts_with_def components_def has_root_def List.map_filter_simps)
next
  case False
  assume "\<not> has_root q"
  with False show ?thesis by (simp add: path_starts_with_def components_join)
qed

lemma foldl_enter_names:
  "list_all (\<lambda>c. \<exists>name. c = Normal name) cs \<Longrightarrow> foldl enter dirs cs = dirs @ map (\<lambda>c. case c of Normal n \<Rightarrow> n) cs"
  by (induction cs arbitrary: dirs) auto

lemma part_components_names:
  "[dot, dot] \<notin> set parts \<Longrightarrow> list_all (\<lambda>c. \<exists>name. c = Normal name) (List.map_filter part_component parts)"
  by (induction parts) (auto simp: List.map_filter_simps split: option.splits)

text \<open>Without a \<open>..\<close> among its parts a request leads to a place below the root.\<close>

lemma request_stays_below:
  assumes "\<not> has_root q" "p \<noteq> []" "[dot, dot] \<notin> set (split_slash q)"
  shows "prefix (resolve p) (resolve (path_join p q))"
  using foldl_enter_names [OF part_components_names [OF assms(3)]] assms(1,2)
  by (simp add: resolve_def components_join)

end
