(* ===== verification/Local_Fs.thy ===== *)
theory Local_Fs
  imports Fs Paths
begin

text \<open>
  \<open>src/local_fs/mod.rs\<close>: a directory of the host as a \<open>Root\<close> and an open file of it as an
  \<open>OpenedFile\<close>, with what they use of \<open>std::fs::File\<close>. The
  operating system's \<open>open\<close> is the parameter \<open>os_open\<close>. An open file carries its contents, its
  position, what its next reads are limited to (\<open>Inr n\<close>: at most \<open>n\<close> bytes, \<open>Inl e\<close>: the error \<open>e\<close>;
  a read beyond the list is unlimited) and whether it can be positioned at all.
\<close>

section \<open>Files\<close>

record File =
  contents :: bytes
  pos :: nat
  read_plan :: "(io_error + usize) list"
  seek_error :: "io_error option"

definition File_read :: "File \<Rightarrow> bytes \<Rightarrow> (io_error + usize) \<times> File \<times> bytes" where
  "File_read f buf =
    (let avail = drop (pos f) (contents f);
         deliver = (\<lambda>n g. (Inr n, g\<lparr>pos := pos f + n\<rparr>, take n avail @ drop n buf)) in
     case read_plan f of
       [] \<Rightarrow> deliver (min (length buf) (length avail)) f
     | Inl e # plan \<Rightarrow> (Inl e, f\<lparr>read_plan := plan\<rparr>, buf)
     | Inr n # plan \<Rightarrow> deliver (min n (min (length buf) (length avail))) (f\<lparr>read_plan := plan\<rparr>))"

datatype SeekFrom = Start nat | End int

definition File_seek :: "File \<Rightarrow> SeekFrom \<Rightarrow> (io_error + nat) \<times> File" where
  "File_seek f whence =
    (case seek_error f of
       Some e \<Rightarrow> (Inl e, f)
     | None \<Rightarrow>
        (case whence of
           Start n \<Rightarrow> (Inr n, f\<lparr>pos := n\<rparr>)
         | End k \<Rightarrow> let n = int (length (contents f)) + k in
             if n < 0 then (Inl (io_kind InvalidInput), f) else (Inr (nat n), f\<lparr>pos := nat n\<rparr>)))"

section \<open>The open file\<close>

record LocalOpenedFile =
  rd :: File
  lf_display :: rstr

definition LocalOpenedFile_display :: "LocalOpenedFile \<Rightarrow> rstr" where
  "LocalOpenedFile_display f = str ''<OpenedFile '' @ lf_display f @ str ''>''"

definition LocalOpenedFile_read_to :: "LocalOpenedFile read_to" where
  "LocalOpenedFile_read_to f buf =
    (case File_read (rd f) buf of
       (Inl e, r, buf) \<Rightarrow> Some (Inl e, f\<lparr>rd := r\<rparr>, buf)
     | (Inr result, r, buf) \<Rightarrow> Some (Inr result, f\<lparr>rd := r\<rparr>, buf))"

definition LocalOpenedFile_get_size :: "LocalOpenedFile get_size" where
  "LocalOpenedFile_get_size f =
    (case File_seek (rd f) (Start 0) of
       (Inl e, r) \<Rightarrow> (Inl e, f\<lparr>rd := r\<rparr>)
     | (Inr current_pos, r) \<Rightarrow>
        (case File_seek r (End 0) of
           (Inl e, r) \<Rightarrow> (Inl e, f\<lparr>rd := r\<rparr>)
         | (Inr result, r) \<Rightarrow>
            (case File_seek r (Start current_pos) of
               (Inl e, r) \<Rightarrow> (Inl e, f\<lparr>rd := r\<rparr>)
             | (Inr _, r) \<Rightarrow> (Inr result, f\<lparr>rd := r\<rparr>))))"

section \<open>The root\<close>

record LocalRoot =
  lr_path :: rstr

definition LocalRoot_new :: "rstr \<Rightarrow> LocalRoot" where
  "LocalRoot_new path = \<lparr>lr_path = path\<rparr>"

definition LocalRoot_debug :: "LocalRoot \<Rightarrow> rstr" where
  "LocalRoot_debug root = str ''<LocalRoot: '' @ str_debug (lr_path root) @ str ''>''"

definition LocalRoot_display :: "LocalRoot \<Rightarrow> rstr" where
  "LocalRoot_display root = str ''<Local: '' @ str_debug (lr_path root) @ str ''>''"

definition LocalRoot_open ::
    "(rstr \<Rightarrow> io_error + File) \<Rightarrow> LocalRoot \<Rightarrow> rstr \<Rightarrow> io_error + LocalOpenedFile" where
  "LocalRoot_open os_open root path =
    (let file_path = path_join (lr_path root) (trim_start_matches slash path) in
     if \<not> path_starts_with file_path (lr_path root) then Inl (io_kind PermissionDenied)
     else case os_open file_path of
       Inl e \<Rightarrow> Inl e
     | Inr result \<Rightarrow> Inr \<lparr>rd = result, lf_display = file_path\<rparr>)"

section \<open>Laws of the root\<close>

text \<open>The guard of \<open>open\<close> compares components and never fires: \<open>open\<close> is the operating system's
  answer for the joined path.\<close>

lemma LocalRoot_open_is_os_open:
  "LocalRoot_open os_open root path =
    (let file_path = path_join (lr_path root) (trim_start_matches slash path)
     in map_sum id (\<lambda>f. \<lparr>rd = f, lf_display = file_path\<rparr>) (os_open file_path))"
  using path_join_starts_with [OF trim_has_no_root]
  by (simp add: LocalRoot_open_def Let_def split: sum.splits)

section \<open>The contract of an opened file\<close>

lemma File_read_length: "File_read f buf = (r, f', buf') \<Longrightarrow> length buf' = length buf"
  by (auto simp: File_read_def Let_def split: list.splits sum.splits)

lemma LocalOpenedFile_read_to_length:
  "LocalOpenedFile_read_to f buf = Some (r, f', buf') \<Longrightarrow> length buf' = length buf"
  by (auto simp: LocalOpenedFile_read_to_def split: prod.splits sum.splits dest: File_read_length)

definition local_rest :: "LocalOpenedFile \<Rightarrow> bytes" where
  "local_rest f = drop (pos (rd f)) (contents (rd f))"

definition local_healthy :: "LocalOpenedFile \<Rightarrow> bool" where
  "local_healthy f \<longleftrightarrow> read_plan (rd f) = [] \<and> seek_error (rd f) = None"

definition local_fresh :: "LocalOpenedFile \<Rightarrow> bool" where
  "local_fresh f \<longleftrightarrow> pos (rd f) = 0"

lemma LocalOpenedFile_get_size_seekable:
  "seek_error (rd f) = None \<Longrightarrow>
    LocalOpenedFile_get_size f = (Inr (length (contents (rd f))), f\<lparr>rd := (rd f)\<lparr>pos := 0\<rparr>\<rparr>)"
  by (simp add: LocalOpenedFile_get_size_def File_seek_def Let_def)

interpretation local_file: opened_file LocalOpenedFile_read_to LocalOpenedFile_get_size
  local_rest local_healthy local_fresh
proof unfold_locales
  fix f r f' and buf buf' :: bytes
  assume "LocalOpenedFile_read_to f buf = Some (r, f', buf')"
  then show "length buf' = length buf" by (rule LocalOpenedFile_read_to_length)
next
  fix f n and buf :: bytes
  assume "local_healthy f" "n = min (length buf) (length (local_rest f))"
  then show "\<exists>f'. LocalOpenedFile_read_to f buf = Some (Inr n, f', take n (local_rest f) @ drop n buf)
      \<and> local_healthy f' \<and> local_rest f' = drop n (local_rest f)"
    by (simp add: LocalOpenedFile_read_to_def File_read_def local_healthy_def local_rest_def add.commute)
next
  fix f
  assume "local_healthy f" "local_fresh f"
  then show "\<exists>f'. LocalOpenedFile_get_size f = (Inr (length (local_rest f)), f')
      \<and> local_healthy f' \<and> local_fresh f' \<and> local_rest f' = local_rest f"
    by (auto simp: LocalOpenedFile_get_size_seekable local_healthy_def local_fresh_def local_rest_def)
qed

text \<open>No method of a local file panics, also when the system reports errors.\<close>

definition local_safe :: "LocalOpenedFile \<Rightarrow> bool" where
  "local_safe f \<longleftrightarrow> length (contents (rd f)) < usize_modulus"

interpretation local_total: total_file LocalOpenedFile_read_to LocalOpenedFile_get_size local_safe
proof unfold_locales
  fix f and buf :: bytes
  assume "local_safe f"
  then show "\<exists>r f' buf'. LocalOpenedFile_read_to f buf = Some (r, f', buf') \<and> local_safe f'"
    by (auto simp: LocalOpenedFile_read_to_def File_read_def local_safe_def Let_def split: list.splits sum.splits)
next
  fix f r f'
  assume "local_safe f" "LocalOpenedFile_get_size f = (r, f')"
  then show "local_safe f' \<and> (\<forall>n. r = Inr n \<longrightarrow> n < usize_modulus)"
    by (cases "seek_error (rd f)")
      (auto simp: LocalOpenedFile_get_size_seekable LocalOpenedFile_get_size_def File_seek_def local_safe_def)
qed

lemma local_get_size_plan: "read_plan (rd (snd (LocalOpenedFile_get_size f))) = read_plan (rd f)"
  by (cases "seek_error (rd f)") (auto simp: LocalOpenedFile_get_size_seekable LocalOpenedFile_get_size_def File_seek_def)

end
