(* ===== verification/Guestfs.thy ===== *)
theory Guestfs
  imports Prelude
begin

text \<open>
  \<open>src/guestfs/mod.rs\<close>: the safe wrapper around libguestfs. The C library is the parameter
  \<open>lib :: 'h libguestfs\<close>, one field per foreign function, over an opaque handle state \<open>'h\<close>; every
  call returns its C result, the appliance messages that the library hands to the event callback
  during the call, and the handle afterwards. \<open>GuestFS\<close> is the handle and the queue of messages
  not yet retrieved. A method returns \<open>None\<close> where the source panics: a string with a NUL byte
  (\<open>CString::new(..).expect\<close>) or an error message that is not UTF-8 (\<open>to_str().unwrap()\<close>).
\<close>

section \<open>The foreign functions\<close>

text \<open>Of the thirteen fields of the C structure the source reads \<open>size\<close> only.\<close>

record guestfs_stat =
  st_size :: "64 word"

type_synonym ('r, 'h) foreign = "'h \<Rightarrow> 'r \<times> bytes list \<times> 'h"

record 'h libguestfs =
  guestfs_create :: 'h
  guestfs_close :: "'h \<Rightarrow> 'h"
  guestfs_last_error :: "'h \<Rightarrow> bytes option"
  guestfs_add_drive_opts :: "bytes \<Rightarrow> bool \<Rightarrow> (int, 'h) foreign"
  guestfs_config :: "bytes \<Rightarrow> bytes \<Rightarrow> (int, 'h) foreign"
  guestfs_launch :: "(int, 'h) foreign"
  guestfs_list_partitions :: "(bytes list option, 'h) foreign"
  guestfs_mount_ro :: "bytes \<Rightarrow> bytes \<Rightarrow> (int, 'h) foreign"
  guestfs_set_append :: "bytes \<Rightarrow> (int, 'h) foreign"
  guestfs_stat_of :: "bytes \<Rightarrow> (guestfs_stat option, 'h) foreign"
  guestfs_set_pgroup :: "int \<Rightarrow> (int, 'h) foreign"
  guestfs_pread :: "bytes \<Rightarrow> int \<Rightarrow> 64 word \<Rightarrow> (bytes option, 'h) foreign"
  guestfs_set_event_callback :: "64 word \<Rightarrow> (int, 'h) foreign"
  guestfs_set_error_handler :: "'h \<Rightarrow> 'h"
  handle_pointer :: "'h \<Rightarrow> rstr"

definition GUEST_FS_EVENT_APPLIANCE :: "64 word" where "GUEST_FS_EVENT_APPLIANCE = 0x0010"
definition CHUNK_SIZE :: int where "CHUNK_SIZE = 3 * 1024 * 1024"

section \<open>Errors\<close>

datatype GuestFSError =
    Generic rstr | DiskNotFound rstr | ConnectionRefused rstr | ShareNotFound rstr | Unknown

fun GuestFSError_debug :: "GuestFSError \<Rightarrow> rstr" where
  "GuestFSError_debug (Generic m) = str ''Generic('' @ str_debug m @ str '')''"
| "GuestFSError_debug (DiskNotFound m) = str ''DiskNotFound('' @ str_debug m @ str '')''"
| "GuestFSError_debug (ConnectionRefused m) = str ''ConnectionRefused('' @ str_debug m @ str '')''"
| "GuestFSError_debug (ShareNotFound m) = str ''ShareNotFound('' @ str_debug m @ str '')''"
| "GuestFSError_debug Unknown = str ''Unknown''"

definition GuestFSError_display :: "GuestFSError \<Rightarrow> rstr" where
  "GuestFSError_display e = str ''<GuestFSError: '' @ GuestFSError_debug e @ str ''>''"

definition get_last_error :: "'h libguestfs \<Rightarrow> 'h \<Rightarrow> GuestFSError run" where
  "get_last_error lib h =
    (case guestfs_last_error lib h of
       None \<Rightarrow> Some Unknown
     | Some m \<Rightarrow> if utf8_valid m then Some (Generic m) else None)"

section \<open>The wrapper\<close>

record 'h GuestFS =
  gfs_handle :: 'h
  events :: "bytes list"

type_synonym ('a, 'h) gfs_result = "((GuestFSError + 'a) \<times> 'h GuestFS) run"

text \<open>The channel end that the callback holds; its peer is \<open>events_receiver\<close>.\<close>

definition guestfs_event_callback :: "bytes list \<Rightarrow> bytes \<Rightarrow> bytes list" where
  "guestfs_event_callback queue appliance_error = queue @ [appliance_error]"

definition foreign_call :: "('r, 'h) foreign \<Rightarrow> 'h GuestFS \<Rightarrow> 'r \<times> 'h GuestFS" where
  "foreign_call f g =
    (case f (gfs_handle g) of
       (r, msgs, h) \<Rightarrow> (r, \<lparr>gfs_handle = h, events = foldl guestfs_event_callback (events g) msgs\<rparr>))"

text \<open>The result of a C call that returns 0 on success.\<close>

definition check_zero :: "'h libguestfs \<Rightarrow> int \<times> 'h GuestFS \<Rightarrow> (unit, 'h) gfs_result" where
  "check_zero lib r =
    (case r of (code, g) \<Rightarrow>
       if code = 0 then Some (Inr (), g)
       else map_option (\<lambda>e. (Inl e, g)) (get_last_error lib (gfs_handle g)))"

definition CString :: "rstr \<Rightarrow> bytes run" where
  "CString s = (if 0 \<in> set s then None else Some s)"

definition disable_signals_propagation :: "'h libguestfs \<Rightarrow> 'h GuestFS \<Rightarrow> (unit, 'h) gfs_result" where
  "disable_signals_propagation lib g = check_zero lib (foreign_call (guestfs_set_pgroup lib 1) g)"

definition GuestFS_new :: "'h libguestfs \<Rightarrow> 'h GuestFS run" where
  "GuestFS_new lib =
    (let g = \<lparr>gfs_handle = guestfs_set_error_handler lib (guestfs_create lib), events = []\<rparr>;
         (set_callback_result, g) = foreign_call (guestfs_set_event_callback lib GUEST_FS_EVENT_APPLIANCE) g in
     if set_callback_result \<noteq> 0 then None
     else do {
       (r, g) \<leftarrow> disable_signals_propagation lib g;
       case r of Inl _ \<Rightarrow> None | Inr _ \<Rightarrow> Some g
     })"

definition add_disk :: "'h libguestfs \<Rightarrow> 'h GuestFS \<Rightarrow> rstr \<Rightarrow> bool \<Rightarrow> (unit, 'h) gfs_result" where
  "add_disk lib g path read_only = do {
     disk_path \<leftarrow> CString path;
     let (code, g) = foreign_call (guestfs_add_drive_opts lib disk_path read_only) g;
     if code = 0 then Some (Inr (), g)
     else do {
       e \<leftarrow> get_last_error lib (gfs_handle g);
       case e of
         Generic message \<Rightarrow>
           if contains message (str ''No such file or directory'') then Some (Inl (DiskNotFound message), g)
           else Some (Inl (Generic message), g)
       | other_error \<Rightarrow> Some (Inl other_error, g)
     }
   }"

definition add_qemu_option :: "'h libguestfs \<Rightarrow> 'h GuestFS \<Rightarrow> rstr \<Rightarrow> rstr \<Rightarrow> (unit, 'h) gfs_result" where
  "add_qemu_option lib g key value = do {
     c_str_key \<leftarrow> CString key;
     c_str_value \<leftarrow> CString value;
     check_zero lib (foreign_call (guestfs_config lib c_str_key c_str_value) g)
   }"

definition launch :: "'h libguestfs \<Rightarrow> 'h GuestFS \<Rightarrow> (unit, 'h) gfs_result" where
  "launch lib g = check_zero lib (foreign_call (guestfs_launch lib) g)"

text \<open>\<open>String::from_utf8_lossy\<close>: a byte sequence that cannot begin or continue a character is
  replaced by U+FFFD, up to the first byte that does not fit. The first component of
  \<open>utf8_step\<close> tells whether a character was decoded, the second how many bytes it took.\<close>

definition second_fits :: "byte \<Rightarrow> byte \<Rightarrow> bool" where
  "second_fits a b \<longleftrightarrow> cont_byte b \<and> (a = 0xE0 \<longrightarrow> 0xA0 \<le> b) \<and> (a = 0xED \<longrightarrow> b \<le> 0x9F)
    \<and> (a = 0xF0 \<longrightarrow> 0x90 \<le> b) \<and> (a = 0xF4 \<longrightarrow> b \<le> 0x8F)"

fun continues :: "nat \<Rightarrow> bytes \<Rightarrow> nat" where
  "continues 0 s = 0"
| "continues (Suc n) [] = 0"
| "continues (Suc n) (b # s) = (if cont_byte b then Suc (continues n s) else 0)"

definition utf8_step :: "byte \<Rightarrow> bytes \<Rightarrow> bool \<times> nat" where
  "utf8_step a r =
    (let width = (if 0xC2 \<le> a \<and> a \<le> 0xDF then 1 else if 0xE0 \<le> a \<and> a \<le> 0xEF then 2
                  else if 0xF0 \<le> a \<and> a \<le> 0xF4 then 3 else (0 :: nat)) in
     if a < 0x80 then (True, 1)
     else if width = 0 \<or> r = [] \<or> \<not> second_fits a (hd r) then (False, 1)
     else let n = continues width r in (n = width, Suc n))"

function utf8_lossy :: "bytes \<Rightarrow> rstr" where
  "utf8_lossy [] = []"
| "utf8_lossy (a # r) =
    (case utf8_step a r of
       (ok, n) \<Rightarrow> (if ok then take n (a # r) else [0xEF, 0xBF, 0xBD]) @ utf8_lossy (drop n (a # r)))"
  by pat_completeness auto
termination
  by (relation "measure length") (auto simp: utf8_step_def Let_def split: if_splits)

text \<open>\<open>str::lines\<close>: lines end in a newline, which is dropped together with a carriage return before it.\<close>

definition strip_cr :: "rstr \<Rightarrow> rstr" where
  "strip_cr s = (if s \<noteq> [] \<and> last s = 13 then butlast s else s)"

fun lines_from :: "rstr \<Rightarrow> rstr \<Rightarrow> rstr list" where
  "lines_from acc [] = (if acc = [] then [] else [acc])"
| "lines_from acc (b # s) = (if b = 10 then strip_cr acc # lines_from [] s else lines_from (acc @ [b]) s)"

definition str_lines :: "rstr \<Rightarrow> rstr list" where
  "str_lines s = lines_from [] s"

definition retrieve_appliance_stderr :: "'h GuestFS \<Rightarrow> rstr list \<times> 'h GuestFS" where
  "retrieve_appliance_stderr g =
    (filter (\<lambda>s. s \<noteq> []) (concat (map (\<lambda>event. str_lines (utf8_lossy event)) (events g))),
     g\<lparr>events := []\<rparr>)"

definition list_partitions :: "'h libguestfs \<Rightarrow> 'h GuestFS \<Rightarrow> (rstr list, 'h) gfs_result" where
  "list_partitions lib g =
    (case foreign_call (guestfs_list_partitions lib) g of
       (None, g) \<Rightarrow> map_option (\<lambda>e. (Inl e, g)) (get_last_error lib (gfs_handle g))
     | (Some entries, g) \<Rightarrow>
        if list_all utf8_valid (take 100 entries) then Some (Inr (take 100 entries), g) else None)"

definition mount_ro :: "'h libguestfs \<Rightarrow> 'h GuestFS \<Rightarrow> rstr \<Rightarrow> rstr \<Rightarrow> (unit, 'h) gfs_result" where
  "mount_ro lib g device mountpoint = do {
     c_str_device \<leftarrow> CString device;
     c_str_mountpoint \<leftarrow> CString mountpoint;
     check_zero lib (foreign_call (guestfs_mount_ro lib c_str_device c_str_mountpoint) g)
   }"

definition GuestFS_get_size :: "'h libguestfs \<Rightarrow> 'h GuestFS \<Rightarrow> rstr \<Rightarrow> (usize, 'h) gfs_result" where
  "GuestFS_get_size lib g path = do {
     c_str_path \<leftarrow> CString path;
     case foreign_call (guestfs_stat_of lib c_str_path) g of
       (None, g) \<Rightarrow> map_option (\<lambda>e. (Inl e, g)) (get_last_error lib (gfs_handle g))
     | (Some result, g) \<Rightarrow> Some (Inr (unat (st_size result)), g)
   }"

definition set_append :: "'h libguestfs \<Rightarrow> 'h GuestFS \<Rightarrow> rstr \<Rightarrow> (unit, 'h) gfs_result" where
  "set_append lib g string = do {
     c_str \<leftarrow> CString string;
     check_zero lib (foreign_call (guestfs_set_append lib c_str) g)
   }"

definition read_chunk :: "'h libguestfs \<Rightarrow> 'h GuestFS \<Rightarrow> rstr \<Rightarrow> usize \<Rightarrow> (bytes, 'h) gfs_result" where
  "read_chunk lib g path ofs = do {
     c_str_path \<leftarrow> CString path;
     case foreign_call (guestfs_pread lib c_str_path CHUNK_SIZE (of_nat ofs)) g of
       (None, g) \<Rightarrow> map_option (\<lambda>e. (Inl e, g)) (get_last_error lib (gfs_handle g))
     | (Some read_buffer, g) \<Rightarrow> Some (Inr read_buffer, g)
   }"

definition GuestFS_drop :: "'h libguestfs \<Rightarrow> 'h GuestFS \<Rightarrow> 'h GuestFS" where
  "GuestFS_drop lib g = g\<lparr>gfs_handle := guestfs_close lib (gfs_handle g), events := []\<rparr>"

definition GuestFS_display :: "'h libguestfs \<Rightarrow> 'h GuestFS \<Rightarrow> rstr" where
  "GuestFS_display lib g = str ''<Handle: '' @ handle_pointer lib (gfs_handle g) @ str ''>''"

section \<open>Lossy decoding\<close>

lemma continues_le: "continues n s \<le> n \<and> continues n s \<le> length s"
  by (induction n s rule: continues.induct) auto

lemma utf8_step_two:
  assumes "0xC2 \<le> a" "a \<le> 0xDF" "cont_byte b"
  shows "utf8_step a (b # r) = (True, 2)"
proof -
  from assms(1,2) have "\<not> a < 0x80" "a \<noteq> 0xE0" "a \<noteq> 0xED" "a \<noteq> 0xF0" "a \<noteq> 0xF4"
    by (auto simp: word_less_nat_alt word_le_nat_alt)
  with assms show ?thesis by (simp add: utf8_step_def second_fits_def)
qed

lemma utf8_step_three:
  assumes "0xE0 \<le> a" "a \<le> 0xEF" "cont_byte b" "a = 0xE0 \<longrightarrow> 0xA0 \<le> b" "a = 0xED \<longrightarrow> b \<le> 0x9F" "cont_byte c"
  shows "utf8_step a (b # c # r) = (True, 3)"
proof -
  from assms(1,2) have "\<not> a < 0x80" "\<not> a \<le> 0xDF" "a \<noteq> 0xF0" "a \<noteq> 0xF4"
    by (auto simp: word_less_nat_alt word_le_nat_alt)
  with assms show ?thesis by (simp add: utf8_step_def second_fits_def numeral_2_eq_2 numeral_3_eq_3)
qed

lemma utf8_step_four:
  assumes "0xF0 \<le> a" "a \<le> 0xF4" "cont_byte b" "a = 0xF0 \<longrightarrow> 0x90 \<le> b" "a = 0xF4 \<longrightarrow> b \<le> 0x8F"
    "cont_byte c" "cont_byte d"
  shows "utf8_step a (b # c # d # r) = (True, 4)"
proof -
  from assms(1,2) have "\<not> a < 0x80" "\<not> a \<le> 0xDF" "\<not> a \<le> 0xEF" "a \<noteq> 0xE0" "a \<noteq> 0xED"
    by (auto simp: word_less_nat_alt word_le_nat_alt)
  with assms show ?thesis by (simp add: utf8_step_def second_fits_def numeral_3_eq_3 numeral_eq_Suc)
qed

text \<open>A string of UTF-8 starts with one decodable character and goes on with UTF-8.\<close>

lemma utf8_valid_step:
  assumes "utf8_valid (a # r)"
  shows "\<exists>n. utf8_step a r = (True, Suc n) \<and> utf8_valid (drop n r)"
proof (cases "a < 0x80")
  case True
  with assms show ?thesis by (intro exI [where x = 0]) (simp add: utf8_step_def)
next
  case False
  with assms obtain b r2 where r: "r = b # r2" by (auto split: list.splits)
  show ?thesis
  proof (cases "0xC2 \<le> a \<and> a \<le> 0xDF")
    case True
    with False assms r have "cont_byte b \<and> utf8_valid r2" by simp
    with True r show ?thesis by (intro exI [where x = 1]) (simp add: utf8_step_two)
  next
    case not_two: False
    with False r assms obtain c r3 where r2: "r2 = c # r3" by (auto split: list.splits)
    show ?thesis
    proof (cases "0xE0 \<le> a \<and> a \<le> 0xEF")
      case True
      with False not_two assms r r2 have v: "cont_byte b \<and> (a = 0xE0 \<longrightarrow> 0xA0 \<le> b) \<and> (a = 0xED \<longrightarrow> b \<le> 0x9F)
          \<and> cont_byte c \<and> utf8_valid r3" by (auto split: if_splits)
      with True have "utf8_step a r = (True, 3)" unfolding r r2 by (intro utf8_step_three) simp_all
      with v r r2 show ?thesis by (intro exI [where x = 2]) simp
    next
      case not_three: False
      with False not_two r r2 assms obtain d r4 where r3: "r3 = d # r4" by (auto split: list.splits)
      with False not_two not_three assms r r2 have v: "0xF0 \<le> a \<and> a \<le> 0xF4 \<and> cont_byte b
          \<and> (a = 0xF0 \<longrightarrow> 0x90 \<le> b) \<and> (a = 0xF4 \<longrightarrow> b \<le> 0x8F) \<and> cont_byte c \<and> cont_byte d \<and> utf8_valid r4"
        by (auto split: if_splits)
      then have "utf8_step a r = (True, 4)" unfolding r r2 r3 by (intro utf8_step_four) simp_all
      with v r r2 r3 show ?thesis by (intro exI [where x = 3]) simp
    qed
  qed
qed

text \<open>Lossy decoding changes nothing that is UTF-8 already.\<close>

lemma utf8_lossy_valid: "utf8_valid s \<Longrightarrow> utf8_lossy s = s"
proof (induction s rule: utf8_lossy.induct)
  case (2 a r)
  from utf8_valid_step [OF "2.prems"] obtain n where
    n: "utf8_step a r = (True, Suc n)" "utf8_valid (drop n r)" by blast
  with "2.IH" [of True "Suc n"] show ?case by simp
qed simp

section \<open>Laws of the wrapper\<close>

lemma foldl_event_callback: "foldl guestfs_event_callback queue msgs = queue @ msgs"
  by (induction msgs arbitrary: queue) (auto simp: guestfs_event_callback_def)

lemma contains_append: "contains t p \<Longrightarrow> contains (s @ t) p"
proof (induction s)
  case (Cons b s)
  then show ?case by simp
qed simp

lemma contains_iff: "contains s p \<longleftrightarrow> (\<exists>a b. s = a @ p @ b)"
proof
  show "\<exists>a b. s = a @ p @ b \<Longrightarrow> contains s p"
  proof -
    assume "\<exists>a b. s = a @ p @ b"
    then obtain a b where s: "s = a @ p @ b" by blast
    have "contains (p @ b) p"
      by (cases "p @ b") (auto simp: starts_with_iff intro: exI [where x = b] sym)
    with s show ?thesis by (simp add: contains_append)
  qed
next
  show "contains s p \<Longrightarrow> \<exists>a b. s = a @ p @ b"
  proof (induction s)
    case (Cons c s)
    then consider "starts_with (c # s) p" | "contains s p" by auto
    then show ?case
    proof cases
      case 1
      then show ?thesis by (metis append_Nil starts_with_iff)
    next
      case 2
      with Cons.IH show ?thesis by (metis append_Cons)
    qed
  qed simp
qed

end
