(* ===== verification/Remote_Fs.thy ===== *)
theory Remote_Fs
  imports Guestfs Paths Fs
begin

text \<open>
  \<open>src/remote_fs.rs\<close>: a disk that libguestfs has attached, its partitions, and a reader that
  buffers a file of it in chunks. The \<open>Rc<GuestFS>\<close> handle is passed explicitly: a function that uses it returns it
  updated, and a reader carries the handle its own reads go through. \<open>dbg\<close> says whether the program was built with
  overflow checks.
\<close>

section \<open>Definitions\<close>

datatype VirtualRootError = ConfigError rstr | SetupError GuestFSError

record Partition =
  device :: rstr

definition Partition_new :: "rstr \<Rightarrow> Partition" where
  "Partition_new dev = \<lparr>device = dev\<rparr>"

definition Partition_display :: "Partition \<Rightarrow> rstr" where
  "Partition_display p = str ''<Partition: '' @ device p @ str ''>''"

definition Partition_mount_ro :: "'h libguestfs \<Rightarrow> 'h GuestFS \<Rightarrow> Partition \<Rightarrow> rstr \<Rightarrow> (unit, 'h) gfs_result" where
  "Partition_mount_ro lib g p mountpoint = mount_ro lib g (device p) mountpoint"

record Mount =
  mount_partition :: usize
  mountpoint :: rstr

text \<open>\<open>self.partition - 1\<close> on \<open>usize\<close>: partition 0 panics with overflow checks and wraps without.\<close>

definition partition_index :: "bool \<Rightarrow> Mount \<Rightarrow> usize run" where
  "partition_index dbg m =
    (if mount_partition m = 0 then (if dbg then None else Some (usize_modulus - 1))
     else Some (mount_partition m - 1))"

definition mount_suitable :: "bool \<Rightarrow> 'h libguestfs \<Rightarrow> 'h GuestFS \<Rightarrow> Mount \<Rightarrow> Partition list
    \<Rightarrow> ((VirtualRootError + unit) \<times> 'h GuestFS) run" where
  "mount_suitable dbg lib g m available = do {
     i \<leftarrow> partition_index dbg m;
     if i < length available then do {
       (r, g) \<leftarrow> Partition_mount_ro lib g (available ! i) (mountpoint m);
       case r of
         Inl guestfs_error \<Rightarrow> Some (Inl (SetupError guestfs_error), g)
       | Inr _ \<Rightarrow> Some (Inr (), g)
     }
     else Some (Inl (ConfigError (str ''Can't find a config for partition ''
       @ usize_to_string (mount_partition m))), g)
   }"

record FileChunk =
  chunk_buffer :: bytes
  chunk_offset :: usize

definition FileChunk_new :: "bytes \<Rightarrow> FileChunk" where
  "FileChunk_new buf = \<lparr>chunk_buffer = buf, chunk_offset = 0\<rparr>"

definition FileChunk_debug :: "FileChunk \<Rightarrow> rstr" where
  "FileChunk_debug c = str ''<FileChunk '' @ usize_to_string (length (chunk_buffer c)) @ str '', offset ''
     @ usize_to_string (chunk_offset c) @ str ''>''"

definition FileChunk_fill :: "FileChunk \<Rightarrow> bytes \<Rightarrow> (usize \<times> FileChunk \<times> bytes) run" where
  "FileChunk_fill c buf =
    (if length (chunk_buffer c) < chunk_offset c then None
     else let available = drop (chunk_offset c) (chunk_buffer c) in
       if available = [] then Some (0, c, buf)
       else if length available \<le> length buf then
         Some (length available, c\<lparr>chunk_offset := chunk_offset c + length available\<rparr>,
           available @ drop (length available) buf)
       else
         Some (length buf, c\<lparr>chunk_offset := chunk_offset c + length buf\<rparr>, take (length buf) available))"

record 'h FileReader =
  fr_handle :: "'h GuestFS"
  fr_path :: rstr
  file_size :: usize
  current_offset :: usize
  fr_chunk :: FileChunk
  fr_display :: rstr

definition FileReader_display :: "'h FileReader \<Rightarrow> rstr" where
  "FileReader_display f = fr_display f"

definition FileReader_open :: "'h libguestfs \<Rightarrow> 'h GuestFS \<Rightarrow> rstr \<Rightarrow> usize \<Rightarrow> rstr
    \<Rightarrow> ((GuestFSError + 'h FileReader) \<times> 'h GuestFS) run" where
  "FileReader_open lib g path fsize display =
    and_then (read_chunk lib g path 0) (\<lambda>first_chunk g.
      Some (Inr \<lparr>fr_handle = g, fr_path = path, file_size = fsize, current_offset = 0,
                 fr_chunk = FileChunk_new first_chunk, fr_display = display\<rparr>, g))"

definition buffer_new_chunk :: "'h libguestfs \<Rightarrow> 'h FileReader
    \<Rightarrow> ((GuestFSError + bool) \<times> 'h FileReader) run" where
  "buffer_new_chunk lib f = do {
     (r, g) \<leftarrow> read_chunk lib (fr_handle f) (fr_path f) (current_offset f);
     let f = f\<lparr>fr_handle := g\<rparr>;
     case r of
       Inl e \<Rightarrow> Some (Inl e, f)
     | Inr next_chunk \<Rightarrow>
         if next_chunk = [] then Some (Inr False, f)
         else Some (Inr True, f\<lparr>fr_chunk := FileChunk_new next_chunk\<rparr>)
   }"

lemma buffer_new_chunk_True:
  "buffer_new_chunk lib f = Some (Inr True, f') \<Longrightarrow>
    chunk_offset (fr_chunk f') < length (chunk_buffer (fr_chunk f'))
    \<and> current_offset f' = current_offset f \<and> file_size f' = file_size f"
  by (auto simp: buffer_new_chunk_def FileChunk_new_def Let_def split: bind_splits sum.splits if_splits)

lemma FileChunk_fill_0:
  "FileChunk_fill c buf = Some (0, c', buf') \<Longrightarrow> buf \<noteq> [] \<Longrightarrow>
    c' = c \<and> buf' = buf \<and> chunk_offset c = length (chunk_buffer c)"
  by (auto simp: FileChunk_fill_def Let_def split: if_splits)

lemma FileChunk_fill_length:
  "FileChunk_fill c buf = Some (n, c', buf') \<Longrightarrow> length buf' = length buf"
  by (auto simp: FileChunk_fill_def Let_def split: if_splits)

lemma FileChunk_fill_runs:
  "chunk_offset c \<le> length (chunk_buffer c) \<Longrightarrow> \<exists>n c' buf'. FileChunk_fill c buf = Some (n, c', buf')"
  by (simp add: FileChunk_fill_def Let_def)

text \<open>The loop of \<open>read_to\<close>; \<open>n\<close> is \<open>read\<close>. It ends because every second round copies a byte.\<close>

function read_loop :: "'h libguestfs \<Rightarrow> 'h FileReader \<Rightarrow> usize \<Rightarrow> bytes
    \<Rightarrow> ((io_error + usize) \<times> 'h FileReader \<times> bytes) run" where
  "read_loop lib f n buf =
    (if current_offset f < file_size f \<and> n < length buf then
       (case FileChunk_fill (fr_chunk f) (drop n buf) of
          None \<Rightarrow> None
        | Some (copied, c, filled) \<Rightarrow>
           (let f = f\<lparr>fr_chunk := c\<rparr>; buf = take n buf @ filled in
            if copied = 0 then
              (case buffer_new_chunk lib f of
                 None \<Rightarrow> None
               | Some (Inl guestfs_error, f) \<Rightarrow> Some (Inl (io_other (GuestFSError_display guestfs_error)), f, buf)
               | Some (Inr chunk_has_data, f) \<Rightarrow>
                   if \<not> chunk_has_data then Some (Inr n, f, buf)
                   else read_loop lib (f\<lparr>current_offset := current_offset f + copied\<rparr>) (n + copied) buf)
            else read_loop lib (f\<lparr>current_offset := current_offset f + copied\<rparr>) (n + copied) buf))
     else Some (Inr n, f, buf))"
  by pat_completeness auto
termination
proof (relation "measure (\<lambda>(_, f, n, buf). 2 * (length buf - n)
    + (if chunk_offset (fr_chunk f) < length (chunk_buffer (fr_chunk f)) then 0 else 1))", goal_cases)
  case (2 lib f n buf x copied y c filled f1 buf1 z r f2 has)
  then have "FileChunk_fill (fr_chunk f) (drop n buf) = Some (0, c, filled)" by auto
  note fill = FileChunk_fill_0 [OF this] FileChunk_fill_length [OF this]
  from 2 have "buffer_new_chunk lib f1 = Some (Inr True, f2)" by auto
  note new = buffer_new_chunk_True [OF this]
  from 2 fill new show ?case by auto
next
  case (3 lib f n buf x copied y c filled f1 buf1)
  then have "FileChunk_fill (fr_chunk f) (drop n buf) = Some (copied, c, filled)" by auto
  note fill = FileChunk_fill_length [OF this]
  from 3 fill show ?case by auto
qed auto

declare read_loop.simps [simp del]

definition FileReader_read_to :: "'h libguestfs \<Rightarrow> 'h FileReader read_to" where
  "FileReader_read_to lib f buf = read_loop lib f 0 buf"

definition FileReader_get_size :: "'h FileReader get_size" where
  "FileReader_get_size f = (Inr (file_size f), f)"

record 'h ConnectedDisk =
  cd_handle :: "'h GuestFS"
  cd_url :: rstr

definition ConnectedDisk_new :: "'h GuestFS \<Rightarrow> rstr \<Rightarrow> 'h ConnectedDisk" where
  "ConnectedDisk_new g u = \<lparr>cd_handle = g, cd_url = u\<rparr>"

definition ConnectedDisk_display :: "'h libguestfs \<Rightarrow> 'h ConnectedDisk \<Rightarrow> rstr" where
  "ConnectedDisk_display lib d =
    str ''<NBDDisk: '' @ cd_url d @ str '' ['' @ GuestFS_display lib (cd_handle d) @ str '']>''"

definition ConnectedDisk_list_partitions :: "'h libguestfs \<Rightarrow> 'h ConnectedDisk
    \<Rightarrow> ((GuestFSError + Partition list) \<times> 'h ConnectedDisk) run" where
  "ConnectedDisk_list_partitions lib d = do {
     (r, g) \<leftarrow> list_partitions lib (cd_handle d);
     case r of
       Inl e \<Rightarrow> Some (Inl e, d\<lparr>cd_handle := g\<rparr>)
     | Inr partitions \<Rightarrow>
         (let result = map Partition_new partitions;
              (_, g) = retrieve_appliance_stderr g
          in Some (Inr result, d\<lparr>cd_handle := g\<rparr>))
   }"

definition ConnectedDisk_open :: "'h libguestfs \<Rightarrow> 'h ConnectedDisk \<Rightarrow> rstr
    \<Rightarrow> ((io_error + 'h FileReader) \<times> 'h ConnectedDisk) run" where
  "ConnectedDisk_open lib d absolute_path = do {
     (r, g) \<leftarrow> GuestFS_get_size lib (cd_handle d) absolute_path;
     let d = d\<lparr>cd_handle := g\<rparr>;
     case r of
       Inl guestfs_error \<Rightarrow>
         if contains (GuestFSError_display guestfs_error) (str ''No such file or directory'')
         then Some (Inl (io_kind NotFound), d)
         else Some (Inl (io_other (GuestFSError_display guestfs_error)), d)
     | Inr fsize \<Rightarrow> do {
         let display = str ''<'' @ absolute_path @ str '' on '' @ ConnectedDisk_display lib d @ str ''>'';
         (r, g) \<leftarrow> FileReader_open lib (cd_handle d) absolute_path fsize display;
         let d = d\<lparr>cd_handle := g\<rparr>;
         case r of
           Inr file_reader \<Rightarrow> Some (Inr file_reader, d)
         | Inl guestfs_error \<Rightarrow> Some (Inl (io_other (GuestFSError_display guestfs_error)), d)
       }
   }"

record 'h RemoteRoot =
  rr_disk :: "'h ConnectedDisk"
  chroot_path :: rstr

definition RemoteRoot_new :: "'h ConnectedDisk \<Rightarrow> rstr \<Rightarrow> 'h RemoteRoot" where
  "RemoteRoot_new d chroot = \<lparr>rr_disk = d, chroot_path = chroot\<rparr>"

definition RemoteRoot_display :: "'h libguestfs \<Rightarrow> 'h RemoteRoot \<Rightarrow> rstr" where
  "RemoteRoot_display lib root =
    str ''<'' @ str_debug (chroot_path root) @ str '' in '' @ ConnectedDisk_display lib (rr_disk root) @ str ''>''"

definition RemoteRoot_open :: "'h libguestfs \<Rightarrow> 'h RemoteRoot \<Rightarrow> rstr
    \<Rightarrow> ((io_error + 'h FileReader) \<times> 'h RemoteRoot) run" where
  "RemoteRoot_open lib root path = do {
     (r, d) \<leftarrow> ConnectedDisk_open lib (rr_disk root) (path_join (chroot_path root) path);
     case r of
       Inr reader \<Rightarrow> Some (Inr reader, root\<lparr>rr_disk := d\<rparr>)
     | Inl err \<Rightarrow> Some (Inl err, root\<lparr>rr_disk := d\<rparr>)
   }"

section \<open>The contract of an opened file\<close>

lemma read_loop_length:
  "read_loop lib f n buf = Some (r, f', buf') \<Longrightarrow> length buf' = length buf"
proof (induction lib f n buf rule: read_loop.induct)
  case (1 lib f n buf)
  show ?case
  proof (cases "current_offset f < file_size f \<and> n < length buf")
    case False
    with "1.prems" show ?thesis by (auto simp: read_loop.simps [of lib f n buf])
  next
    case True
    with "1.prems" obtain copied c filled where
      fill: "FileChunk_fill (fr_chunk f) (drop n buf) = Some (copied, c, filled)"
      by (auto simp: read_loop.simps [of lib f n buf] split: option.splits)
    from FileChunk_fill_length [OF this] True have len: "length (take n buf @ filled) = length buf" by simp
    from "1.prems" True fill len show ?thesis
      using "1.IH" [OF True fill refl refl refl refl]
      by (auto simp: read_loop.simps [of lib f n buf] Let_def split: if_splits option.splits sum.splits)
  qed
qed

text \<open>libguestfs as documented: reading a file below its end returns some of the bytes there, and the
  handle goes on serving the file.\<close>

coinductive serves :: "'h libguestfs \<Rightarrow> rstr \<Rightarrow> bytes \<Rightarrow> 'h \<Rightarrow> bool"
  for lib :: "'h libguestfs" and path :: rstr and data :: bytes where
  "(\<And>ofs. ofs < length data \<Longrightarrow> \<exists>n msgs h'.
      guestfs_pread lib path CHUNK_SIZE (of_nat ofs) h = (Some (take (Suc n) (drop ofs data)), msgs, h')
      \<and> serves lib path data h') \<Longrightarrow> serves lib path data h"

definition remote_rest :: "bytes \<Rightarrow> 'h FileReader \<Rightarrow> bytes" where
  "remote_rest data f = drop (current_offset f) data"

definition remote_healthy :: "'h libguestfs \<Rightarrow> bytes \<Rightarrow> 'h FileReader \<Rightarrow> bool" where
  "remote_healthy lib data f \<longleftrightarrow>
    file_size f = length data \<and> 0 \<notin> set (fr_path f)
    \<and> serves lib (fr_path f) data (gfs_handle (fr_handle f))
    \<and> chunk_offset (fr_chunk f) \<le> length (chunk_buffer (fr_chunk f))
    \<and> prefix (drop (chunk_offset (fr_chunk f)) (chunk_buffer (fr_chunk f))) (remote_rest data f)"

definition remote_fresh :: "'h FileReader \<Rightarrow> bool" where
  "remote_fresh f \<longleftrightarrow> current_offset f = 0"

lemma servesD:
  assumes "serves lib path data (gfs_handle g)" "ofs < length data" "0 \<notin> set path"
  shows "\<exists>n g'. read_chunk lib g path ofs = Some (Inr (take (Suc n) (drop ofs data)), g')
    \<and> serves lib path data (gfs_handle g')"
proof -
  from assms(1) show ?thesis
  proof cases
    case 1
    from 1 [OF assms(2)] obtain n msgs h' where
      "guestfs_pread lib path CHUNK_SIZE (of_nat ofs) (gfs_handle g) = (Some (take (Suc n) (drop ofs data)), msgs, h')"
      "serves lib path data h'" by blast
    with assms(3) show ?thesis
      by (auto simp: read_chunk_def CString_def foreign_call_def)
  qed
qed

lemma healthy_fill:
  assumes "remote_healthy lib data f" "FileChunk_fill (fr_chunk f) buf = Some (k, c, filled)"
    and "f' = f\<lparr>fr_chunk := c, current_offset := current_offset f + k\<rparr>"
  shows "remote_healthy lib data f' \<and> k \<le> length buf \<and> k \<le> length (remote_rest data f)
    \<and> filled = take k (remote_rest data f) @ drop k buf \<and> remote_rest data f' = drop k (remote_rest data f)"
proof -
  let ?av = "drop (chunk_offset (fr_chunk f)) (chunk_buffer (fr_chunk f))"
  from assms(1) obtain more where more: "remote_rest data f = ?av @ more"
    by (auto simp: remote_healthy_def prefix_def)
  have rest': "remote_rest data f' = drop k (remote_rest data f)"
    by (simp add: assms(3) remote_rest_def add.commute)
  from assms(2) have k: "k = min (length ?av) (length buf)"
    and c: "c = (fr_chunk f)\<lparr>chunk_offset := chunk_offset (fr_chunk f) + k\<rparr>"
    and filled: "filled = take k ?av @ drop k buf"
    by (auto simp: FileChunk_fill_def Let_def split: if_splits)
  have "take k (remote_rest data f) = take k ?av" using more k by simp
  moreover have "prefix (drop k ?av) (remote_rest data f')" using more k rest' by (simp add: prefix_def)
  ultimately show ?thesis
    using assms(1,3) more k c filled rest'
    by (auto simp: remote_healthy_def add.commute)
qed

lemma healthy_new_chunk:
  assumes "remote_healthy lib data f" "current_offset f < length data"
  shows "\<exists>f'. buffer_new_chunk lib f = Some (Inr True, f') \<and> remote_healthy lib data f'
    \<and> current_offset f' = current_offset f"
proof -
  from assms have "serves lib (fr_path f) data (gfs_handle (fr_handle f))" "0 \<notin> set (fr_path f)"
    by (auto simp: remote_healthy_def)
  from servesD [OF this(1) assms(2) this(2)] obtain n g' where
    "read_chunk lib (fr_handle f) (fr_path f) (current_offset f) =
      Some (Inr (take (Suc n) (drop (current_offset f) data)), g')"
    "serves lib (fr_path f) data (gfs_handle g')" by blast
  with assms show ?thesis
    by (auto simp: buffer_new_chunk_def remote_healthy_def remote_rest_def FileChunk_new_def take_is_prefix)
qed

lemma read_loop_delivers:
  assumes "remote_healthy lib data f" "n \<le> length buf"
    and "m = min (length buf - n) (length (remote_rest data f))"
  shows "\<exists>f'. read_loop lib f n buf = Some (Inr (n + m), f', take n buf @ take m (remote_rest data f) @ drop (n + m) buf)
    \<and> remote_healthy lib data f' \<and> remote_rest data f' = drop m (remote_rest data f)"
  using assms
proof (induction lib f n buf arbitrary: m rule: read_loop.induct)
  case (1 lib f n buf)
  let ?r = "remote_rest data f"
  show ?case
  proof (cases "current_offset f < file_size f \<and> n < length buf")
    case False
    with 1 have "m = 0" by (auto simp: remote_rest_def remote_healthy_def)
    with False "1.prems" show ?thesis by (auto simp: read_loop.simps [of lib f n buf])
  next
    case True
    from "1.prems"(1) obtain k c filled where
      fill: "FileChunk_fill (fr_chunk f) (drop n buf) = Some (k, c, filled)"
      using FileChunk_fill_runs [of "fr_chunk f" "drop n buf"] by (auto simp: remote_healthy_def)
    define f1 where "f1 = (f\<lparr>fr_chunk := c\<rparr>)\<lparr>current_offset := current_offset (f\<lparr>fr_chunk := c\<rparr>) + k\<rparr>"
    then have "f1 = f\<lparr>fr_chunk := c, current_offset := current_offset f + k\<rparr>" by simp
    from healthy_fill [OF "1.prems"(1) fill this] have
      inv: "remote_healthy lib data f1" and k: "k \<le> length buf - n" "k \<le> length ?r"
      and filled: "filled = take k ?r @ drop (n + k) buf" and rest': "remote_rest data f1 = drop k ?r"
      by (auto simp: add.commute)
    let ?buf = "take n buf @ filled"
    from k filled have len: "length ?buf = length buf" by simp
    show ?thesis
    proof (cases "k = 0")
      case k0: True
      from k0 fill True have same: "c = fr_chunk f" "?buf = buf"
        using FileChunk_fill_0 [of "fr_chunk f" "drop n buf"] by auto
      have "current_offset f < length data" using True "1.prems"(1) by (simp add: remote_healthy_def)
      from healthy_new_chunk [OF "1.prems"(1) this] obtain f2 where
        f2: "buffer_new_chunk lib f = Some (Inr True, f2)" "remote_healthy lib data f2"
          "current_offset f2 = current_offset f" by blast
      from f2 have r2: "remote_rest data f2 = ?r" by (simp add: remote_rest_def)
      have "read_loop lib f n buf = read_loop lib f2 n buf"
        using True fill k0 same f2 by (simp add: read_loop.simps [of lib f n buf])
      moreover have "buffer_new_chunk lib (f\<lparr>fr_chunk := c\<rparr>) = Some (Inr True, f2)"
        using f2 same by simp
      note "1.IH"(1) [OF True fill refl refl refl refl k0 this refl refl, of m]
      moreover have "f2\<lparr>current_offset := current_offset f\<rparr> = f2" using f2(3) by (cases f2) simp
      ultimately show ?thesis using f2 r2 same k0 "1.prems" by simp
    next
      case False
      define m' where "m' = m - k"
      have m: "m = k + m'" "m' = min (length ?buf - (n + k)) (length (remote_rest data f1))"
        unfolding len rest' using "1.prems"(3) k by (auto simp: m'_def min_def)
      have le: "n + k \<le> length ?buf" using len k True by simp
      have "read_loop lib f n buf = read_loop lib f1 (n + k) ?buf"
        using True fill False by (simp add: read_loop.simps [of lib f n buf] f1_def)
      moreover obtain f' where "read_loop lib f1 (n + k) ?buf = Some (Inr (n + k + m'), f',
          take (n + k) ?buf @ take m' (remote_rest data f1) @ drop (n + k + m') ?buf)"
        "remote_healthy lib data f'" "remote_rest data f' = drop m' (remote_rest data f1)"
        using "1.IH"(2) [OF True fill refl refl refl refl False, folded f1_def, OF inv le m(2)] by blast
      moreover have "take (n + k) ?buf @ take m' (remote_rest data f1) @ drop (n + k + m') ?buf
          = take n buf @ take m ?r @ drop (n + m) buf"
        using m(1) rest' k filled True by (simp add: take_add add.commute add.left_commute)
      ultimately show ?thesis
        using m(1) rest' by (auto simp: add.commute add.left_commute)
    qed
  qed
qed

interpretation remote_file: opened_file "FileReader_read_to lib" FileReader_get_size
  "remote_rest data" "remote_healthy lib data" remote_fresh for lib data
proof unfold_locales
  fix f r f' and buf buf' :: bytes
  assume "FileReader_read_to lib f buf = Some (r, f', buf')"
  then show "length buf' = length buf" unfolding FileReader_read_to_def by (rule read_loop_length)
next
  fix f n and buf :: bytes
  assume "remote_healthy lib data f" "n = min (length buf) (length (remote_rest data f))"
  then show "\<exists>f'. FileReader_read_to lib f buf = Some (Inr n, f', take n (remote_rest data f) @ drop n buf)
      \<and> remote_healthy lib data f' \<and> remote_rest data f' = drop n (remote_rest data f)"
    using read_loop_delivers [of lib data f 0 buf n] by (simp add: FileReader_read_to_def)
next
  fix f
  assume "remote_healthy lib data f" "remote_fresh f"
  then show "\<exists>f'. FileReader_get_size f = (Inr (length (remote_rest data f)), f')
      \<and> remote_healthy lib data f' \<and> remote_fresh f' \<and> remote_rest data f' = remote_rest data f"
    by (simp add: FileReader_get_size_def remote_healthy_def remote_fresh_def remote_rest_def)
qed

text \<open>A reader does not panic when its path has no NUL and libguestfs reports its errors in UTF-8, whatever the library's
  calls return.\<close>

definition remote_safe :: "'h libguestfs \<Rightarrow> 'h FileReader \<Rightarrow> bool" where
  "remote_safe lib f \<longleftrightarrow> 0 \<notin> set (fr_path f) \<and> file_size f < usize_modulus
    \<and> chunk_offset (fr_chunk f) \<le> length (chunk_buffer (fr_chunk f))
    \<and> (\<forall>h m. guestfs_last_error lib h = Some m \<longrightarrow> utf8_valid m)"

lemma buffer_new_chunk_safe:
  assumes "remote_safe lib f"
  shows "\<exists>r f'. buffer_new_chunk lib f = Some (r, f') \<and> remote_safe lib f'"
proof -
  from assms have "0 \<notin> set (fr_path f)" "\<And>h. get_last_error lib h \<noteq> None"
    by (auto simp: remote_safe_def get_last_error_def split: option.splits)
  then obtain r g where "read_chunk lib (fr_handle f) (fr_path f) (current_offset f) = Some (r, g)"
    by (cases "foreign_call (guestfs_pread lib (fr_path f) CHUNK_SIZE (of_nat (current_offset f))) (fr_handle f)")
      (fastforce simp: read_chunk_def CString_def split: option.splits)
  with assms show ?thesis
    by (cases r) (auto simp: buffer_new_chunk_def remote_safe_def FileChunk_new_def Let_def)
qed

lemma FileChunk_fill_safe:
  "remote_safe lib f \<Longrightarrow> FileChunk_fill (fr_chunk f) buf = Some (k, c, filled) \<Longrightarrow>
    remote_safe lib (f\<lparr>fr_chunk := c, current_offset := n\<rparr>)"
  by (auto simp: remote_safe_def FileChunk_fill_def Let_def split: if_splits)

lemma read_loop_safe:
  "remote_safe lib f \<Longrightarrow> \<exists>r f' buf'. read_loop lib f n buf = Some (r, f', buf') \<and> remote_safe lib f'"
proof (induction lib f n buf rule: read_loop.induct)
  case (1 lib f n buf)
  show ?case
  proof (cases "current_offset f < file_size f \<and> n < length buf")
    case False
    with "1.prems" show ?thesis by (auto simp: read_loop.simps [of lib f n buf])
  next
    case True
    from "1.prems" obtain k c filled where fill: "FileChunk_fill (fr_chunk f) (drop n buf) = Some (k, c, filled)"
      using FileChunk_fill_runs [of "fr_chunk f" "drop n buf"] by (auto simp: remote_safe_def)
    have safe: "remote_safe lib (f\<lparr>fr_chunk := c\<rparr>)" "remote_safe lib (f\<lparr>fr_chunk := c, current_offset := current_offset f + k\<rparr>)"
      using FileChunk_fill_safe [OF "1.prems" fill, of "current_offset f"] FileChunk_fill_safe [OF "1.prems" fill]
      by (simp_all add: remote_safe_def)
    obtain r2 f2 where new: "buffer_new_chunk lib (f\<lparr>fr_chunk := c\<rparr>) = Some (r2, f2)" "remote_safe lib f2"
      using buffer_new_chunk_safe [OF safe(1)] by blast
    then have f2: "remote_safe lib (f2\<lparr>current_offset := m\<rparr>)" for m by (simp add: remote_safe_def)
    show ?thesis
      using True fill new f2 safe(2) "1.IH" [OF True fill refl refl refl refl]
      by (cases "k = 0"; cases r2) (auto simp: read_loop.simps [of lib f n buf] Let_def)
  qed
qed

interpretation remote_total: total_file "FileReader_read_to lib" FileReader_get_size "remote_safe lib" for lib
proof unfold_locales
  show "\<exists>r f' buf'. FileReader_read_to lib f buf = Some (r, f', buf') \<and> remote_safe lib f'" if "remote_safe lib f" for f buf
    unfolding FileReader_read_to_def using that by (rule read_loop_safe)
  show "remote_safe lib f' \<and> (\<forall>n. r = Inr n \<longrightarrow> n < usize_modulus)"
    if "remote_safe lib f" "FileReader_get_size f = (r, f')" for f r f'
    using that by (auto simp: FileReader_get_size_def remote_safe_def)
qed

section \<open>Opening\<close>

text \<open>Opening a file that libguestfs serves gives a reader at its start.\<close>

lemma ConnectedDisk_open_served:
  assumes "guestfs_stat_of lib path (gfs_handle (cd_handle d)) = (Some s, msgs, h1)"
    and "unat (st_size s) = length data"
    and "guestfs_pread lib path CHUNK_SIZE 0 h1 = (Some (take n data), msgs2, h2)"
    and "serves lib path data h2" "0 \<notin> set path"
  shows "\<exists>f d'. ConnectedDisk_open lib d path = Some (Inr f, d')
    \<and> remote_healthy lib data f \<and> remote_fresh f \<and> remote_rest data f = data"
  using assms
  by (simp add: ConnectedDisk_open_def GuestFS_get_size_def CString_def foreign_call_def FileReader_open_def
      and_then_def read_chunk_def FileChunk_new_def remote_healthy_def remote_fresh_def remote_rest_def
      take_is_prefix Let_def)

lemma not_found_text_plain:
  "concat (map debug_escape_byte (str ''No such file or directory'')) = str ''No such file or directory''"
  by code_simp

lemma not_found_displayed:
  assumes "contains m (str ''No such file or directory'')"
  shows "contains (GuestFSError_display (Generic m)) (str ''No such file or directory'')"
proof -
  let ?p = "str ''No such file or directory''" and ?e = "\<lambda>s. concat (map debug_escape_byte s)"
  from assms obtain a b where "m = a @ ?p @ b" by (auto simp: contains_iff)
  then have "GuestFSError_display (Generic m)
      = (str ''<GuestFSError: '' @ str ''Generic('' @ [34] @ ?e a) @ ?p @ (?e b @ [34] @ str '')'' @ str ''>'')"
    by (simp add: GuestFSError_display_def str_debug_def not_found_text_plain)
  then show ?thesis unfolding contains_iff by blast
qed

lemma ConnectedDisk_open_not_found:
  assumes "guestfs_stat_of lib path (gfs_handle (cd_handle d)) = (None, msgs, h)"
    and "guestfs_last_error lib h = Some m" "utf8_valid m" "contains m (str ''No such file or directory'')"
    and "0 \<notin> set path"
  shows "\<exists>d'. ConnectedDisk_open lib d path = Some (Inl (io_kind NotFound), d')"
  using assms not_found_displayed [OF assms(4)]
  by (simp add: ConnectedDisk_open_def GuestFS_get_size_def CString_def foreign_call_def get_last_error_def Let_def)

end
