(* ===== verification/Peer_Window.thy ===== *)
theory Peer_Window
  imports Datagram_Stream Local_Fs Remote_Fs
begin

text \<open>
  \<open>Window\<close> of \<open>src/peer_handler/mod.rs\<close>: the ring of reusable datagram buffers of a transfer.
  A buffer is a \<open>Vec<u8>\<close> whose memory outlives truncation (\<open>buffer\<close> restores the full length
  with \<open>set_len(capacity)\<close>), so a vector is its memory and its current length. Block \<open>index\<close>
  lives in the slot \<open>index % window_length\<close>. Vectors built by \<open>vec!\<close> and by collecting a range have exactly the capacity
  they ask for.
\<close>

section \<open>Definitions\<close>

definition DATA :: u16 where "DATA = 0x03"

record Vec8 =
  mem :: bytes
  vlen :: nat

definition vec_content :: "Vec8 \<Rightarrow> bytes" where
  "vec_content v = take (vlen v) (mem v)"

definition vec_truncate :: "nat \<Rightarrow> Vec8 \<Rightarrow> Vec8" where
  "vec_truncate n v = v\<lparr>vlen := min n (vlen v)\<rparr>"

record Window =
  win_block_size :: u16
  buffers :: "Vec8 list"
  buffers_capacity :: nat

definition Window_new :: "u16 \<Rightarrow> u16 \<Rightarrow> Window" where
  "Window_new bs ws =
    \<lparr>win_block_size = bs,
     buffers = map (\<lambda>_. \<lparr>mem = replicate (unat bs + 2 * 2) 0,
                          vlen = unat bs + 2 * 2\<rparr>) [0..<unat ws],
     buffers_capacity = unat ws\<rparr>"

definition Window_size :: "Window \<Rightarrow> u16" where
  "Window_size w = of_nat (buffers_capacity w)"

text \<open>The slot of an idx; \<open>None\<close> is the panic of \<open>% 0\<close>.\<close>

definition slot :: "Window \<Rightarrow> u16 \<Rightarrow> nat run" where
  "slot w idx = (if buffers w = [] then None else Some (unat idx mod length (buffers w)))"

definition Window_buffer :: "Window \<Rightarrow> u16 \<Rightarrow> (nat \<times> Vec8) run" where
  "Window_buffer w idx = do {
     i \<leftarrow> slot w idx;
     let v = buffers w ! i;
     Some (i, v\<lparr>vlen := length (mem v)\<rparr>)
   }"

definition push_block :: "'f read_to \<Rightarrow> Window \<Rightarrow> 'f \<Rightarrow> u16
    \<Rightarrow> ((io_error + usize \<times> bool) \<times> 'f \<times> Window) run" where
  "push_block read_to w file idx = do {
     (i, v) \<leftarrow> Window_buffer w idx;
     if length (mem v) < 4 then None
     else do {
       let header = [0, ucast DATA, ucast (drop_bit 8 idx), ucast idx];
       (r, f, b) \<leftarrow> read_to file (drop 4 (mem v));
       case r of
         Inl e \<Rightarrow> Some (Inl e, f, w\<lparr>buffers := (buffers w)[i := v\<lparr>mem := header @ b\<rparr>]\<rparr>)
       | Inr read_bytes \<Rightarrow>
           Some (Inr (read_bytes, read_bytes < unat (win_block_size w)), f,
             w\<lparr>buffers := (buffers w)[i := vec_truncate (read_bytes + 4) (v\<lparr>mem := header @ b\<rparr>)]\<rparr>)
     }
   }"

definition Window_send :: "Window \<Rightarrow> u16 \<Rightarrow> DatagramStream
    \<Rightarrow> ((io_error + unit) \<times> DatagramStream) run" where
  "Window_send w idx st = do {
     i \<leftarrow> slot w idx;
     Some (stream_send st (vec_content (buffers w ! i)))
   }"

text \<open>The DATA packet of the protocol: block \<open>k\<close> (from 1) of a file cut into blocks of \<open>bs\<close> bytes.\<close>

definition chunk :: "bytes \<Rightarrow> nat \<Rightarrow> nat \<Rightarrow> bytes" where
  "chunk file bs k = take bs (drop ((k - 1) * bs) file)"

definition data_packet :: "bytes \<Rightarrow> nat \<Rightarrow> nat \<Rightarrow> bytes" where
  "data_packet file bs k = be_bytes DATA @ be_bytes (of_nat k) @ chunk file bs k"

definition block_count :: "bytes \<Rightarrow> nat \<Rightarrow> nat" where
  "block_count file bs = length file div bs + 1"

text \<open>Well-formedness: every slot has memory for a header and a full block.\<close>

definition window_wf :: "Window \<Rightarrow> bool" where
  "window_wf w \<longleftrightarrow> buffers w \<noteq> [] \<and> length (buffers w) < 65536
    \<and> buffers_capacity w = length (buffers w)
    \<and> (\<forall>v \<in> set (buffers w). length (mem v) = unat (win_block_size w) + 4)"

definition slot_content :: "Window \<Rightarrow> nat \<Rightarrow> bytes" where
  "slot_content w i = vec_content (buffers w ! i)"

section \<open>Laws of the window\<close>

lemma be_bytes_DATA [simp]: "be_bytes DATA = [0, 3]"
  by (simp add: be_bytes_def DATA_def)

lemma length_be_header: "length (be_bytes DATA @ be_bytes k) = 4"
  by (simp add: be_bytes_def)

lemma window_wf_new: "0 < ws \<Longrightarrow> window_wf (Window_new bs ws)"
  by (auto simp: window_wf_def Window_new_def unat_gt_0)

lemma Window_new_sizes [simp]:
  "length (buffers (Window_new bs ws)) = unat ws"
  "win_block_size (Window_new bs ws) = bs"
  "Window_size (Window_new bs ws) = ws"
  by (simp_all add: Window_new_def Window_size_def)

lemma unat_Window_size: "window_wf w \<Longrightarrow> unat (Window_size w) = length (buffers w)"
  by (simp add: window_wf_def Window_size_def unat_of_nat_u16)

lemma push_block_frame:
  "push_block read_to w f idx = Some (r, f', w') \<Longrightarrow>
    win_block_size w' = win_block_size w \<and> buffers_capacity w' = buffers_capacity w
    \<and> length (buffers w') = length (buffers w)"
  by (auto simp: push_block_def Window_buffer_def slot_def Let_def
      split: if_splits prod.splits sum.splits bind_splits)

lemma Window_size_push_block:
  "push_block read_to w f idx = Some (r, f', w') \<Longrightarrow> Window_size w' = Window_size w"
  by (simp add: Window_size_def push_block_frame)

lemma Window_send_wf:
  "window_wf w \<Longrightarrow> Window_send w idx st =
    Some (stream_send st (slot_content w (unat idx mod length (buffers w))))"
  by (simp add: Window_send_def slot_def window_wf_def slot_content_def)

lemma window_wf_update:
  assumes "window_wf w" "length (mem v) = unat (win_block_size w) + 4"
  shows "window_wf (w\<lparr>buffers := (buffers w)[i := v]\<rparr>)"
  using assms set_update_subset_insert [of "buffers w" i v] by (auto simp: window_wf_def)

context readable begin

text \<open>A block can be read into every slot: only the read itself may panic. The window stays well-formed whatever the
  read returns.\<close>

lemma push_block_wf:
  assumes "window_wf w"
  shows "\<exists>buf. case read_to f buf of
      None \<Rightarrow> push_block read_to w f idx = None
    | Some (_, f', _) \<Rightarrow> \<exists>r w'. push_block read_to w f idx = Some (r, f', w') \<and> window_wf w'"
proof (rule exI)
  define i where "i = unat idx mod length (buffers w)"
  from assms have sl: "slot w idx = Some i" and lt: "i < length (buffers w)"
    by (auto simp: slot_def window_wf_def i_def)
  define m where "m = mem (buffers w ! i)"
  from assms lt have m: "length m = unat (win_block_size w) + 4"
    by (simp add: window_wf_def m_def)
  show "case read_to f (drop 4 (mem (buffers w ! (unat idx mod length (buffers w))))) of
      None \<Rightarrow> push_block read_to w f idx = None
    | Some (_, f', _) \<Rightarrow> \<exists>r w'. push_block read_to w f idx = Some (r, f', w') \<and> window_wf w'"
    unfolding i_def [symmetric] m_def [symmetric]
  proof (cases "read_to f (drop 4 m)")
    case None
    with sl m show "case read_to f (drop 4 m) of
        None \<Rightarrow> push_block read_to w f idx = None
      | Some (_, f', _) \<Rightarrow> \<exists>r w'. push_block read_to w f idx = Some (r, f', w') \<and> window_wf w'"
      by (simp add: push_block_def Window_buffer_def m_def [symmetric])
  next
    case (Some y)
    obtain r f' b where rd: "read_to f (drop 4 m) = Some (r, f', b)" using Some prod_cases3 by metis
    from read_to_length [OF rd] m have "length b = unat (win_block_size w)" by simp
    with sl m rd assms show "case read_to f (drop 4 m) of
        None \<Rightarrow> push_block read_to w f idx = None
      | Some (_, f', _) \<Rightarrow> \<exists>r w'. push_block read_to w f idx = Some (r, f', w') \<and> window_wf w'"
      by (cases r) (auto simp: push_block_def Window_buffer_def Let_def m_def [symmetric]
        vec_truncate_def intro!: window_wf_update)
  qed
qed

lemma push_block_keeps_wf:
  "window_wf w \<Longrightarrow> push_block read_to w f idx = Some (r, f', w') \<Longrightarrow> window_wf w'"
  using push_block_wf [of w f idx] by (auto split: option.splits)

end

text \<open>Reading a block from a healthy file fills the slot of its index with the DATA packet of
  that index and leaves the other slots alone.\<close>

context opened_file begin

lemma push_block_healthy:
  assumes wf: "window_wf w" and f: "healthy f" and bs: "bs = unat (win_block_size w)"
    and i: "i = unat idx mod length (buffers w)"
  shows "\<exists>f' w'. push_block read_to w f idx
      = Some (Inr (min bs (length (rest f)), length (rest f) < bs), f', w')
    \<and> healthy f' \<and> rest f' = drop bs (rest f) \<and> window_wf w'
    \<and> slot_content w' i = be_bytes DATA @ be_bytes idx @ take bs (rest f)
    \<and> (\<forall>j. j \<noteq> i \<longrightarrow> slot_content w' j = slot_content w j)"
proof -
  from wf have ne: "buffers w \<noteq> []" by (simp add: window_wf_def)
  with i have lt: "i < length (buffers w)" by simp
  define m where "m = mem (buffers w ! i)"
  from wf lt bs have m: "length m = bs + 4"
    by (simp add: window_wf_def m_def)
  define n where "n = min bs (length (rest f))"
  from read_to_delivers [OF f, of n "drop 4 m"] m obtain f' where
    r: "read_to f (drop 4 m) = Some (Inr n, f', take n (rest f) @ drop n (drop 4 m))"
    and f': "healthy f'" "rest f' = drop n (rest f)"
    by (auto simp: n_def)
  define v where "v = vec_truncate (n + 4) \<lparr>mem = [0, ucast DATA, ucast (drop_bit 8 idx), ucast idx]
      @ take n (rest f) @ drop n (drop 4 m), vlen = bs + 4\<rparr>"
  define w' where "w' = w\<lparr>buffers := (buffers w)[i := v]\<rparr>"
  have upd: "(buffers w ! i)\<lparr>vlen := a, mem := b\<rparr> = \<lparr>mem = b, vlen = a\<rparr>" for a b
    by (cases "buffers w ! i") simp
  have "slot w idx = Some i" using ne i by (simp add: slot_def)
  then have "push_block read_to w f idx = Some (Inr (n, n < bs), f', w')"
    using r m bs
    by (simp add: push_block_def Window_buffer_def Let_def m_def [symmetric] upd v_def w'_def)
  moreover have "n < bs \<longleftrightarrow> length (rest f) < bs" by (auto simp: n_def)
  moreover have "rest f' = drop bs (rest f)" by (auto simp: f'(2) n_def min_def)
  moreover have "window_wf w'"
    unfolding w'_def using wf m bs
    by (intro window_wf_update) (auto simp: v_def vec_truncate_def n_def)
  moreover have "slot_content w' i = be_bytes DATA @ be_bytes idx @ take bs (rest f)"
    using lt by (auto simp: slot_content_def vec_content_def w'_def v_def vec_truncate_def n_def
        be_bytes_def DATA_def min_def)
  moreover have "\<forall>j. j \<noteq> i \<longrightarrow> slot_content w' j = slot_content w j"
    by (simp add: slot_content_def w'_def)
  ultimately show ?thesis using f'(1) by (auto simp: n_def)
qed

end

end
