(* ===== verification/Peer_Transfer.thy ===== *)
theory Peer_Transfer
  imports Peer_Window
begin

text \<open>
  One download session of \<open>src/peer_handler/mod.rs\<close>: sending an error, reading an
  acknowledgement, sending a window until it is acknowledged, the whole file, the option
  negotiation and \<open>send\<close>, which puts them together. Every function takes the stream and the
  session's receive buffer and returns them updated; \<open>None\<close> is a panic. \<open>dbg\<close> says whether the
  program was built with debug assertions.
\<close>

section \<open>Definitions\<close>

definition ACK :: u16 where "ACK = 0x04"
definition SEND_ATTEMPTS :: u16 where "SEND_ATTEMPTS = 5"

datatype SendError = SendNetwork | SendTimeout | SendClientError u16 rstr | SendACKError
datatype RecvError = RecvNetwork | RecvTimeout | RecvClientError u16 rstr | RecvACKError

definition fire_error :: "TFTPError \<Rightarrow> DatagramStream \<Rightarrow> bytes \<Rightarrow> (DatagramStream \<times> bytes) run" where
  "fire_error error st buf = do {
     (r, buf) \<leftarrow> TFTPError_serialize error buf;
     case r of
       Inr to_send \<Rightarrow> Some (snd (stream_send st (take to_send buf)), buf)
     | Inl _ \<Rightarrow> Some (st, buf)
   }"

text \<open>The part of \<open>read_acknowledge\<close> that interprets the buffer after a datagram arrived.\<close>

definition parse_acknowledge :: "bytes \<Rightarrow> RecvError + u16" where
  "parse_acknowledge buf =
    (case extract_ushort (ReadCursor_new buf) of
       (Inl _, _) \<Rightarrow> Inl RecvACKError
     | (Inr opcode, cursor) \<Rightarrow>
        if opcode = ACK then
          (case extract_ushort cursor of
             (Inl _, _) \<Rightarrow> Inl RecvACKError
           | (Inr n, _) \<Rightarrow> Inr n)
        else if opcode = ERROR then
          (case extract_ushort cursor of
             (Inl _, _) \<Rightarrow> Inl RecvACKError
           | (Inr error_code, cursor) \<Rightarrow>
              (case extract_string cursor of
                 (Inl _, _) \<Rightarrow> Inl RecvACKError
               | (Inr error_message, _) \<Rightarrow> Inl (RecvClientError error_code error_message)))
        else Inl RecvACKError)"

definition read_acknowledge :: "DatagramStream \<Rightarrow> bytes \<Rightarrow> AckTimeout
    \<Rightarrow> (RecvError + u16) \<times> DatagramStream \<times> bytes" where
  "read_acknowledge st buf t =
    (case recv_timeout t st buf 4 of
       (Inl _, st, buf) \<Rightarrow> (Inl RecvTimeout, st, buf)
     | (Inr (Inl _), st, buf) \<Rightarrow> (Inl RecvNetwork, st, buf)
     | (Inr (Inr _), st, buf) \<Rightarrow> (parse_acknowledge buf, st, buf))"

fun send_blocks :: "Window \<Rightarrow> DatagramStream \<Rightarrow> u16 list
    \<Rightarrow> ((io_error + unit) \<times> DatagramStream) run" where
  "send_blocks w st [] = Some (Inr (), st)"
| "send_blocks w st (block_index # rest) = do {
     (r, st) \<leftarrow> Window_send w block_index st;
     case r of
       Inl e \<Rightarrow> Some (Inl e, st)
     | Inr _ \<Rightarrow> send_blocks w st rest
   }"

definition window_indices :: "u16 \<Rightarrow> u16 \<Rightarrow> u16 list" where
  "window_indices window_index count = map (\<lambda>v. window_index + of_nat v) [0..<unat count]"

text \<open>\<open>send_attempts n\<close> are the last \<open>n\<close> rounds of the loop of \<open>send_reliably\<close>.\<close>

fun send_attempts :: "nat \<Rightarrow> Window \<Rightarrow> AckTimeout \<Rightarrow> DatagramStream \<Rightarrow> bytes \<Rightarrow> u16 \<Rightarrow> u16
    \<Rightarrow> ((SendError + u16) \<times> DatagramStream \<times> bytes) run" where
  "send_attempts 0 w t st buf window_index count = Some (Inl SendTimeout, st, buf)"
| "send_attempts (Suc n) w t st buf window_index count = do {
     (r, st) \<leftarrow> send_blocks w st (window_indices window_index count);
     case r of
       Inl _ \<Rightarrow> Some (Inl SendNetwork, st, buf)
     | Inr _ \<Rightarrow>
        (case read_acknowledge st buf t of
           (Inr received_ack, st, buf) \<Rightarrow>
             if window_index \<le> received_ack then Some (Inr received_ack, st, buf)
             else do {
               (st, buf) \<leftarrow> fire_error (undefined_error ''Received ACK from the past'') st buf;
               Some (Inl SendACKError, st, buf)
             }
         | (Inl RecvTimeout, st, buf) \<Rightarrow> send_attempts n w t st buf window_index count
         | (Inl (RecvClientError error_code error_message), st, buf) \<Rightarrow>
             Some (Inl (SendClientError error_code error_message), st, buf)
         | (Inl _, st, buf) \<Rightarrow> Some (Inl SendNetwork, st, buf))
   }"

definition send_reliably :: "Window \<Rightarrow> AckTimeout \<Rightarrow> DatagramStream \<Rightarrow> bytes \<Rightarrow> u16 \<Rightarrow> u16
    \<Rightarrow> ((SendError + u16) \<times> DatagramStream \<times> bytes) run" where
  "send_reliably w t st buf window_index count =
    send_attempts (unat SEND_ATTEMPTS) w t st buf window_index count"

text \<open>The local variables of \<open>send_file\<close>.\<close>

record 'f xfer =
  xf_file :: 'f
  xf_window :: Window
  xf_stream :: DatagramStream
  xf_buffer :: bytes
  bytes_sent :: usize
  blocks_sent :: usize
  last_acknowledged_index :: u16
  last_read_index :: u16

text \<open>The inner loop of \<open>send_file\<close>: read blocks until the window is full or the file ends. It
  returns \<open>to_send\<close> and \<open>done\<close>.\<close>

function fill_window :: "'f read_to \<Rightarrow> 'f xfer \<Rightarrow> u16
    \<Rightarrow> ((TFTPError + u16 \<times> bool) \<times> 'f xfer) run" where
  "fill_window read_to x to_send =
    (if to_send < Window_size (xf_window x) then
       (let x = x\<lparr>last_read_index := last_read_index x + 1\<rparr> in
        case push_block read_to (xf_window x) (xf_file x) (last_read_index x) of
          None \<Rightarrow> None
        | Some (Inr (read_bytes, is_last), f, w) \<Rightarrow>
            (let x = x\<lparr>xf_file := f, xf_window := w, bytes_sent := bytes_sent x + read_bytes\<rparr> in
             if is_last then Some (Inr (to_send + 1, True), x)
             else fill_window read_to x (to_send + 1))
        | Some (Inl _, f, w) \<Rightarrow>
            Some (Inl (undefined_error ''Read file error occurred''), x\<lparr>xf_file := f, xf_window := w\<rparr>))
     else Some (Inr (to_send, False), x))"
  by pat_completeness auto
termination
proof (relation "measure (\<lambda>(_, x, to_send). unat (Window_size (xf_window x)) - unat to_send)",
    goal_cases)
  case (2 read_to x to_send x1 y r rest1 rb rbytes is_last f w x2)
  then have "Window_size w = Window_size (xf_window x)"
    by (auto dest!: Window_size_push_block)
  moreover from 2 have "unat (to_send + 1) = Suc (unat to_send)"
    "unat to_send < unat (Window_size (xf_window x))"
    using unat_u16_Suc by (auto simp: word_less_nat_alt)
  ultimately show ?case using 2 by simp
qed simp

declare fill_window.simps [simp del]

text \<open>What the sending functions keep of the stream. A round that ends with an acknowledgement has
  consumed at least one event, which is what makes the outer loop of \<open>send_file\<close> finite.\<close>

lemma fire_error_frame:
  assumes "fire_error e st buf = Some (st', buf')"
  shows "inbox st' = inbox st \<and> peer_address st' = peer_address st \<and> waited st' = waited st
    \<and> length buf' = length buf"
proof (cases "error_size e < length buf")
  case True
  from serialize_success [OF this] assms show ?thesis
    by (auto simp: fire_error_def stream_send_frame)
next
  case False
  then have "length buf < error_size e"
    using assms serialize_panics [of buf e] by (auto simp: fire_error_def not_less le_less)
  from serialize_too_small [OF this] assms show ?thesis
    by (auto simp: fire_error_def)
qed

lemma read_acknowledge_frame:
  assumes "read_acknowledge st buf t = (r, st', buf')"
  shows "peer_address st' = peer_address st \<and> send_results st' = send_results st
    \<and> outbox st' = outbox st \<and> length buf' = length buf
    \<and> length (inbox st') \<le> length (inbox st)
    \<and> (r \<noteq> Inl RecvTimeout \<longrightarrow> length (inbox st') < length (inbox st))"
proof -
  obtain r1 st1 b1 where e: "recv_timeout t st buf 4 = (r1, st1, b1)"
    using prod_cases3 by blast
  with assms recv_timeout_frame [OF e] show ?thesis
    by (auto simp: read_acknowledge_def split: sum.splits)
qed

lemma send_blocks_frame:
  "send_blocks w st idxs = Some (r, st') \<Longrightarrow>
    inbox st' = inbox st \<and> peer_address st' = peer_address st \<and> waited st' = waited st"
proof (induction idxs arbitrary: st)
  case (Cons i idxs)
  then obtain r1 st1 where s: "Window_send w i st = Some (r1, st1)"
    by (auto split: bind_splits)
  then have "inbox st1 = inbox st \<and> peer_address st1 = peer_address st \<and> waited st1 = waited st"
    by (auto simp: Window_send_def split: bind_splits)
      (metis snd_conv stream_send_frame)+
  with Cons s show ?case by (auto split: sum.splits)
qed simp

lemma send_attempts_shrinks:
  "send_attempts n w t st buf wi count = Some (r, st', buf') \<Longrightarrow>
    length (inbox st') \<le> length (inbox st) \<and> length buf' = length buf
    \<and> peer_address st' = peer_address st
    \<and> (r \<noteq> Inl SendTimeout \<and> r \<noteq> Inl SendNetwork \<longrightarrow> length (inbox st') < length (inbox st))"
proof (induction n arbitrary: st buf)
  case (Suc n)
  then obtain r1 st1 where s: "send_blocks w st (window_indices wi count) = Some (r1, st1)"
    by (auto split: bind_splits)
  note f1 = send_blocks_frame [OF s]
  obtain r2 st2 b2 where a: "read_acknowledge st1 buf t = (r2, st2, b2)"
    using prod_cases3 by blast
  note f2 = read_acknowledge_frame [OF a]
  show ?case
  proof (cases "r1 = Inr () \<and> r2 = Inl RecvTimeout")
    case True
    with Suc.prems s a have "send_attempts n w t st2 b2 wi count = Some (r, st', buf')"
      by simp
    from Suc.IH [OF this] f1 f2 show ?thesis by auto
  next
    case False
    with Suc.prems s a f1 f2 show ?thesis
      by (auto split: sum.splits RecvError.splits if_splits bind_splits dest!: fire_error_frame)
  qed
qed simp

lemma send_reliably_shrinks:
  "send_reliably w t st buf wi count = Some (Inr ack, st', buf') \<Longrightarrow>
    length (inbox st') < length (inbox st)"
  unfolding send_reliably_def using send_attempts_shrinks by blast

text \<open>Induction along the reads of the inner loop.\<close>

definition after_read :: "'f xfer \<Rightarrow> nat \<Rightarrow> 'f \<Rightarrow> Window \<Rightarrow> 'f xfer" where
  "after_read x k f w = x\<lparr>last_read_index := last_read_index x + 1, xf_file := f, xf_window := w,
     bytes_sent := bytes_sent x + k\<rparr>"

lemma fill_window_induct [case_names read]:
  assumes "\<And>x to_send. (\<And>k f w. to_send < Window_size (xf_window x) \<Longrightarrow>
      push_block read_to (xf_window x) (xf_file x) (last_read_index x + 1) = Some (Inr (k, False), f, w) \<Longrightarrow>
      P (after_read x k f w) (to_send + 1)) \<Longrightarrow> P x to_send"
  shows "P x to_send"
proof (induction "unat (Window_size (xf_window x)) - unat to_send" arbitrary: x to_send
    rule: less_induct)
  case less
  show ?case
  proof (rule assms)
    fix k f w
    assume lt: "to_send < Window_size (xf_window x)"
      and p: "push_block read_to (xf_window x) (xf_file x) (last_read_index x + 1)
        = Some (Inr (k, False), f, w)"
    from Window_size_push_block [OF p] have "Window_size (xf_window (after_read x k f w))
        = Window_size (xf_window x)" by (simp add: after_read_def)
    with unat_u16_Suc [OF lt] lt show "P (after_read x k f w) (to_send + 1)"
      by (intro less) (simp add: word_less_nat_alt)
  qed
qed

text \<open>One round of the inner loop, by what the read returned.\<close>

lemma fill_window_full:
  "\<not> to_send < Window_size (xf_window x) \<Longrightarrow> fill_window read_to x to_send = Some (Inr (to_send, False), x)"
  by (simp add: fill_window.simps)

lemma fill_window_read:
  assumes "to_send < Window_size (xf_window x)"
    and "push_block read_to (xf_window x) (xf_file x) (last_read_index x + 1) = Some (Inr (k, is_last), f, w)"
  shows "fill_window read_to x to_send =
    (if is_last then Some (Inr (to_send + 1, True), after_read x k f w)
     else fill_window read_to (after_read x k f w) (to_send + 1))"
  using assms by (simp add: fill_window.simps [of read_to x] after_read_def)

lemma fill_window_other:
  assumes "to_send < Window_size (xf_window x)"
    and "\<And>v f w. push_block read_to (xf_window x) (xf_file x) (last_read_index x + 1) \<noteq> Some (Inr v, f, w)"
  shows "fill_window read_to x to_send = None \<or>
    (\<exists>f w e. push_block read_to (xf_window x) (xf_file x) (last_read_index x + 1) = Some (Inl e, f, w)
      \<and> fill_window read_to x to_send = Some (Inl (undefined_error ''Read file error occurred''),
          x\<lparr>last_read_index := last_read_index x + 1, xf_file := f, xf_window := w\<rparr>))"
proof (cases "push_block read_to (xf_window x) (xf_file x) (last_read_index x + 1)")
  case (Some y)
  obtain r f w where y: "y = (r, f, w)" using prod_cases3 by blast
  with assms(2) Some obtain e where "r = Inl e" by (cases r) auto
  with assms(1) Some y show ?thesis by (simp add: fill_window.simps [of read_to x])
qed (use assms(1) in \<open>simp add: fill_window.simps [of read_to x]\<close>)

lemma fill_window_frame:
  "fill_window read_to x to_send = Some (r, x') \<Longrightarrow>
    xf_stream x' = xf_stream x \<and> xf_buffer x' = xf_buffer x \<and> blocks_sent x' = blocks_sent x
    \<and> last_acknowledged_index x' = last_acknowledged_index x
    \<and> Window_size (xf_window x') = Window_size (xf_window x)"
proof (induction x to_send rule: fill_window_induct [where read_to = read_to])
  case (read x to_send)
  show ?case
  proof (cases "to_send < Window_size (xf_window x)")
    case lt: True
    show ?thesis
    proof (cases "\<exists>k l f w. push_block read_to (xf_window x) (xf_file x) (last_read_index x + 1)
        = Some (Inr (k, l), f, w)")
      case True
      then obtain k l f w where
        p: "push_block read_to (xf_window x) (xf_file x) (last_read_index x + 1) = Some (Inr (k, l), f, w)"
        by blast
      with read.IH [OF lt] read.prems Window_size_push_block [OF p] fill_window_read [OF lt p]
      show ?thesis by (cases l) (auto simp: after_read_def)
    next
      case False
      with fill_window_other [OF lt, of read_to] read.prems show ?thesis
        by auto (metis Window_size_push_block)
    qed
  next
    case False
    with read.prems show ?thesis by (simp add: fill_window_full)
  qed
qed

section \<open>The file transfer\<close>

text \<open>The outer loop of \<open>send_file\<close>, entered with \<open>done = false\<close>.\<close>

function send_loop :: "bool \<Rightarrow> 'f read_to \<Rightarrow> AckTimeout \<Rightarrow> 'f xfer
    \<Rightarrow> ((TFTPError + usize \<times> usize) \<times> 'f xfer) run" where
  "send_loop dbg read_to t x =
    (let unacknowledged_count = last_read_index x - last_acknowledged_index x in
     if dbg \<and> \<not> unacknowledged_count \<le> Window_size (xf_window x) then None
     else case fill_window read_to x unacknowledged_count of
       None \<Rightarrow> None
     | Some (Inl e, x) \<Rightarrow> Some (Inl e, x)
     | Some (Inr (to_send, done), x) \<Rightarrow>
        if dbg \<and> \<not> to_send \<le> Window_size (xf_window x) then None
        else (case send_reliably (xf_window x) t (xf_stream x) (xf_buffer x)
                     (last_acknowledged_index x + 1) to_send of
           None \<Rightarrow> None
         | Some (r, st, buf) \<Rightarrow>
            (let x = x\<lparr>xf_stream := st, xf_buffer := buf\<rparr> in
             case r of
               Inr received_acknowledged \<Rightarrow>
                 (let x = x\<lparr>last_acknowledged_index := received_acknowledged\<rparr> in
                  if done then Some (Inr (bytes_sent x, blocks_sent x), x)
                  else send_loop dbg read_to t x)
             | Inl SendTimeout \<Rightarrow> Some (Inl (undefined_error ''Send timeout occurred''), x)
             | Inl (SendClientError code string) \<Rightarrow>
                 (let x = x\<lparr>blocks_sent := blocks_sent x + unat to_send\<rparr> in
                  Some (Inr (bytes_sent x, blocks_sent x), x))
             | Inl _ \<Rightarrow> Some (Inl (undefined_error ''Unknown error occurred''), x))))"
  by pat_completeness auto
termination
proof (relation "measure (\<lambda>(_, _, _, x). length (inbox (xf_stream x)))", goal_cases)
  case (2 dbg read_to t x u y r x1 ts to_send fin z r2 y2 st buf x2 ack x3)
  then have "fill_window read_to x u = Some (Inr (to_send, fin), x1)"
    "send_reliably (xf_window x1) t (xf_stream x1) (xf_buffer x1) (last_acknowledged_index x1 + 1) to_send
      = Some (Inr ack, st, buf)" by auto
  then have "xf_stream x1 = xf_stream x" "length (inbox st) < length (inbox (xf_stream x1))"
    using fill_window_frame send_reliably_shrinks by blast+
  with 2 show ?case by simp
qed simp

declare send_loop.simps [simp del]

definition send_file :: "bool \<Rightarrow> 'f read_to \<Rightarrow> 'f \<Rightarrow> DatagramStream \<Rightarrow> Window \<Rightarrow> AckTimeout \<Rightarrow> bytes
    \<Rightarrow> ((TFTPError + usize \<times> usize) \<times> 'f xfer) run" where
  "send_file dbg read_to file st w t buf =
    send_loop dbg read_to t
      \<lparr>xf_file = file, xf_window = w, xf_stream = st, xf_buffer = buf, bytes_sent = 0, blocks_sent = 0,
       last_acknowledged_index = 0, last_read_index = 0\<rparr>"

section \<open>Option negotiation and the session\<close>

definition u16_to_string :: "u16 \<Rightarrow> rstr" where
  "u16_to_string n = usize_to_string (unat n)"

fun RecvError_debug :: "RecvError \<Rightarrow> rstr" where
  "RecvError_debug RecvNetwork = str ''Network''"
| "RecvError_debug RecvTimeout = str ''Timeout''"
| "RecvError_debug (RecvClientError code m) =
    str ''ClientError('' @ u16_to_string code @ str '', '' @ str_debug m @ str '')''"
| "RecvError_debug RecvACKError = str ''ACKError''"

text \<open>The last \<open>n\<close> rounds of the loop of \<open>send_oack_reliably\<close>. The packet is sent from the very
  buffer that receives the answers.\<close>

fun oack_attempts :: "nat \<Rightarrow> usize \<Rightarrow> DatagramStream \<Rightarrow> AckTimeout \<Rightarrow> bytes
    \<Rightarrow> ((io_error + unit) \<times> DatagramStream \<times> bytes) run" where
  "oack_attempts 0 oack_size st t buf = do {
     (st, buf) \<leftarrow> fire_error (undefined_error ''Send timeout occurred'') st buf;
     Some (Inl \<lparr>kind = TimedOut, detail = str ''Timeout waiting for ACK 0''\<rparr>, st, buf)
   }"
| "oack_attempts (Suc n) oack_size st t buf =
    (case stream_send st (take oack_size buf) of
       (Inl e, st) \<Rightarrow> Some (Inl e, st, buf)
     | (Inr _, st) \<Rightarrow>
        (case read_acknowledge st buf t of
           (Inr ack_num, st, buf) \<Rightarrow>
             if ack_num = 0 then Some (Inr (), st, buf)
             else do {
               (st, buf) \<leftarrow> fire_error (undefined_error ''Unexpected non-zero ACK'') st buf;
               Some (Inl (io_other (str ''Received unexpected ACK '' @ u16_to_string ack_num
                 @ str '' while expecting 0'')), st, buf)
             }
         | (Inl RecvTimeout, st, buf) \<Rightarrow> oack_attempts n oack_size st t buf
         | (Inl (RecvClientError code string), st, buf) \<Rightarrow>
             Some (Inl (io_other (str ''Early termination while options negotiation [''
               @ u16_to_string code @ str ''] '' @ string)), st, buf)
         | (Inl error, st, buf) \<Rightarrow>
             Some (Inl (io_other (str ''ACK read error: '' @ RecvError_debug error)), st, buf)))"

definition send_oack_reliably :: "OptionsAcknowledge \<Rightarrow> DatagramStream \<Rightarrow> AckTimeout \<Rightarrow> bytes
    \<Rightarrow> ((io_error + unit) \<times> DatagramStream \<times> bytes) run" where
  "send_oack_reliably oack st t buf = do {
     (r, buf) \<leftarrow> OptionsAcknowledge_serialize oack buf;
     case r of
       Inl buffer_error \<Rightarrow> do {
         (st, buf) \<leftarrow> fire_error (undefined_error ''OACK build error'') st buf;
         Some (Inl (io_other (str ''Error building options: '' @ BufferError_display buffer_error)), st, buf)
       }
     | Inr oack_size \<Rightarrow> oack_attempts (unat SEND_ATTEMPTS) oack_size st t buf
   }"

text \<open>The options \<open>negotiate_options\<close> accepts, in the order it pushes them.\<close>

definition negotiated_oack :: "'f get_size \<Rightarrow> 'f \<Rightarrow> (rstr \<rightharpoonup> rstr)
    \<Rightarrow> OptionsAcknowledge \<times> AckTimeout \<times> Blksize \<times> WindowSize \<times> 'f" where
  "negotiated_oack get_size file opts =
    (let oack = OptionsAcknowledge_new;
         (oack, t) = (case AckTimeout_find_in opts of
            Some t \<Rightarrow> (OptionsAcknowledge_push oack (AckTimeout_as_key_pair t), t)
          | None \<Rightarrow> (oack, AckTimeout_default));
         (oack, b) = (case Blksize_find_in opts of
            Some b \<Rightarrow> (OptionsAcknowledge_push oack (Blksize_as_key_pair b), b)
          | None \<Rightarrow> (oack, Blksize_default));
         (oack, file) = (if TSize_is_requested opts
            then (case TSize_obtain get_size file of
                    (Inr tsize, f) \<Rightarrow> (OptionsAcknowledge_push oack (TSize_as_key_pair tsize), f)
                  | (Inl _, f) \<Rightarrow> (oack, f))
            else (oack, file));
         (oack, ws) = (case WindowSize_find_in opts of
            Some ws \<Rightarrow> (OptionsAcknowledge_push oack (WindowSize_as_key_pair ws), ws)
          | None \<Rightarrow> (oack, WindowSize_default))
     in (oack, t, b, ws, file))"

definition negotiate_options :: "'f get_size \<Rightarrow> DatagramStream \<Rightarrow> 'f \<Rightarrow> bytes \<Rightarrow> (rstr \<rightharpoonup> rstr)
    \<Rightarrow> ((Window \<times> AckTimeout) option \<times> DatagramStream \<times> 'f \<times> bytes) run" where
  "negotiate_options get_size st file buf opts =
    (case negotiated_oack get_size file opts of (oack, t, b, ws, file) \<Rightarrow>
       (let window = Window_new (of_nat (Blksize_get_size b)) (of_nat (WindowSize_get_size ws)) in
        if has_options oack then do {
          (r, st, buf) \<leftarrow> send_oack_reliably oack st t buf;
          case r of
            Inl _ \<Rightarrow> Some (None, st, file, buf)
          | Inr _ \<Rightarrow> Some (Some (window, t), st, file, buf)
        }
        else Some (Some (window, t), st, file, buf)))"

definition send :: "bool \<Rightarrow> 'f read_to \<Rightarrow> 'f get_size \<Rightarrow> 'f \<Rightarrow> DatagramStream \<Rightarrow> (rstr \<rightharpoonup> rstr) \<Rightarrow> bytes
    \<Rightarrow> DatagramStream run" where
  "send dbg read_to get_size file st opts buf = do {
     (negotiated, st, file, buf) \<leftarrow> negotiate_options get_size st file buf opts;
     case negotiated of
       None \<Rightarrow> Some st
     | Some (window, t) \<Rightarrow> do {
         (r, x) \<leftarrow> send_file dbg read_to file st window t buf;
         case r of
           Inr _ \<Rightarrow> Some (xf_stream x)
         | Inl tftp_error \<Rightarrow> map_option fst (fire_error tftp_error (xf_stream x) (xf_buffer x))
       }
   }"

section \<open>One window\<close>

definition ack_packet :: "u16 \<Rightarrow> bytes" where
  "ack_packet n = be_bytes ACK @ be_bytes n"

definition window_packets :: "Window \<Rightarrow> u16 list \<Rightarrow> bytes list" where
  "window_packets w idxs = map (\<lambda>i. slot_content w (unat i mod length (buffers w))) idxs"

text \<open>\<open>answers peer cap ack r es\<close>: the events \<open>es\<close> let \<open>r\<close> timers elapse and then deliver the
  acknowledgement \<open>ack\<close>; datagrams that the stream ignores may come in between.\<close>

fun answers :: "SocketAddr \<Rightarrow> nat \<Rightarrow> u16 \<Rightarrow> nat \<Rightarrow> net_event list \<Rightarrow> bool" where
  "answers peer cap ack r [] \<longleftrightarrow> False"
| "answers peer cap ack r (Elapses # es) \<longleftrightarrow> (case r of 0 \<Rightarrow> False | Suc r \<Rightarrow> answers peer cap ack r es)"
| "answers peer cap ack r (RecvFails e # es) \<longleftrightarrow> False"
| "answers peer cap ack r (Arrives a d # es) \<longleftrightarrow>
    (if ignorable peer cap 4 (Arrives a d) then answers peer cap ack r es
     else r = 0 \<and> d = ack_packet ack \<and> es = [])"

lemma be_bytes_ACK [simp]: "be_bytes ACK = [0, 4]"
  by (simp add: be_bytes_def ACK_def)

lemma be_bytes_ERROR [simp]: "be_bytes ERROR = [0, 5]"
  by (simp add: be_bytes_def ERROR_def)

lemma length_ack_packet [simp]: "length (ack_packet n) = 4"
  by (simp add: ack_packet_def)

lemma parse_acknowledge_ack:
  assumes "4 \<le> length buf"
  shows "parse_acknowledge (recv_into buf (ack_packet n)) = Inr n"
proof -
  define b where "b = recv_into buf (ack_packet n)"
  from assms have "b = ack_packet n @ drop 4 buf"
    by (simp add: b_def recv_into_def)
  then have b: "b = [] @ 0 # 4 # be_bytes n @ drop 4 buf"
    by (simp add: ack_packet_def)
  then have b2: "b = [0, 4] @ ucast (drop_bit 8 n) # ucast n # drop 4 buf"
    by (simp add: be_bytes_def)
  have "extract_ushort (ReadCursor_new b) = (Inr ACK, \<lparr>datagram = b, index = 2\<rparr>)"
    using extract_ushort_at [of "ReadCursor_new b" "[]"] b
    by (simp add: ReadCursor_new_def from_be_bytes_eq_iff)
  moreover have "extract_ushort \<lparr>datagram = b, index = 2\<rparr> = (Inr n, \<lparr>datagram = b, index = 4\<rparr>)"
    using extract_ushort_at [of "\<lparr>datagram = b, index = 2\<rparr>" "[0, 4]"] b2 by simp
  ultimately show ?thesis by (simp add: parse_acknowledge_def b_def [symmetric])
qed

lemma send_blocks_reliable:
  assumes "window_wf w" "send_results st = []"
  shows "send_blocks w st idxs = Some (Inr (), st\<lparr>outbox := outbox st @ window_packets w idxs\<rparr>)"
  using assms(2)
  by (induction idxs arbitrary: st)
    (simp_all add: Window_send_wf [OF assms(1)] stream_send_reliable window_packets_def)

lemma stream_recv_answers:
  assumes "answers p (length buf) ack r es" "4 \<le> length buf"
  shows "\<exists>b es'. length b = length buf
    \<and> stream_recv p (es @ es2) buf 4
        = (if r = 0 then (Inr (Inr 4), es2, recv_into b (ack_packet ack)) else (Inl (), es' @ es2, b))
    \<and> (r \<noteq> 0 \<longrightarrow> answers p (length buf) ack (r - 1) es')"
  using assms
proof (induction es arbitrary: buf)
  case (Cons e es)
  show ?case
  proof (cases e)
    case (Arrives a d)
    show ?thesis
    proof (cases "ignorable p (length buf) 4 e")
      case True
      with Cons Arrives obtain b es' where ih: "length b = length buf"
        "stream_recv p (es @ es2) (recv_into buf d) 4
          = (if r = 0 then (Inr (Inr 4), es2, recv_into b (ack_packet ack)) else (Inl (), es' @ es2, b))"
        "r \<noteq> 0 \<longrightarrow> answers p (length buf) ack (r - 1) es'"
        by (metis answers.simps(4) length_recv_into)
      from True Arrives have "stream_recv p ((e # es) @ es2) buf 4
          = stream_recv p (es @ es2) (recv_into buf d) 4" by (auto simp: Let_def)
      with ih show ?thesis by metis
    next
      case False
      with Cons.prems Arrives show ?thesis
        by (intro exI [where x = buf]) auto
    qed
  next
    case Elapses
    with Cons.prems obtain r' where "r = Suc r'" "answers p (length buf) ack r' es"
      by (auto split: nat.splits)
    with Elapses show ?thesis
      by (intro exI [where x = buf] exI [where x = es]) simp
  qed (use Cons.prems in auto)
qed simp

lemma read_acknowledge_answers:
  assumes "answers (peer_address st) (length buf) ack r es" "4 \<le> length buf" "inbox st = es @ es2"
  shows "\<exists>b es'. length b = length buf
    \<and> read_acknowledge st buf t
        = (if r = 0 then (Inr ack, st\<lparr>inbox := es2\<rparr>, b)
           else (Inl RecvTimeout, st\<lparr>inbox := es' @ es2, waited := waited st + timeout t\<rparr>, b))
    \<and> (r \<noteq> 0 \<longrightarrow> answers (peer_address st) (length buf) ack (r - 1) es')"
proof -
  obtain b es' where b: "length b = length buf"
    and r: "stream_recv (peer_address st) (es @ es2) buf 4
        = (if r = 0 then (Inr (Inr 4), es2, recv_into b (ack_packet ack)) else (Inl (), es' @ es2, b))"
    and a: "r \<noteq> 0 \<longrightarrow> answers (peer_address st) (length buf) ack (r - 1) es'"
    using stream_recv_answers [OF assms(1,2)] by blast
  show ?thesis
  proof (cases "r = 0")
    case True
    with b r assms show ?thesis
      by (intro exI [where x = "recv_into b (ack_packet ack)"])
        (simp add: read_acknowledge_def recv_timeout_def parse_acknowledge_ack)
  next
    case False
    with a b r assms show ?thesis
      by (intro exI [where x = b] exI [where x = es'])
        (simp add: read_acknowledge_def recv_timeout_def)
  qed
qed

text \<open>A window whose acknowledgement arrives after \<open>r\<close> timeouts, \<open>r\<close> less than the number of
  attempts, is sent \<open>r + 1\<close> times and acknowledged.\<close>

lemma send_attempts_answers:
  assumes "window_wf w" "send_results st = []" "4 \<le> length buf" "wi \<le> ack" "r < n"
    and "answers (peer_address st) (length buf) ack r es" "inbox st = es @ es2"
  shows "\<exists>buf'. length buf' = length buf
    \<and> send_attempts n w t st buf wi count =
        Some (Inr ack, st\<lparr>inbox := es2, waited := waited st + r * timeout t,
          outbox := outbox st @ concat (replicate (Suc r) (window_packets w (window_indices wi count)))\<rparr>,
          buf')"
  using assms
proof (induction r arbitrary: n st buf es)
  case 0
  then obtain m where n: "n = Suc m" by (cases n) auto
  let ?st = "st\<lparr>outbox := outbox st @ window_packets w (window_indices wi count)\<rparr>"
  from 0 obtain b where "length b = length buf"
    "read_acknowledge ?st buf t = (Inr ack, ?st\<lparr>inbox := es2\<rparr>, b)"
    using read_acknowledge_answers [of ?st buf ack 0 es es2 t] by auto
  with 0 n show ?case
    by (simp add: send_blocks_reliable)
next
  case (Suc r)
  then obtain m where n: "n = Suc m" by (cases n) auto
  let ?st = "st\<lparr>outbox := outbox st @ window_packets w (window_indices wi count)\<rparr>"
  from Suc.prems obtain b es' where b: "length b = length buf"
    and ra: "read_acknowledge ?st buf t
      = (Inl RecvTimeout, ?st\<lparr>inbox := es' @ es2, waited := waited st + timeout t\<rparr>, b)"
    and an: "answers (peer_address st) (length buf) ack r es'"
    using read_acknowledge_answers [of ?st buf ack "Suc r" es es2 t] by auto
  let ?st2 = "?st\<lparr>inbox := es' @ es2, waited := waited st + timeout t\<rparr>"
  obtain buf' where "length buf' = length b"
    "send_attempts m w t ?st2 b wi count =
      Some (Inr ack, ?st2\<lparr>inbox := es2, waited := waited ?st2 + r * timeout t,
        outbox := outbox ?st2 @ concat (replicate (Suc r) (window_packets w (window_indices wi count)))\<rparr>,
        buf')"
    using Suc.IH [of ?st2 b m es'] Suc.prems n b an by auto
  with Suc.prems n b ra show ?case
    by (simp add: send_blocks_reliable algebra_simps)
qed

text \<open>A peer that stays silent is given \<open>n\<close> chances.\<close>

lemma send_attempts_silent:
  assumes "window_wf w" "send_results st = []" "inbox st = []"
  shows "send_attempts n w t st buf wi count =
    Some (Inl SendTimeout, st\<lparr>waited := waited st + n * timeout t,
      outbox := outbox st @ concat (replicate n (window_packets w (window_indices wi count)))\<rparr>, buf)"
  using assms
proof (induction n arbitrary: st)
  case (Suc n)
  let ?st = "st\<lparr>outbox := outbox st @ window_packets w (window_indices wi count)\<rparr>"
  from Suc.prems have "read_acknowledge ?st buf t
      = (Inl RecvTimeout, ?st\<lparr>inbox := [], waited := waited st + timeout t\<rparr>, buf)"
    by (simp add: read_acknowledge_def recv_timeout_def)
  with Suc.prems Suc.IH [of "?st\<lparr>inbox := [], waited := waited st + timeout t\<rparr>"] show ?case
    by (simp add: send_blocks_reliable algebra_simps)
qed simp

end
