(* ===== verification/Peer_Delivery.thy ===== *)
theory Peer_Delivery
  imports Peer_Transfer
begin

text \<open>
  What a file transfer delivers. The lemmas are proved once, in the contract \<open>opened_file\<close>, for
  every kind of file: which packets a transfer can send at all, whatever the peer answers, and
  that a peer whose acknowledgements arrive gets the whole file.
\<close>

section \<open>Blocks\<close>

lemma chunk_rest: "take bs (drop (K * bs) data) = chunk data bs (Suc K)"
  by (simp add: chunk_def)

lemma concat_chunks: "concat (map (chunk data bs) [1..<Suc n]) = take (n * bs) data"
proof (induction n)
  case (Suc n)
  have "[1..<Suc (Suc n)] = [1..<Suc n] @ [Suc n]" by simp
  with Suc have "concat (map (chunk data bs) [1..<Suc (Suc n)]) = take (n * bs) data @ take bs (drop (n * bs) data)"
    by (simp only: map_append concat_append) (simp add: chunk_def)
  also have "\<dots> = take (Suc n * bs) data"
    by (simp add: take_add [symmetric] add.commute)
  finally show ?case .
qed simp

lemma block_count_covers: "0 < bs \<Longrightarrow> length data < block_count data bs * bs"
  using div_less_iff_less_mult [of bs "length data" "block_count data bs"]
  by (simp add: block_count_def)

lemma last_block_iff:
  "0 < bs \<Longrightarrow> length (drop (K * bs) data) < bs \<longleftrightarrow> block_count data bs \<le> Suc K"
  using div_less_iff_less_mult [of bs "length data" "Suc K"]
  by (auto simp: block_count_def less_diff_conv2 not_le)

theorem blocks_reassemble: "0 < bs \<Longrightarrow> concat (map (chunk data bs) [1..<Suc (block_count data bs)]) = data"
  unfolding concat_chunks using block_count_covers [of bs data] by simp

section \<open>The state of the transfer\<close>

definition slot_of :: "Window \<Rightarrow> nat \<Rightarrow> nat" where
  "slot_of w k = unat (of_nat k :: u16) mod length (buffers w)"

text \<open>Every slot holds a block that was read, or no block read so far belongs to it.\<close>

definition slots_ok :: "bytes \<Rightarrow> nat \<Rightarrow> nat \<Rightarrow> Window \<Rightarrow> bool" where
  "slots_ok data bs K w \<longleftrightarrow> (\<forall>i.
     (\<exists>k. 0 < k \<and> k \<le> K \<and> slot_content w i = data_packet data bs k) \<or> (\<forall>k. 0 < k \<and> k \<le> K \<longrightarrow> slot_of w k \<noteq> i))"

text \<open>The blocks of the last window length are where their index says.\<close>

definition recent :: "bytes \<Rightarrow> nat \<Rightarrow> nat \<Rightarrow> Window \<Rightarrow> bool" where
  "recent data bs K w \<longleftrightarrow> (\<forall>k. 0 < k \<and> k \<le> K \<and> K < k + length (buffers w) \<longrightarrow>
     slot_content w (slot_of w k) = data_packet data bs k)"

lemma slots_ok_0: "slots_ok data bs 0 w" and recent_0: "recent data bs 0 w"
  by (auto simp: slots_ok_def recent_def)

lemma slot_of_same_length: "length (buffers w') = length (buffers w) \<Longrightarrow> slot_of w' k = slot_of w k"
  by (simp add: slot_of_def)

lemma slots_ok_read:
  assumes "slots_ok data bs K w" "length (buffers w') = length (buffers w)"
    and "slot_content w' (slot_of w (Suc K)) = data_packet data bs (Suc K)"
    and "\<forall>j. j \<noteq> slot_of w (Suc K) \<longrightarrow> slot_content w' j = slot_content w j"
  shows "slots_ok data bs (Suc K) w'"
  unfolding slots_ok_def
proof
  fix i
  show "(\<exists>k. 0 < k \<and> k \<le> Suc K \<and> slot_content w' i = data_packet data bs k)
    \<or> (\<forall>k. 0 < k \<and> k \<le> Suc K \<longrightarrow> slot_of w' k \<noteq> i)"
  proof (cases "i = slot_of w (Suc K)")
    case True
    with assms(3) show ?thesis by (intro disjI1 exI [where x = "Suc K"]) simp
  next
    case False
    with assms(1) consider k where "0 < k" "k \<le> K" "slot_content w i = data_packet data bs k"
      | "\<forall>k. 0 < k \<and> k \<le> K \<longrightarrow> slot_of w k \<noteq> i"
      by (auto simp: slots_ok_def)
    then show ?thesis
    proof cases
      case 1
      with False assms(4) show ?thesis by (intro disjI1 exI [where x = k]) auto
    next
      case 2
      with False show ?thesis
        by (auto simp: slot_of_same_length [OF assms(2)] le_Suc_eq)
    qed
  qed
qed

text \<open>Once a whole window was read, every slot holds a block.\<close>

lemma slots_filled:
  assumes "slots_ok data bs K w" "window_wf w" "length (buffers w) \<le> K" "i < length (buffers w)"
  shows "\<exists>k. 0 < k \<and> k \<le> K \<and> slot_content w i = data_packet data bs k"
proof -
  let ?k = "if i = 0 then length (buffers w) else i"
  from assms have "0 < ?k" "?k \<le> K" "slot_of w ?k = i"
    by (auto simp: slot_of_def unat_of_nat_u16 window_wf_def)
  with assms(1) show ?thesis unfolding slots_ok_def by metis
qed

lemma mod_neq_of_close:
  fixes a b L :: nat
  assumes "a < b" "b < a + L"
  shows "a mod L \<noteq> b mod L"
proof
  assume "a mod L = b mod L"
  with assms(1) have "L dvd b - a" by (metis less_imp_le mod_eq_dvd_iff_nat)
  moreover from assms have "0 < b - a" "b - a < L" by auto
  ultimately show False by (meson nat_dvd_not_less)
qed

lemma recent_read:
  assumes "recent data bs K w" "length (buffers w') = length (buffers w)"
    and "slot_content w' (slot_of w (Suc K)) = data_packet data bs (Suc K)"
    and "\<forall>j. j \<noteq> slot_of w (Suc K) \<longrightarrow> slot_content w' j = slot_content w j"
    and "length (buffers w) = 1 \<or> Suc K < 65536"
  shows "recent data bs (Suc K) w'"
  unfolding recent_def
proof (intro allI impI)
  fix k
  assume k: "0 < k \<and> k \<le> Suc K \<and> Suc K < k + length (buffers w')"
  show "slot_content w' (slot_of w' k) = data_packet data bs k"
  proof (cases "k = Suc K")
    case True
    with assms(3) show ?thesis by (simp add: slot_of_same_length [OF assms(2)])
  next
    case False
    with k have k2: "k < Suc K" "Suc K < k + length (buffers w)"
      unfolding assms(2) by linarith+
    with assms(5) have "Suc K < 65536" by linarith
    with k2 have "slot_of w k \<noteq> slot_of w (Suc K)"
      using mod_neq_of_close [of k "Suc K" "length (buffers w)"]
      by (simp add: slot_of_def unat_of_nat_u16 del: of_nat_Suc)
    moreover from assms(1) k False assms(2) have "slot_content w (slot_of w k) = data_packet data bs k"
      by (auto simp: recent_def)
    ultimately show ?thesis
      using assms(4) by (simp add: slot_of_same_length [OF assms(2)])
  qed
qed

context opened_file begin

definition xinv :: "bytes \<Rightarrow> nat \<Rightarrow> nat \<Rightarrow> 'f xfer \<Rightarrow> bool" where
  "xinv data bs K x \<longleftrightarrow> window_wf (xf_window x) \<and> unat (win_block_size (xf_window x)) = bs
    \<and> healthy (xf_file x) \<and> rest (xf_file x) = drop (K * bs) data
    \<and> last_read_index x = of_nat K \<and> bytes_sent x = min (K * bs) (length data)
    \<and> slots_ok data bs K (xf_window x)"

lemma read_step:
  assumes "xinv data bs K x" "0 < bs"
  shows "\<exists>k f w. push_block read_to (xf_window x) (xf_file x) (last_read_index x + 1)
      = Some (Inr (k, block_count data bs \<le> Suc K), f, w)
    \<and> xinv data bs (Suc K) (after_read x k f w) \<and> length (buffers w) = length (buffers (xf_window x))
    \<and> (recent data bs K (xf_window x) \<and> (length (buffers w) = 1 \<or> Suc K < 65536) \<longrightarrow> recent data bs (Suc K) w)"
proof -
  let ?w = "xf_window x" and ?r = "rest (xf_file x)"
  have inv: "window_wf ?w" "unat (win_block_size ?w) = bs" "healthy (xf_file x)" "?r = drop (K * bs) data"
    "last_read_index x = of_nat K" "bytes_sent x = min (K * bs) (length data)" "slots_ok data bs K ?w"
    using assms(1) by (auto simp: xinv_def)
  have idx: "last_read_index x + 1 = of_nat (Suc K)" using inv(5) by simp
  obtain f w where p: "push_block read_to ?w (xf_file x) (of_nat (Suc K))
      = Some (Inr (min bs (length ?r), length ?r < bs), f, w)"
    and f: "healthy f" "rest f = drop bs ?r" and w: "window_wf w"
    and s: "slot_content w (slot_of ?w (Suc K)) = be_bytes DATA @ be_bytes (of_nat (Suc K)) @ take bs ?r"
      "\<forall>j. j \<noteq> slot_of ?w (Suc K) \<longrightarrow> slot_content w j = slot_content ?w j"
    using push_block_healthy [OF inv(1,3) inv(2) [symmetric] refl, of "of_nat (Suc K)"]
    unfolding slot_of_def by blast
  note fr = push_block_frame [OF p]
  from s(1) have s1: "slot_content w (slot_of ?w (Suc K)) = data_packet data bs (Suc K)"
    by (simp only: data_packet_def inv(4) chunk_rest)
  have "xinv data bs (Suc K) (after_read x (min bs (length ?r)) f w)"
    unfolding xinv_def after_read_def
    using inv(2,5,6) w f fr inv(4) slots_ok_read [OF inv(7) _ s1 s(2)]
    by (auto simp: add.commute)
  moreover have "length ?r < bs \<longleftrightarrow> block_count data bs \<le> Suc K"
    using last_block_iff [OF assms(2), of K data] inv(4) by simp
  ultimately show ?thesis
    using p fr idx recent_read [OF _ _ s1 s(2)] by (auto simp del: of_nat_Suc)
qed

text \<open>The inner loop on a healthy file reads as many blocks as the window has room for and the
  file has left.\<close>

lemma fill_healthy:
  assumes "xinv data bs K x" "0 < bs" "K < block_count data bs"
    and "unat to_send \<le> length (buffers (xf_window x))"
    and "m = min (length (buffers (xf_window x)) - unat to_send) (block_count data bs - K)"
  shows "\<exists>x'. fill_window read_to x to_send
      = Some (Inr (to_send + of_nat m,
          block_count data bs \<le> K + (length (buffers (xf_window x)) - unat to_send)), x')
    \<and> xinv data bs (K + m) x' \<and> length (buffers (xf_window x')) = length (buffers (xf_window x))
    \<and> (recent data bs K (xf_window x) \<and> (length (buffers (xf_window x)) = 1 \<or> K + m < 65536) \<longrightarrow>
        recent data bs (K + m) (xf_window x'))"
  using assms
proof (induction x to_send arbitrary: K m rule: fill_window_induct [where read_to = read_to])
  case (read x to_send)
  let ?L = "length (buffers (xf_window x))" and ?N = "block_count data bs"
  have size: "unat (Window_size (xf_window x)) = ?L"
    using read.prems(1) by (simp add: xinv_def unat_Window_size)
  show ?case
  proof (cases "to_send < Window_size (xf_window x)")
    case False
    with size read.prems(4) have "unat to_send = ?L" by (simp add: word_less_nat_alt)
    with read.prems False show ?thesis by (simp add: fill_window_full)
  next
    case lt: True
    then have less: "unat to_send < ?L" using size by (simp add: word_less_nat_alt)
    obtain k f w where p: "push_block read_to (xf_window x) (xf_file x) (last_read_index x + 1)
        = Some (Inr (k, ?N \<le> Suc K), f, w)"
      and inv: "xinv data bs (Suc K) (after_read x k f w)" and len: "length (buffers w) = ?L"
      and rec: "recent data bs K (xf_window x) \<and> (length (buffers w) = 1 \<or> Suc K < 65536) \<longrightarrow> recent data bs (Suc K) w"
      using read_step [OF read.prems(1,2)] by blast
    note one = fill_window_read [OF lt p]
    show ?thesis
    proof (cases "?N \<le> Suc K")
      case True
      with read.prems(3,5) less have "m = 1" "?N \<le> K + (?L - unat to_send)" by auto
      with True one inv len rec show ?thesis by (auto simp: after_read_def)
    next
      case False
      have suc: "unat (to_send + 1) = Suc (unat to_send)" by (rule unat_u16_Suc [OF lt])
      define m' where "m' = min (?L - unat (to_send + 1)) (?N - Suc K)"
      from False read.prems(5) less suc have m: "m = Suc m'" by (auto simp: m'_def)
      have "K + (?L - unat to_send) = Suc K + (?L - unat (to_send + 1))" using suc less by simp
      with False p one inv len rec m suc less
        read.IH [OF lt, of k f w "Suc K" m'] read.prems(2)
      show ?thesis by (auto simp: after_read_def m'_def algebra_simps)
    qed
  qed
qed

end

section \<open>A peer whose acknowledgements arrive\<close>

text \<open>\<open>delivers peer cap L n a rounds\<close>: with the blocks up to \<open>a\<close> acknowledged, the rounds
  acknowledge one window of \<open>L\<close> blocks each until block \<open>n\<close>; a round is the number of its
  timeouts, fewer than the attempts, and its events.\<close>

fun delivers :: "SocketAddr \<Rightarrow> nat \<Rightarrow> nat \<Rightarrow> nat \<Rightarrow> nat \<Rightarrow> (nat \<times> net_event list) list \<Rightarrow> bool" where
  "delivers peer cap L n a [] \<longleftrightarrow> n \<le> a"
| "delivers peer cap L n a ((r, es) # rounds) \<longleftrightarrow>
    a < n \<and> r < unat SEND_ATTEMPTS \<and> answers peer cap (of_nat (min (a + L) n)) r es
    \<and> delivers peer cap L n (min (a + L) n) rounds"

text \<open>What is sent meanwhile: every window as often as it timed out, and once more.\<close>

fun delivered :: "bytes \<Rightarrow> nat \<Rightarrow> nat \<Rightarrow> nat \<Rightarrow> nat \<Rightarrow> (nat \<times> net_event list) list \<Rightarrow> bytes list" where
  "delivered data bs L n a [] = []"
| "delivered data bs L n a ((r, es) # rounds) =
    concat (replicate (Suc r) (map (data_packet data bs) [Suc a..<Suc (min (a + L) n)]))
    @ delivered data bs L n (min (a + L) n) rounds"

lemma window_indices_of_nat:
  "m < 65536 \<Longrightarrow> window_indices (of_nat a + 1) (of_nat m) = map of_nat [Suc a..<Suc (a + m)]"
  by (intro nth_equalityI) (simp_all add: window_indices_def unat_of_nat_u16 algebra_simps del: upt_Suc)

lemma window_packets_recent:
  assumes "recent data bs e w" "e \<le> a + length (buffers w)"
  shows "window_packets w (map of_nat [Suc a..<Suc e]) = map (data_packet data bs) [Suc a..<Suc e]"
  unfolding window_packets_def map_map
proof (intro map_cong refl)
  fix k
  assume "k \<in> set [Suc a..<Suc e]"
  then have "Suc a \<le> k" "k \<le> e" by (auto simp del: upt_Suc)
  with assms(2) have "0 < k" "e < k + length (buffers w)" by linarith+
  with assms(1) \<open>k \<le> e\<close> have "slot_content w (slot_of w k) = data_packet data bs k"
    by (simp add: recent_def)
  then show "((\<lambda>i :: u16. slot_content w (unat i mod length (buffers w))) \<circ> of_nat) k = data_packet data bs k"
    by (simp add: slot_of_def)
qed

lemma send_loop_step:
  assumes "\<not> dbg \<or> last_read_index x - last_acknowledged_index x \<le> Window_size (xf_window x)"
    and "fill_window read_to x (last_read_index x - last_acknowledged_index x)
      = Some (Inr (to_send, fin), x1)"
    and "\<not> dbg \<or> to_send \<le> Window_size (xf_window x1)"
    and "send_reliably (xf_window x1) t (xf_stream x1) (xf_buffer x1) (last_acknowledged_index x1 + 1) to_send
      = Some (Inr ack, st, buf)"
  shows "send_loop dbg read_to t x =
    (let x2 = x1\<lparr>xf_stream := st, xf_buffer := buf, last_acknowledged_index := ack\<rparr> in
     if fin then Some (Inr (bytes_sent x2, blocks_sent x2), x2) else send_loop dbg read_to t x2)"
  using assms by (subst send_loop.simps) (auto simp: Let_def)

context opened_file begin

lemma send_loop_delivers:
  assumes "xinv data bs a x" "recent data bs a (xf_window x)" "0 < bs" "a < block_count data bs"
    and "last_acknowledged_index x = of_nat a"
    and "L = length (buffers (xf_window x))" "L = 1 \<or> block_count data bs < 65536"
    and "delivers (peer_address (xf_stream x)) (length (xf_buffer x)) L (block_count data bs) a rounds"
    and "inbox (xf_stream x) = concat (map snd rounds) @ later"
    and "send_results (xf_stream x) = []" "4 \<le> length (xf_buffer x)"
  shows "\<exists>x'. send_loop dbg read_to t x = Some (Inr (length data, blocks_sent x), x')
    \<and> outbox (xf_stream x') = outbox (xf_stream x) @ delivered data bs L (block_count data bs) a rounds
    \<and> inbox (xf_stream x') = later
    \<and> waited (xf_stream x') = waited (xf_stream x) + sum_list (map fst rounds) * timeout t"
  using assms
proof (induction rounds arbitrary: a x)
  case Nil
  then show ?case by simp
next
  case (Cons re rounds)
  obtain r es where re: "re = (r, es)" by fastforce
  let ?N = "block_count data bs"
  define m where "m = min L (?N - a)"
  define e where "e = min (a + L) ?N"
  have e: "e = a + m" "a < e" using Cons.prems by (auto simp: e_def m_def xinv_def window_wf_def)
  have wf: "window_wf (xf_window x)" and read: "last_read_index x = of_nat a"
    using Cons.prems(1) by (auto simp: xinv_def)
  then have L: "L < 65536" "unat (Window_size (xf_window x)) = L"
    using Cons.prems(6) unat_Window_size by (auto simp: window_wf_def)
  have unack: "last_read_index x - last_acknowledged_index x = 0"
    using read Cons.prems(5) by simp
  obtain x1 where fw: "fill_window read_to x 0 = Some (Inr (of_nat m, ?N \<le> a + L), x1)"
    and inv1: "xinv data bs e x1" and len1: "length (buffers (xf_window x1)) = L"
    and rec1: "recent data bs e (xf_window x1)"
    using fill_healthy [OF Cons.prems(1,3,4), of 0 m] Cons.prems(2,6,7) e
    by (auto simp: m_def)
  note fr = fill_window_frame [OF fw]
  have m: "m \<le> L" by (simp add: m_def)
  have "(of_nat (Suc a) :: u16) \<le> of_nat e"
  proof (cases "L = 1")
    case True
    with e have "e = Suc a" by (simp add: m_def)
    then show ?thesis by simp
  next
    case False
    with Cons.prems(7) e(2) show ?thesis
      unfolding word_le_nat_alt unat_of_nat_u16 by (simp add: e_def)
  qed
  then have wi: "of_nat a + 1 \<le> (of_nat e :: u16)" by (simp add: add.commute)
  have wp: "window_packets (xf_window x1) (window_indices (of_nat a + 1) (of_nat m))
      = map (data_packet data bs) [Suc a..<Suc e]"
    using window_packets_recent [OF rec1, of a] e m L(1) len1
    by (simp add: window_indices_of_nat)
  obtain buf' where b: "length buf' = length (xf_buffer x1)"
    and sr: "send_reliably (xf_window x1) t (xf_stream x1) (xf_buffer x1) (of_nat a + 1) (of_nat m) =
      Some (Inr (of_nat e), (xf_stream x1)\<lparr>inbox := concat (map snd rounds) @ later,
        waited := waited (xf_stream x1) + r * timeout t,
        outbox := outbox (xf_stream x1)
          @ concat (replicate (Suc r) (map (data_packet data bs) [Suc a..<Suc e]))\<rparr>, buf')"
    unfolding send_reliably_def wp [symmetric]
    using send_attempts_answers [of "xf_window x1" "xf_stream x1" "xf_buffer x1" "of_nat a + 1"
        "of_nat e" r "unat SEND_ATTEMPTS" es "concat (map snd rounds) @ later" t "of_nat m"]
      inv1 wi fr Cons.prems(8-11) re by (auto simp: xinv_def e_def)
  let ?x2 = "x1\<lparr>xf_stream := (xf_stream x1)\<lparr>inbox := concat (map snd rounds) @ later,
        waited := waited (xf_stream x1) + r * timeout t,
        outbox := outbox (xf_stream x1)
          @ concat (replicate (Suc r) (map (data_packet data bs) [Suc a..<Suc e]))\<rparr>,
      xf_buffer := buf', last_acknowledged_index := of_nat e\<rparr>"
  have step: "send_loop dbg read_to t x =
      (if ?N \<le> a + L then Some (Inr (bytes_sent x1, blocks_sent x1), ?x2) else send_loop dbg read_to t ?x2)"
    using send_loop_step [of dbg x read_to "of_nat m" "?N \<le> a + L" x1 t "of_nat e"] fw sr fr unack m L
      Cons.prems(5)
    by (auto simp: word_le_nat_alt unat_of_nat_u16)
  show ?case
  proof (cases "?N \<le> a + L")
    case True
    then have "e = ?N" by (simp add: e_def)
    moreover from Cons.prems(8) re this have "rounds = []"
      by (cases rounds) (auto simp: e_def)
    ultimately show ?thesis
      using True step inv1 fr re block_count_covers [OF Cons.prems(3), of data]
      by (auto simp: xinv_def e_def)
  next
    case False
    have "xinv data bs e ?x2" using inv1 by (simp add: xinv_def)
    with False Cons.IH [of e ?x2] Cons.prems re rec1 len1 b fr step show ?thesis
      by (auto simp: e_def algebra_simps)
  qed
qed

end

section \<open>Whatever the peer answers\<close>

text \<open>The packets a transfer may send: blocks of the file under their own number, and the error
  for an acknowledgement that lies behind the window.\<close>

definition file_packet :: "bytes \<Rightarrow> nat \<Rightarrow> bytes \<Rightarrow> bool" where
  "file_packet data bs p \<longleftrightarrow> (\<exists>k. 0 < k \<and> k \<le> block_count data bs \<and> p = data_packet data bs k)"

definition stale_ack_packet :: "bytes \<Rightarrow> bool" where
  "stale_ack_packet p \<longleftrightarrow>
    (\<exists>c. p = butlast (error_packet (undefined_error ''Received ACK from the past'')) @ [c])"

lemma fire_error_packets:
  assumes "fire_error e st buf = Some (st', buf')"
  shows "\<exists>sent. outbox st' = outbox st @ sent \<and> (\<forall>p \<in> set sent. \<exists>c. p = butlast (error_packet e) @ [c])"
proof (cases "error_size e < length buf")
  case True
  then obtain c b where "TFTPError_serialize e buf = Some (Inr (error_size e), b)"
    "take (error_size e) b = butlast (error_packet e) @ [c]"
    using serialize_success [OF True] by fastforce
  with assms stream_send_outbox [of st "take (error_size e) b"] show ?thesis
    by (auto simp: fire_error_def split: prod.splits)
next
  case False
  then have "length buf < error_size e"
    using assms serialize_panics [of buf e] by (auto simp: fire_error_def not_less le_less)
  from serialize_too_small [OF this] assms show ?thesis
    by (auto simp: fire_error_def)
qed

lemma send_blocks_packets:
  "window_wf w \<Longrightarrow> send_blocks w st idxs = Some (r, st') \<Longrightarrow>
    \<exists>sent. outbox st' = outbox st @ sent \<and> set sent \<subseteq> set (window_packets w idxs)"
proof (induction idxs arbitrary: st)
  case (Cons i idxs)
  let ?p = "slot_content w (unat i mod length (buffers w))"
  obtain r1 st1 where s: "stream_send st ?p = (r1, st1)" by fastforce
  then have o: "outbox st1 = outbox st \<or> outbox st1 = outbox st @ [?p]"
    using stream_send_outbox [of st ?p] by simp
  show ?case
  proof (cases r1)
    case (Inl e)
    with Cons.prems s o show ?thesis
      by (auto simp: Window_send_wf window_packets_def)
  next
    case (Inr u)
    with Cons.prems s have "send_blocks w st1 idxs = Some (r, st')"
      by (auto simp: Window_send_wf)
    from Cons.IH [OF Cons.prems(1) this] obtain sent where
      "outbox st' = outbox st1 @ sent" "set sent \<subseteq> set (window_packets w idxs)" by blast
    with o show ?thesis
      by (auto simp: window_packets_def)
  qed
qed simp

lemma send_attempts_packets:
  "window_wf w \<Longrightarrow> send_attempts n w t st buf wi count = Some (r, st', buf') \<Longrightarrow>
    \<exists>sent. outbox st' = outbox st @ sent
      \<and> (\<forall>p \<in> set sent. p \<in> set (window_packets w (window_indices wi count)) \<or> stale_ack_packet p)"
proof (induction n arbitrary: st buf)
  case (Suc n)
  let ?ps = "window_packets w (window_indices wi count)"
  from Suc.prems obtain r1 st1 where s: "send_blocks w st (window_indices wi count) = Some (r1, st1)"
    by (auto split: bind_splits)
  from send_blocks_packets [OF Suc.prems(1) s] obtain sent1 where
    o1: "outbox st1 = outbox st @ sent1" "set sent1 \<subseteq> set ?ps" by blast
  obtain r2 st2 b2 where a: "read_acknowledge st1 buf t = (r2, st2, b2)" using prod_cases3 by blast
  then have o2: "outbox st2 = outbox st1" using read_acknowledge_frame by blast
  consider (again) "r1 = Inr ()" "send_attempts n w t st2 b2 wi count = Some (r, st', buf')"
    | (late) "r1 = Inr ()" "fire_error (undefined_error ''Received ACK from the past'') st2 b2 = Some (st', buf')"
    | (stop) "outbox st' = outbox st1"
    using Suc.prems(2) s a o2
    by (cases r1; cases r2) (auto split: RecvError.splits if_splits bind_splits)
  then show ?case
  proof cases
    case again
    from Suc.IH [OF Suc.prems(1) again(2)] o1 o2 show ?thesis by fastforce
  next
    case late
    from fire_error_packets [OF late(2)] o1 o2 show ?thesis
      unfolding stale_ack_packet_def by fastforce
  next
    case stop
    with o1 show ?thesis by auto
  qed
qed simp

lemma slot_hit:
  "slots_ok data bs K w \<Longrightarrow> 0 < k \<Longrightarrow> k \<le> K \<Longrightarrow> K \<le> block_count data bs \<Longrightarrow>
    file_packet data bs (slot_content w (slot_of w k))"
  unfolding slots_ok_def file_packet_def by (metis le_trans)

lemma window_packets_full:
  assumes "slots_ok data bs K w" "window_wf w" "length (buffers w) \<le> K" "K \<le> block_count data bs"
    and "p \<in> set (window_packets w idxs)"
  shows "file_packet data bs p"
proof -
  from assms(5) obtain j :: u16 where "p = slot_content w (unat j mod length (buffers w))"
    by (auto simp: window_packets_def)
  moreover from assms(2) have "0 < length (buffers w)" by (simp add: window_wf_def)
  ultimately obtain i where "i < length (buffers w)" "p = slot_content w i"
    using mod_less_divisor by blast
  with slots_filled [OF assms(1-3)] assms(4) show ?thesis
    unfolding file_packet_def by (meson le_trans)
qed

context opened_file begin

lemma send_loop_packets:
  assumes "xinv data bs K x" "0 < bs" "K < block_count data bs"
    and "K = 0 \<and> last_acknowledged_index x = 0 \<or> length (buffers (xf_window x)) \<le> K"
    and "send_loop dbg read_to t x = Some (r, x')"
  shows "\<exists>sent. outbox (xf_stream x') = outbox (xf_stream x) @ sent
    \<and> (\<forall>p \<in> set sent. file_packet data bs p \<or> stale_ack_packet p)"
  using assms
proof (induction "length (inbox (xf_stream x))" arbitrary: K x rule: less_induct)
  case less
  let ?L = "length (buffers (xf_window x))" and ?N = "block_count data bs"
  define u where "u = last_read_index x - last_acknowledged_index x"
  have inv: "window_wf (xf_window x)" "last_read_index x = of_nat K" "slots_ok data bs K (xf_window x)"
    using less.prems(1) by (auto simp: xinv_def)
  have u0: "K = 0 \<Longrightarrow> u = 0" using less.prems(4) inv by (auto simp: u_def window_wf_def)
  have "\<exists>to_send fin x1 K1. fill_window read_to x u = Some (Inr (to_send, fin), x1) \<and> xinv data bs K1 x1
      \<and> length (buffers (xf_window x1)) = ?L \<and> K1 \<le> ?N
      \<and> (\<not> fin \<longrightarrow> K1 < ?N \<and> ?L \<le> K1) \<and> (?L \<le> K1 \<or> K = 0 \<and> to_send = of_nat K1 \<and> K1 < ?L)"
  proof (cases "unat u \<le> ?L")
    case True
    define m where "m = min (?L - unat u) (?N - K)"
    obtain x1 where "fill_window read_to x u = Some (Inr (u + of_nat m, ?N \<le> K + (?L - unat u)), x1)"
      "xinv data bs (K + m) x1" "length (buffers (xf_window x1)) = ?L"
      using fill_healthy [OF less.prems(1-3) True m_def] by blast
    moreover have "K + m \<le> ?N" using less.prems(3) by (simp add: m_def)
    moreover have "K + m < ?N \<and> ?L \<le> K + m" if "\<not> ?N \<le> K + (?L - unat u)"
      using that less.prems(4) u0 by (auto simp: m_def)
    moreover have "?L \<le> K + m \<or> K = 0 \<and> u + of_nat m = of_nat (K + m) \<and> K + m < ?L"
      using less.prems(4) u0 by auto
    ultimately show ?thesis by blast
  next
    case False
    then have "\<not> u < Window_size (xf_window x)"
      using unat_Window_size [OF inv(1)] by (simp add: word_less_nat_alt)
    moreover have "?L \<le> K" using False less.prems(4) u0 by auto
    ultimately show ?thesis
      using less.prems(1,3) by (intro exI [where x = u] exI [where x = False] exI [where x = x]
          exI [where x = K]) (simp add: fill_window_full)
  qed
  then obtain to_send fin x1 K1 where fw: "fill_window read_to x u = Some (Inr (to_send, fin), x1)"
    and inv1: "xinv data bs K1 x1" and len: "length (buffers (xf_window x1)) = ?L" and K1: "K1 \<le> ?N"
    and more: "\<not> fin \<longrightarrow> K1 < ?N \<and> ?L \<le> K1"
    and filled: "?L \<le> K1 \<or> K = 0 \<and> to_send = of_nat K1 \<and> K1 < ?L" by blast
  note fr = fill_window_frame [OF fw]
  let ?wi = "last_acknowledged_index x1 + 1"
  have ok: "file_packet data bs p" if "p \<in> set (window_packets (xf_window x1) (window_indices ?wi to_send))" for p
    using filled
  proof
    assume "?L \<le> K1"
    with inv1 len K1 that show ?thesis
      by (intro window_packets_full [of data bs K1 "xf_window x1"]) (auto simp: xinv_def)
  next
    assume small: "K = 0 \<and> to_send = of_nat K1 \<and> K1 < ?L"
    with inv(1) less.prems(4) have "K1 < 65536" "last_acknowledged_index x = of_nat 0"
      by (auto simp: window_wf_def)
    with small fr have "window_indices ?wi to_send = map of_nat [Suc 0..<Suc K1]"
      using window_indices_of_nat [of K1 0] by (simp del: upt_Suc)
    with that obtain k where "0 < k" "k \<le> K1" "p = slot_content (xf_window x1) (slot_of (xf_window x1) k)"
      by (fastforce simp: window_packets_def slot_of_def less_Suc_eq_le Suc_le_eq simp del: upt_Suc)
    with inv1 K1 show ?thesis by (auto simp: xinv_def intro: slot_hit)
  qed
  show ?case
  proof (cases "send_reliably (xf_window x1) t (xf_stream x1) (xf_buffer x1) ?wi to_send")
    case None
    with less.prems(5) fw show ?thesis
      by (auto simp: send_loop.simps [of dbg read_to t x] u_def [symmetric] Let_def split: if_splits)
  next
    case (Some y)
    obtain r2 st2 b2 where sr:
      "send_reliably (xf_window x1) t (xf_stream x1) (xf_buffer x1) ?wi to_send = Some (r2, st2, b2)"
      using Some prod_cases3 by metis
    have wf1: "window_wf (xf_window x1)" using inv1 by (simp add: xinv_def)
    obtain sent1 where s1: "outbox st2 = outbox (xf_stream x1) @ sent1"
      "\<forall>p \<in> set sent1. p \<in> set (window_packets (xf_window x1) (window_indices ?wi to_send))
        \<or> stale_ack_packet p"
      using send_attempts_packets [OF wf1 sr [unfolded send_reliably_def]] by blast
    then have o1: "outbox st2 = outbox (xf_stream x) @ sent1"
      "\<forall>p \<in> set sent1. file_packet data bs p \<or> stale_ack_packet p"
      using fr ok by auto
    show ?thesis
    proof (cases "\<not> fin \<and> (\<exists>ack. r2 = Inr ack)")
      case True
      then obtain ack where ack: "r2 = Inr ack" by blast
      let ?x2 = "x1\<lparr>xf_stream := st2, xf_buffer := b2, last_acknowledged_index := ack\<rparr>"
      have "send_loop dbg read_to t ?x2 = Some (r, x')"
        using less.prems(5) fw sr True ack
        by (auto simp: send_loop.simps [of dbg read_to t x] u_def [symmetric] Let_def split: if_splits)
      moreover have "length (inbox st2) < length (inbox (xf_stream x))"
        using send_reliably_shrinks [of "xf_window x1"] sr ack fr by auto
      ultimately obtain sent2 where "outbox (xf_stream x') = outbox st2 @ sent2"
        "\<forall>p \<in> set sent2. file_packet data bs p \<or> stale_ack_packet p"
        using less.hyps [of ?x2 K1] inv1 less.prems(2) more True len by (auto simp: xinv_def)
      with o1 show ?thesis by auto
    next
      case False
      then have "xf_stream x' = st2"
        using less.prems(5) fw sr
        by (auto simp: send_loop.simps [of dbg read_to t x] u_def [symmetric] Let_def
            split: if_splits sum.splits SendError.splits)
      with o1 show ?thesis by auto
    qed
  qed
qed

end

end
