(* ===== verification/Peer_Session.thy ===== *)
theory Peer_Session
  imports Peer_Delivery
begin

text \<open>
  A whole session of \<open>src/peer_handler/mod.rs\<close>: what a receiver that keeps the blocks in order makes of the
  packets, the session from the option negotiation to the last block, a silent peer, and that a
  session does not panic. As in \<open>Peer_Delivery\<close>, the lemmas hold for every file that keeps the contract of
  \<open>opened_file\<close>, or for the absence of panics of \<open>total_file\<close>.
\<close>

section \<open>The receiver\<close>

text \<open>A receiver that waits for block \<open>k\<close> keeps the payload of the next packet with that number.\<close>

fun receive :: "nat \<Rightarrow> bytes list \<Rightarrow> bytes" where
  "receive k [] = []"
| "receive k (p # ps) =
    (if take 4 p = be_bytes DATA @ be_bytes (of_nat k) then drop 4 p @ receive (Suc k) ps
     else receive k ps)"

lemma take_data_packet: "take 4 (data_packet data bs k) = be_bytes DATA @ be_bytes (of_nat k)"
  and drop_data_packet: "drop 4 (data_packet data bs k) = chunk data bs k"
  by (simp_all add: data_packet_def be_bytes_def)

lemma be_bytes_inject: "be_bytes a = be_bytes b \<longleftrightarrow> a = b"
  by (metis be_bytes_def be_bytes_inverse list.inject)

lemma receive_in_order:
  "receive (Suc a) (map (data_packet data bs) [Suc a..<Suc (a + m)] @ ps)
    = concat (map (chunk data bs) [Suc a..<Suc (a + m)]) @ receive (Suc (a + m)) ps"
proof (induction m arbitrary: a)
  case (Suc m)
  have "[Suc a..<Suc (a + Suc m)] = Suc a # [Suc (Suc a)..<Suc (Suc a + m)]"
    by (simp add: upt_conv_Cons del: upt_Suc)
  with Suc [of "Suc a"] show ?case
    by (simp add: take_data_packet drop_data_packet del: upt_Suc of_nat_Suc)
qed simp

lemma receive_repeated:
  assumes "e < a + 65536"
  shows "receive (Suc e) (map (data_packet data bs) [Suc a..<Suc e] @ ps) = receive (Suc e) ps"
proof -
  have "receive (Suc e) (map (data_packet data bs) ks @ ps) = receive (Suc e) ps"
    if "\<forall>k \<in> set ks. a < k \<and> k \<le> e" for ks
    using that
  proof (induction ks)
    case (Cons k ks)
    then have "k < Suc e" "Suc e < k + 65536" using assms by auto
    then have "(of_nat k :: u16) \<noteq> of_nat (Suc e)"
      using mod_neq_of_close [of k "Suc e" 65536] unat_of_nat_u16 by metis
    with Cons show ?case
      by (simp add: take_data_packet be_bytes_inject del: of_nat_Suc)
  qed simp
  then show ?thesis by (simp add: less_Suc_eq_le Suc_le_eq del: upt_Suc)
qed

lemma receive_delivered:
  assumes "L < 65536" "delivers peer cap L n a rounds"
  shows "receive (Suc a) (delivered data bs L n a rounds) = concat (map (chunk data bs) [Suc a..<Suc n])"
  using assms(2)
proof (induction rounds arbitrary: a)
  case (Cons re rounds)
  obtain r es where re: "re = (r, es)" by fastforce
  define e where "e = min (a + L) n"
  define m where "m = e - a"
  from Cons.prems re have e: "e = a + m" "e \<le> n" "e < a + 65536" using assms(1) by (auto simp: e_def m_def)
  let ?w = "map (data_packet data bs) [Suc a..<Suc e]"
  have rep: "receive (Suc e) (concat (replicate r ?w) @ ps) = receive (Suc e) ps" for ps
    by (induction r) (simp_all add: receive_repeated [OF e(3)] del: upt_Suc)
  have "[Suc a..<Suc n] = [Suc a..<Suc e] @ [Suc e..<Suc n]"
    using upt_add_eq_append [of "Suc a" "Suc e" "n - e"] e by (simp del: upt_Suc)
  moreover have "receive (Suc a) (delivered data bs L n a (re # rounds))
      = concat (map (chunk data bs) [Suc a..<Suc e]) @ receive (Suc e) (delivered data bs L n e rounds)"
    using receive_in_order [of a data bs m "concat (replicate r ?w) @ delivered data bs L n e rounds"] re e rep
    by (simp add: e_def [symmetric] del: upt_Suc)
  moreover have "delivers peer cap L n e rounds" using Cons.prems re by (simp add: e_def)
  ultimately show ?case using Cons.IH by (simp del: upt_Suc)
qed simp

section \<open>The transfer of a file\<close>

lemma delivered_is_the_file:
  assumes "0 < bs" "L < 65536" "delivers peer cap L (block_count data bs) 0 rounds"
  shows "receive 1 (delivered data bs L (block_count data bs) 0 rounds) = data"
  using receive_delivered [OF assms(2,3), of data bs] blocks_reassemble [OF assms(1), of data]
  by (simp del: upt_Suc)

context opened_file begin

lemma xinv_start:
  assumes "healthy f" "window_wf w"
  shows "xinv (rest f) (unat (win_block_size w)) 0 \<lparr>xf_file = f, xf_window = w, xf_stream = st, xf_buffer = buf,
      bytes_sent = 0, blocks_sent = 0, last_acknowledged_index = 0, last_read_index = 0\<rparr>"
  using assms by (simp add: xinv_def slots_ok_0)

lemma send_file_delivers:
  assumes "healthy f" "window_wf w" "bs = unat (win_block_size w)" "0 < bs"
    and "L = length (buffers w)" "L = 1 \<or> block_count (rest f) bs < 65536"
    and "delivers (peer_address st) (length buf) L (block_count (rest f) bs) 0 rounds"
    and "inbox st = concat (map snd rounds) @ later" "send_results st = []" "4 \<le> length buf"
  shows "\<exists>x'. send_file dbg read_to f st w t buf = Some (Inr (length (rest f), 0), x')
    \<and> outbox (xf_stream x') = outbox st @ delivered (rest f) bs L (block_count (rest f) bs) 0 rounds
    \<and> inbox (xf_stream x') = later
    \<and> waited (xf_stream x') = waited st + sum_list (map fst rounds) * timeout t"
  using send_loop_delivers [OF xinv_start [OF assms(1,2)], of st buf L rounds later dbg t] assms
  by (simp add: send_file_def recent_0 block_count_def)

lemma send_file_packets:
  assumes "healthy f" "window_wf w" "bs = unat (win_block_size w)" "0 < bs"
    and "send_file dbg read_to f st w t buf = Some (r, x')"
  shows "\<exists>sent. outbox (xf_stream x') = outbox st @ sent
    \<and> (\<forall>p \<in> set sent. file_packet (rest f) bs p \<or> stale_ack_packet p)"
  using send_loop_packets [OF xinv_start [OF assms(1,2)], of st buf dbg t r x'] assms
  by (simp add: send_file_def block_count_def)

text \<open>The first window of a transfer: as many blocks as fit, each in its slot.\<close>

lemma first_window:
  assumes "healthy f" "window_wf w" "bs = unat (win_block_size w)" "0 < bs"
    and "m = min (length (buffers w)) (block_count (rest f) bs)"
    and "x = \<lparr>xf_file = f, xf_window = w, xf_stream = st, xf_buffer = buf,
      bytes_sent = 0, blocks_sent = 0, last_acknowledged_index = 0, last_read_index = 0\<rparr>"
  shows "\<exists>x1. fill_window read_to x 0 = Some (Inr (of_nat m, block_count (rest f) bs \<le> length (buffers w)), x1)
    \<and> xinv (rest f) bs m x1 \<and> window_wf (xf_window x1) \<and> (of_nat m :: u16) \<le> Window_size (xf_window x1)
    \<and> window_packets (xf_window x1) (window_indices 1 (of_nat m)) = map (data_packet (rest f) bs) [1..<Suc m]"
proof -
  let ?N = "block_count (rest f) bs" and ?L = "length (buffers w)"
  have L: "0 < ?L" "?L < 65536" using assms(2) by (auto simp: window_wf_def)
  have inv: "xinv (rest f) bs 0 x" using xinv_start [OF assms(1,2)] assms(3,6) by simp
  have N: "0 < ?N" by (simp add: block_count_def)
  have m: "m = min (?L - unat (0 :: u16)) (?N - 0)" "m < 65536" using assms(5) L by auto
  obtain x1 where fw: "fill_window read_to x 0 = Some (Inr (of_nat m, ?N \<le> ?L), x1)"
    and inv1: "xinv (rest f) bs m x1" and len: "length (buffers (xf_window x1)) = ?L"
    and rec: "recent (rest f) bs m (xf_window x1)"
    using fill_healthy [OF inv assms(4) N, of 0 m] m assms(6) recent_0 [of "rest f" bs w] by auto
  have wf1: "window_wf (xf_window x1)" using inv1 by (simp add: xinv_def)
  have "window_packets (xf_window x1) (window_indices 1 (of_nat m)) = map (data_packet (rest f) bs) [1..<Suc m]"
    using window_packets_recent [OF rec, of 0] window_indices_of_nat [OF m(2), of 0] len assms(5)
    by (simp del: upt_Suc)
  moreover have "(of_nat m :: u16) \<le> Window_size (xf_window x1)"
    unfolding word_le_nat_alt using m L unat_Window_size [OF wf1] len by (simp add: unat_of_nat_u16)
  ultimately show ?thesis using fw inv1 wf1 by blast
qed

text \<open>A peer that never answers.\<close>

lemma send_file_silent:
  assumes "healthy f" "window_wf w" "bs = unat (win_block_size w)" "0 < bs"
    and "m = min (length (buffers w)) (block_count (rest f) bs)"
    and "inbox st = []" "send_results st = []"
  shows "\<exists>x'. send_file dbg read_to f st w t buf
      = Some (Inl (undefined_error ''Send timeout occurred''), x')
    \<and> outbox (xf_stream x') = outbox st
        @ concat (replicate (unat SEND_ATTEMPTS) (map (data_packet (rest f) bs) [1..<Suc m]))
    \<and> waited (xf_stream x') = waited st + unat SEND_ATTEMPTS * timeout t"
proof -
  let ?x = "\<lparr>xf_file = f, xf_window = w, xf_stream = st, xf_buffer = buf,
      bytes_sent = 0, blocks_sent = 0, last_acknowledged_index = 0, last_read_index = 0\<rparr>"
  obtain fin x1 where fw: "fill_window read_to ?x 0 = Some (Inr (of_nat m, fin), x1)"
    and wf1: "window_wf (xf_window x1)" and le: "(of_nat m :: u16) \<le> Window_size (xf_window x1)"
    and wp: "window_packets (xf_window x1) (window_indices 1 (of_nat m)) = map (data_packet (rest f) bs) [1..<Suc m]"
    using first_window [OF assms(1-5) refl] by blast
  note fr = fill_window_frame [OF fw]
  have "send_reliably (xf_window x1) t (xf_stream x1) (xf_buffer x1) (last_acknowledged_index x1 + 1) (of_nat m)
      = Some (Inl SendTimeout, st\<lparr>waited := waited st + unat SEND_ATTEMPTS * timeout t,
          outbox := outbox st @ concat (replicate (unat SEND_ATTEMPTS) (map (data_packet (rest f) bs) [1..<Suc m]))\<rparr>, buf)"
    unfolding send_reliably_def
    using send_attempts_silent [OF wf1, of "xf_stream x1" "unat SEND_ATTEMPTS" t "xf_buffer x1" 1 "of_nat m"] fr assms(6,7) wp
    by simp
  with fw le show ?thesis
    by (simp add: send_file_def send_loop.simps [of dbg read_to t ?x] Let_def)
qed

text \<open>When the whole file fits the window, the first acknowledgement that is not 0 ends the transfer,
  whatever block it names.\<close>

lemma send_file_first_ack:
  assumes "healthy f" "window_wf w" "bs = unat (win_block_size w)" "0 < bs"
    and "block_count (rest f) bs \<le> length (buffers w)" "1 \<le> ack"
    and "inbox st = Arrives (peer_address st) (ack_packet ack) # es" "send_results st = []" "4 \<le> length buf"
  shows "\<exists>x'. send_file dbg read_to f st w t buf = Some (Inr (length (rest f), 0), x')
    \<and> outbox (xf_stream x') = outbox st @ map (data_packet (rest f) bs) [1..<Suc (block_count (rest f) bs)]
    \<and> inbox (xf_stream x') = es"
proof -
  let ?N = "block_count (rest f) bs"
  let ?x = "\<lparr>xf_file = f, xf_window = w, xf_stream = st, xf_buffer = buf,
      bytes_sent = 0, blocks_sent = 0, last_acknowledged_index = 0, last_read_index = 0\<rparr>"
  have m: "?N = min (length (buffers w)) ?N" using assms(5) by simp
  obtain x1 where fw: "fill_window read_to ?x 0 = Some (Inr (of_nat ?N, True), x1)"
    and inv: "xinv (rest f) bs ?N x1"
    and wf1: "window_wf (xf_window x1)" and le: "(of_nat ?N :: u16) \<le> Window_size (xf_window x1)"
    and wp: "window_packets (xf_window x1) (window_indices 1 (of_nat ?N)) = map (data_packet (rest f) bs) [1..<Suc ?N]"
    using first_window [OF assms(1-4) m refl, of st buf] assms(5) by auto
  note fr = fill_window_frame [OF fw]
  have all: "bytes_sent x1 = length (rest f)"
    using inv block_count_covers [OF assms(4), of "rest f"] by (simp add: xinv_def)
  obtain buf' where "send_reliably (xf_window x1) t (xf_stream x1) (xf_buffer x1) (last_acknowledged_index x1 + 1) (of_nat ?N)
      = Some (Inr ack, st\<lparr>inbox := es, outbox := outbox st @ map (data_packet (rest f) bs) [1..<Suc ?N]\<rparr>, buf')"
    unfolding send_reliably_def
    using send_attempts_answers [OF wf1, of st buf 1 ack 0 "unat SEND_ATTEMPTS"
        "[Arrives (peer_address st) (ack_packet ack)]" es t "of_nat ?N"] fr assms(6-9) wp
    by (auto simp: SEND_ATTEMPTS_def)
  with fw le fr all show ?thesis
    by (simp add: send_file_def send_loop.simps [of dbg read_to t ?x] Let_def)
qed

end

section \<open>Nothing panics\<close>

lemma fire_error_runs:
  assumes "error_size e \<noteq> length buf"
  shows "\<exists>st' buf'. fire_error e st buf = Some (st', buf') \<and> length buf' = length buf"
proof -
  from assms consider "error_size e < length buf" | "length buf < error_size e" by linarith
  then show ?thesis
  proof cases
    case 1
    from serialize_success [OF this] show ?thesis by (auto simp: fire_error_def)
  next
    case 2
    from serialize_too_small [OF this] show ?thesis by (auto simp: fire_error_def)
  qed
qed

lemma send_blocks_runs: "window_wf w \<Longrightarrow> \<exists>r st'. send_blocks w st idxs = Some (r, st')"
proof (induction idxs arbitrary: st)
  case (Cons i idxs)
  obtain r st1 where "stream_send st (slot_content w (unat i mod length (buffers w))) = (r, st1)" by fastforce
  with Cons show ?case by (cases r) (auto simp: Window_send_wf)
qed simp

text \<open>The errors a transfer sends are short.\<close>

lemma short_errors:
  "error_size (undefined_error ''Received ACK from the past'') < 64"
  "error_size (undefined_error ''Send timeout occurred'') < 64"
  "error_size (undefined_error ''Unknown error occurred'') < 64"
  "error_size (undefined_error ''Read file error occurred'') < 64"
  "error_size (undefined_error ''Unexpected non-zero ACK'') < 64"
  "error_size (undefined_error ''OACK build error'') < 64"
  by (simp_all add: error_size_def undefined_error_def)

lemma send_attempts_runs:
  "window_wf w \<Longrightarrow> 64 \<le> length buf \<Longrightarrow> \<exists>r st' buf'. send_attempts n w t st buf wi count = Some (r, st', buf')"
proof (induction n arbitrary: st buf)
  case (Suc n)
  obtain r1 st1 where s: "send_blocks w st (window_indices wi count) = Some (r1, st1)"
    using send_blocks_runs [OF Suc.prems(1)] by blast
  obtain r2 st2 b2 where a: "read_acknowledge st1 buf t = (r2, st2, b2)" using prod_cases3 by blast
  have len: "length b2 = length buf" using read_acknowledge_frame [OF a] by simp
  obtain st3 b3 where "fire_error (undefined_error ''Received ACK from the past'') st2 b2 = Some (st3, b3)"
    using fire_error_runs [of "undefined_error ''Received ACK from the past''" b2 st2] short_errors(1) len Suc.prems(2)
    by fastforce
  with s a Suc.IH [of b2 st2] Suc.prems len show ?case
    by (cases r1; cases r2) (auto split: RecvError.splits)
qed simp

context total_file begin

lemma push_block_runs:
  assumes "window_wf w" "safe f"
  shows "\<exists>r f' w'. push_block read_to w f idx = Some (r, f', w') \<and> window_wf w' \<and> safe f'"
proof -
  from push_block_wf [OF assms(1), of f idx] obtain buf where
    "case read_to f buf of
      None \<Rightarrow> push_block read_to w f idx = None
    | Some (_, f', _) \<Rightarrow> \<exists>r w'. push_block read_to w f idx = Some (r, f', w') \<and> window_wf w'" ..
  moreover obtain r f' b where "read_to f buf = Some (r, f', b)" "safe f'"
    using read_to_runs [OF assms(2)] by blast
  ultimately show ?thesis by auto
qed

lemma fill_window_runs:
  assumes "window_wf (xf_window x)" "safe (xf_file x)"
  shows "\<exists>r x'. fill_window read_to x to_send = Some (r, x') \<and> window_wf (xf_window x') \<and> safe (xf_file x')
    \<and> (\<forall>e. r = Inl e \<longrightarrow> e = undefined_error ''Read file error occurred'')"
  using assms
proof (induction x to_send rule: fill_window_induct [where read_to = read_to])
  case (read x to_send)
  show ?case
  proof (cases "to_send < Window_size (xf_window x)")
    case lt: True
    obtain r f w where p: "push_block read_to (xf_window x) (xf_file x) (last_read_index x + 1) = Some (r, f, w)"
      and w: "window_wf w" "safe f"
      using push_block_runs [OF read.prems] by blast
    show ?thesis
    proof (cases r)
      case (Inl e)
      with lt p w show ?thesis by (simp add: fill_window.simps [of read_to x])
    next
      case (Inr kl)
      obtain k l where kl: "kl = (k, l)" by fastforce
      with Inr p have p': "push_block read_to (xf_window x) (xf_file x) (last_read_index x + 1) = Some (Inr (k, l), f, w)"
        by simp
      show ?thesis
        using fill_window_read [OF lt p'] read.IH [OF lt, of k f w] p' w
        by (cases l) (auto simp: after_read_def)
    qed
  next
    case False
    with read.prems show ?thesis by (simp add: fill_window_full)
  qed
qed

lemma send_loop_runs:
  assumes "safe (xf_file x)" "window_wf (xf_window x)" "64 \<le> length (xf_buffer x)"
  shows "\<exists>r x'. send_loop False read_to t x = Some (r, x') \<and> length (xf_buffer x') = length (xf_buffer x)
    \<and> (\<forall>e. r = Inl e \<longrightarrow> error_size e < 64)"
  using assms
proof (induction "length (inbox (xf_stream x))" arbitrary: x rule: less_induct)
  case less
  let ?u = "last_read_index x - last_acknowledged_index x"
  obtain fr x1 where fw: "fill_window read_to x ?u = Some (fr, x1)" and w1: "window_wf (xf_window x1)" "safe (xf_file x1)"
    and fe: "\<forall>e. fr = Inl e \<longrightarrow> e = undefined_error ''Read file error occurred''"
    using fill_window_runs [OF less.prems(2,1)] by blast
  note fr1 = fill_window_frame [OF fw]
  show ?case
  proof (cases fr)
    case (Inl e)
    with fe fw fr1 short_errors show ?thesis
      by (simp add: send_loop.simps [of False read_to t x] Let_def)
  next
    case (Inr td)
    obtain to_send fin where td: "td = (to_send, fin)" by fastforce
    obtain r2 st2 b2 where sr: "send_reliably (xf_window x1) t (xf_stream x1) (xf_buffer x1)
        (last_acknowledged_index x1 + 1) to_send = Some (r2, st2, b2)"
      unfolding send_reliably_def using send_attempts_runs [OF w1(1)] less.prems(3) fr1 by metis
    have b2: "length b2 = length (xf_buffer x)"
      using send_attempts_shrinks [OF sr [unfolded send_reliably_def]] fr1 by simp
    show ?thesis
    proof (cases "\<not> fin \<and> (\<exists>ack. r2 = Inr ack)")
      case True
      then obtain ack where ack: "r2 = Inr ack" by blast
      let ?x2 = "x1\<lparr>xf_stream := st2, xf_buffer := b2, last_acknowledged_index := ack\<rparr>"
      have "length (inbox st2) < length (inbox (xf_stream x))"
        using send_reliably_shrinks [of "xf_window x1"] sr ack fr1 by auto
      from less.hyps [of ?x2] this w1 b2 less.prems(3) show ?thesis
        using fw Inr td sr True ack by (simp add: send_loop.simps [of False read_to t x] Let_def)
    next
      case False
      with fw Inr td sr b2 short_errors show ?thesis
        by (cases r2) (auto simp: send_loop.simps [of False read_to t x] Let_def split: SendError.splits)
    qed
  qed
qed

end

section \<open>What is negotiated\<close>

definition option_list :: "('o \<Rightarrow> rstr \<times> rstr) \<Rightarrow> 'o option \<Rightarrow> (rstr \<times> rstr) list" where
  "option_list pair x = (case x of Some v \<Rightarrow> [pair v] | None \<Rightarrow> [])"

definition obtained_tsize :: "'f get_size \<Rightarrow> 'f \<Rightarrow> (rstr \<rightharpoonup> rstr) \<Rightarrow> TSize option" where
  "obtained_tsize get_size f opts =
    (if TSize_is_requested opts then (case fst (TSize_obtain get_size f) of Inr ts \<Rightarrow> Some ts | Inl _ \<Rightarrow> None) else None)"

definition or_default :: "'o \<Rightarrow> 'o option \<Rightarrow> 'o" where
  "or_default d x = (case x of Some v \<Rightarrow> v | None \<Rightarrow> d)"

lemma negotiated_oack_eq:
  "negotiated_oack get_size f opts =
    (\<lparr>oack_options = option_list AckTimeout_as_key_pair (AckTimeout_find_in opts)
        @ option_list Blksize_as_key_pair (Blksize_find_in opts)
        @ option_list TSize_as_key_pair (obtained_tsize get_size f opts)
        @ option_list WindowSize_as_key_pair (WindowSize_find_in opts)\<rparr>,
     or_default AckTimeout_default (AckTimeout_find_in opts),
     or_default Blksize_default (Blksize_find_in opts),
     or_default WindowSize_default (WindowSize_find_in opts),
     (if TSize_is_requested opts then snd (TSize_obtain get_size f) else f))"
  by (simp add: negotiated_oack_def OptionsAcknowledge_new_def OptionsAcknowledge_push_def option_list_def
      obtained_tsize_def or_default_def Let_def split: option.splits prod.splits sum.splits)

text \<open>Of the file only its size matters.\<close>

lemma negotiated_for_size:
  assumes "negotiated_oack (\<lambda>u. (Inr n, u)) () opts = (oack, t, b, ws, ())" "get_size f = (Inr n, f)"
  shows "negotiated_oack get_size f opts = (oack, t, b, ws, f)"
  using assms by (auto simp: negotiated_oack_eq obtained_tsize_def TSize_obtain_def)

text \<open>The sizes fit their types: the conversion to \<open>u16\<close> loses nothing, and the window has a slot.\<close>

lemma negotiated_sizes:
  "8 \<le> Blksize_get_size (or_default Blksize_default (Blksize_find_in opts))"
  "Blksize_get_size (or_default Blksize_default (Blksize_find_in opts)) \<le> 65535"
  "1 \<le> WindowSize_get_size (or_default WindowSize_default (WindowSize_find_in opts))"
  "WindowSize_get_size (or_default WindowSize_default (WindowSize_find_in opts)) \<le> 65535"
  using blksize.found_in_range [of opts] window_size.found_in_range [of opts]
  by (auto simp: or_default_def Blksize_default_def WindowSize_default_def Blksize_get_size_def
      WindowSize_get_size_def BLOCK_SIZE_BOTTOM_CAP_def BLOCK_SIZE_UPPER_CAP_def WINDOW_SIZE_BOTTOM_CAP_def
      WINDOW_SIZE_UPPER_CAP_def split: option.splits)

lemma negotiated_window:
  assumes "w = Window_new (of_nat (Blksize_get_size (or_default Blksize_default (Blksize_find_in opts))))
      (of_nat (WindowSize_get_size (or_default WindowSize_default (WindowSize_find_in opts))))"
  shows "window_wf w"
    "unat (win_block_size w) = Blksize_get_size (or_default Blksize_default (Blksize_find_in opts))"
    "length (buffers w) = WindowSize_get_size (or_default WindowSize_default (WindowSize_find_in opts))"
proof -
  let ?ws = "of_nat (WindowSize_get_size (or_default WindowSize_default (WindowSize_find_in opts))) :: u16"
  have "unat ?ws = WindowSize_get_size (or_default WindowSize_default (WindowSize_find_in opts))"
    using negotiated_sizes(4) [of opts] by (simp add: unat_of_nat_u16)
  moreover from this have "0 < ?ws" using negotiated_sizes(3) [of opts] by (simp add: word_less_nat_alt)
  ultimately show "window_wf w"
    "length (buffers w) = WindowSize_get_size (or_default WindowSize_default (WindowSize_find_in opts))"
    "unat (win_block_size w) = Blksize_get_size (or_default Blksize_default (Blksize_find_in opts))"
    using assms negotiated_sizes(2) [of opts] by (simp_all add: window_wf_new unat_of_nat_u16)
qed

lemma length_usize_to_string: "n < 10 ^ k \<Longrightarrow> 0 < k \<Longrightarrow> length (usize_to_string n) \<le> k"
proof (induction k arbitrary: n)
  case (Suc k)
  show ?case
  proof (cases "n < 10")
    case False
    with Suc.prems have "0 < k" by (cases k) auto
    moreover from Suc.prems have "n div 10 < 10 ^ k" by (simp add: less_mult_imp_div_less mult.commute)
    moreover note Suc.IH
    ultimately have "length (usize_to_string (n div 10)) \<le> k" by blast
    with False show ?thesis by (simp add: usize_to_string.simps [of n])
  qed (simp add: usize_to_string.simps [of n])
qed simp

lemma length_number: "n < usize_modulus \<Longrightarrow> length (usize_to_string n) \<le> 20"
  by (rule length_usize_to_string) (simp_all add: usize_modulus_def)

lemma option_bytes_append [simp]: "option_bytes (xs @ ys) = option_bytes xs @ option_bytes ys"
  by (simp add: option_bytes_def)

lemma option_list_bytes:
  assumes "\<And>v. x = Some v \<Longrightarrow> length (fst (pair v)) \<le> 10 \<and> length (snd (pair v)) \<le> 20"
  shows "length (option_bytes (option_list pair x)) \<le> 32"
proof (cases x)
  case (Some v)
  obtain k n where "pair v = (k, n)" by fastforce
  with assms [OF Some] Some show ?thesis by (simp add: option_list_def)
qed (simp add: option_list_def)

lemma negotiated_oack_size:
  assumes "\<And>n f'. get_size f = (Inr n, f') \<Longrightarrow> n < usize_modulus"
  shows "length (oack_packet (oack_options (fst (negotiated_oack get_size f opts)))) \<le> 130"
proof -
  have "length (option_bytes (option_list AckTimeout_as_key_pair (AckTimeout_find_in opts))) \<le> 32"
    using ack_timeout.found_in_range [of opts] ack_timeout.hi_fits
    by (intro option_list_bytes) (auto simp: AckTimeout_as_key_pair_def TIMEOUT_def intro: length_number)
  moreover have "length (option_bytes (option_list Blksize_as_key_pair (Blksize_find_in opts))) \<le> 32"
    using blksize.found_in_range [of opts] blksize.hi_fits
    by (intro option_list_bytes) (auto simp: Blksize_as_key_pair_def BLKSIZE_def intro: length_number)
  moreover have "length (option_bytes (option_list WindowSize_as_key_pair (WindowSize_find_in opts))) \<le> 32"
    using window_size.found_in_range [of opts] window_size.hi_fits
    by (intro option_list_bytes) (auto simp: WindowSize_as_key_pair_def WINDOW_SIZE_def intro: length_number)
  moreover have "length (option_bytes (option_list TSize_as_key_pair (obtained_tsize get_size f opts))) \<le> 32"
    using assms
    by (intro option_list_bytes) (auto simp: TSize_as_key_pair_def TSIZE_def obtained_tsize_def TSize_obtain_def
        split: if_splits sum.splits prod.splits intro!: length_number)
  ultimately show ?thesis by (simp add: negotiated_oack_eq oack_packet_def)
qed

section \<open>The session\<close>

text \<open>The acknowledgement of the options is answered at the first attempt.\<close>

lemma send_oack_acked:
  assumes "has_options oack" "length (oack_packet (oack_options oack)) < length buf" "buf = replicate n 0"
    and "answers (peer_address st) (length buf) 0 0 hello" "inbox st = hello @ es" "send_results st = []"
  shows "\<exists>buf'. length buf' = length buf \<and> send_oack_reliably oack st t buf =
    Some (Inr (), st\<lparr>inbox := es, outbox := outbox st @ [oack_packet (oack_options oack)]\<rparr>, buf')"
proof -
  let ?p = "oack_packet (oack_options oack)"
  from assms obtain b where b: "OptionsAcknowledge_serialize oack buf = Some (Inr (length ?p), b)"
    "length b = length buf" "take (length ?p) b = ?p"
    using OptionsAcknowledge_serialize_zeroed [of oack n] by (auto simp: has_options_def)
  have four: "4 \<le> length b" using assms(1,2) b(2)
    by (cases "oack_options oack") (auto simp: has_options_def oack_packet_def)
  let ?st = "st\<lparr>outbox := outbox st @ [?p]\<rparr>"
  obtain b' where "length b' = length b" "read_acknowledge ?st b t = (Inr 0, ?st\<lparr>inbox := es\<rparr>, b')"
    using read_acknowledge_answers [of ?st b 0 0 hello es t] assms(4,5) b(2) four by auto
  moreover have "0 < unat SEND_ATTEMPTS" by (simp add: SEND_ATTEMPTS_def)
  then obtain n where "unat SEND_ATTEMPTS = Suc n" using gr0_implies_Suc by blast
  ultimately show ?thesis
    using b assms(6) by (auto simp: send_oack_reliably_def stream_send_reliable)
qed

context opened_file begin

lemma negotiated_file:
  assumes "healthy f" "fresh f" "negotiated_oack get_size f opts = (oack, t, b, ws, f')"
  shows "healthy f' \<and> rest f' = rest f"
  using get_size_of_fresh [OF assms(1,2)] assms
  by (auto simp: negotiated_oack_eq TSize_obtain_def split: if_splits)

lemma session_delivers:
  assumes "healthy f" "fresh f" "length (rest f) < usize_modulus"
    and "negotiated_oack get_size f opts = (oack, t, b, ws, f')"
    and "N = block_count (rest f) (Blksize_get_size b)" "WindowSize_get_size ws = 1 \<or> N < 65536"
    and "if has_options oack then answers (peer_address st) cap 0 0 hello else hello = []"
    and "delivers (peer_address st) cap (WindowSize_get_size ws) N 0 rounds"
    and "inbox st = hello @ concat (map snd rounds) @ later" "send_results st = []" "cap = 65535"
  shows "\<exists>st'. send dbg read_to get_size f st opts (replicate cap 0) = Some st'
    \<and> outbox st' = outbox st @ (if has_options oack then [oack_packet (oack_options oack)] else [])
        @ delivered (rest f) (Blksize_get_size b) (WindowSize_get_size ws) N 0 rounds
    \<and> inbox st' = later"
proof -
  let ?buf = "replicate cap 0" and ?hello = "if has_options oack then [oack_packet (oack_options oack)] else []"
  define w where "w = Window_new (of_nat (Blksize_get_size b)) (of_nat (WindowSize_get_size ws))"
  from assms(4) have bw: "b = or_default Blksize_default (Blksize_find_in opts)"
    "ws = or_default WindowSize_default (WindowSize_find_in opts)" by (auto simp: negotiated_oack_eq)
  note win = negotiated_window [OF w_def [unfolded bw]] negotiated_sizes [of opts]
  note f' = negotiated_file [OF assms(1,2,4)]
  have small: "length (oack_packet (oack_options oack)) < length ?buf"
    using negotiated_oack_size [of get_size f opts] get_size_of_fresh [OF assms(1,2)] assms(3,4,11) by fastforce
  obtain buf' where buf': "length buf' = cap"
    and neg: "negotiate_options get_size st f ?buf opts = Some (Some (w, t),
      st\<lparr>inbox := concat (map snd rounds) @ later, outbox := outbox st @ ?hello\<rparr>, f', buf')"
  proof (cases "has_options oack")
    case True
    then obtain buf' where "length buf' = cap" "send_oack_reliably oack st t ?buf =
        Some (Inr (), st\<lparr>inbox := concat (map snd rounds) @ later, outbox := outbox st @ [oack_packet (oack_options oack)]\<rparr>, buf')"
      using send_oack_acked [OF True small refl, of st hello "concat (map snd rounds) @ later" t] assms by auto
    with True assms(4) that show ?thesis by (auto simp: negotiate_options_def Let_def w_def)
  next
    case False
    with assms that [of ?buf] show ?thesis by (auto simp: negotiate_options_def Let_def w_def)
  qed
  let ?st = "st\<lparr>inbox := concat (map snd rounds) @ later, outbox := outbox st @ ?hello\<rparr>"
  have "unat (win_block_size w) = Blksize_get_size b" "length (buffers w) = WindowSize_get_size ws" "window_wf w"
    "0 < Blksize_get_size b"
    using win bw by auto
  then obtain x' where "send_file dbg read_to f' ?st w t buf' = Some (Inr (length (rest f), 0), x')"
    "outbox (xf_stream x') = outbox ?st @ delivered (rest f) (Blksize_get_size b) (WindowSize_get_size ws) N 0 rounds"
    "inbox (xf_stream x') = later"
    using send_file_delivers [of f' w "Blksize_get_size b" "WindowSize_get_size ws" ?st buf' rounds later dbg t]
      assms f' buf' by auto
  with neg show ?thesis by (auto simp: send_def)
qed

end

lemma oack_attempts_runs:
  "64 \<le> length buf \<Longrightarrow> \<exists>r st' buf'. oack_attempts n k st t buf = Some (r, st', buf') \<and> length buf' = length buf"
proof (induction n arbitrary: st buf)
  case 0
  then show ?case
    using fire_error_runs [of "undefined_error ''Send timeout occurred''" buf st] short_errors(2) by fastforce
next
  case (Suc n)
  obtain r1 st1 where s: "stream_send st (take k buf) = (r1, st1)" by fastforce
  obtain r2 st2 b2 where a: "read_acknowledge st1 buf t = (r2, st2, b2)" using prod_cases3 by blast
  have len: "length b2 = length buf" using read_acknowledge_frame [OF a] by simp
  obtain st3 b3 where "fire_error (undefined_error ''Unexpected non-zero ACK'') st2 b2 = Some (st3, b3)" "length b3 = length b2"
    using fire_error_runs [of "undefined_error ''Unexpected non-zero ACK''" b2 st2] short_errors(5) len Suc.prems
    by fastforce
  with s a Suc.IH [of b2 st2] Suc.prems len show ?case
    by (cases r1; cases r2) (auto split: RecvError.splits)
qed

context total_file begin

lemma negotiated_file_safe:
  "safe f \<Longrightarrow> negotiated_oack get_size f opts = (oack, t, b, ws, f') \<Longrightarrow> safe f'"
  using get_size_safe [of f]
  by (auto simp: negotiated_oack_eq TSize_obtain_def split: if_splits prod.splits sum.splits)

lemma session_runs:
  assumes "safe f"
  shows "\<exists>st'. send False read_to get_size f st opts (replicate 65535 0) = Some st'"
proof -
  obtain oack t b ws f' where no: "negotiated_oack get_size f opts = (oack, t, b, ws, f')" using prod_cases5 by blast
  define w where "w = Window_new (of_nat (Blksize_get_size b)) (of_nat (WindowSize_get_size ws))"
  from no have bw: "b = or_default Blksize_default (Blksize_find_in opts)"
    "ws = or_default WindowSize_default (WindowSize_find_in opts)" by (auto simp: negotiated_oack_eq)
  note win = negotiated_window [OF w_def [unfolded bw]]
  have small: "length (oack_packet (oack_options oack)) \<le> 130"
    using negotiated_oack_size [of get_size f opts] get_size_safe [OF assms] no by simp
  have "\<exists>r st' buf'. send_oack_reliably oack st t (replicate 65535 0) = Some (r, st', buf') \<and> length buf' = 65535"
    if h: "has_options oack"
  proof -
    obtain buf1 where b1: "OptionsAcknowledge_serialize oack (replicate 65535 0)
        = Some (Inr (length (oack_packet (oack_options oack))), buf1)" "length buf1 = 65535"
      using OptionsAcknowledge_serialize_zeroed [of oack 65535] h small by (auto simp: has_options_def)
    then obtain r st' buf' where
      "oack_attempts (unat SEND_ATTEMPTS) (length (oack_packet (oack_options oack))) st t buf1 = Some (r, st', buf')"
      "length buf' = length buf1"
      using oack_attempts_runs [of buf1] by fastforce
    with b1 show ?thesis by (simp add: send_oack_reliably_def)
  qed
  then obtain neg st1 buf1 where n: "negotiate_options get_size st f (replicate 65535 0) opts = Some (neg, st1, f', buf1)"
    "length buf1 = 65535" "neg = None \<or> neg = Some (w, t)"
    using no by (cases "has_options oack") (fastforce simp: negotiate_options_def w_def split: sum.splits)+
  show ?thesis
  proof (cases "neg = None")
    case False
    with n(3) have neg: "neg = Some (w, t)" by simp
    obtain r x where x: "send_file False read_to f' st1 w t buf1 = Some (r, x)" "length (xf_buffer x) = 65535"
      "\<forall>e. r = Inl e \<longrightarrow> error_size e < 64"
      unfolding send_file_def
      using send_loop_runs [of "\<lparr>xf_file = f', xf_window = w, xf_stream = st1, xf_buffer = buf1, bytes_sent = 0,
          blocks_sent = 0, last_acknowledged_index = 0, last_read_index = 0\<rparr>" t] negotiated_file_safe [OF assms no] win(1) n(2) by auto
    show ?thesis
    proof (cases r)
      case (Inl e)
      with x obtain st' b' where "fire_error e (xf_stream x) (xf_buffer x) = Some (st', b')"
        using fire_error_runs [of e "xf_buffer x" "xf_stream x"] by fastforce
      with Inl n neg x show ?thesis by (simp add: send_def)
    qed (use n neg x in \<open>simp add: send_def\<close>)
  qed (use n in \<open>simp add: send_def\<close>)
qed

end

end
