(* ===== verification/Nbd_Disk.thy ===== *)
theory Nbd_Disk
  imports Remote_Fs "HOL-Library.Multiset"
begin

text \<open>
  \<open>src/nbd_disk/mod.rs\<close>: attaching an NBD export through libguestfs, the JSON configuration of a
  peer's disk, and the search of the TFTP root for it. What the host and serde provide is the
  parameter \<open>host\<close>: listing a directory (each entry with its path and whether it is a file), reading a file,
  parsing JSON text, decoding a JSON value as the configuration, opening a local file, libguestfs, and the capacity
  that \<open>HashMap::with_capacity\<close> grants and that a full map grows to.
\<close>

section \<open>Definitions\<close>

record NBDConfig =
  nbd_url :: rstr
  mounts :: "Mount list"
  nbd_tftp_root :: rstr

record ('h, 'j, 'file) host =
  os_read_dir :: "rstr \<Rightarrow> io_error + (io_error + rstr \<times> bool) list"
  os_read :: "rstr \<Rightarrow> io_error + bytes"
  json_from_str :: "rstr \<Rightarrow> unit + 'j"
  json_from_value :: "'j \<Rightarrow> unit + NBDConfig"
  os_open :: "rstr \<Rightarrow> io_error + 'file"
  guestfs_lib :: "'h libguestfs"
  hash_capacity :: "nat \<Rightarrow> nat"
  hash_grown :: "nat \<Rightarrow> nat"

definition disable_appliance_log_color :: "'h libguestfs \<Rightarrow> 'h GuestFS \<Rightarrow> (unit, 'h) gfs_result" where
  "disable_appliance_log_color lib g = set_append lib g (str ''SYSTEMD_COLORS=0'')"

definition add_stub_disk :: "'h libguestfs \<Rightarrow> 'h GuestFS \<Rightarrow> (unit, 'h) gfs_result" where
  "add_stub_disk lib g = add_disk lib g (str ''/dev/null'') True"

definition nbd_drive_option :: "rstr \<Rightarrow> rstr" where
  "nbd_drive_option url = str ''id=nbd0,file='' @ url @ str '',format=raw,if=none,readonly=on''"

definition add_nbd_device_read_only :: "'h libguestfs \<Rightarrow> 'h GuestFS \<Rightarrow> rstr \<Rightarrow> (unit, 'h) gfs_result" where
  "add_nbd_device_read_only lib g url =
    and_then (add_qemu_option lib g (str ''-device'') (str ''scsi-hd,drive=nbd0'')) (\<lambda>_ g.
      add_qemu_option lib g (str ''-drive'') (nbd_drive_option url))"

text \<open>The loop over the appliance's messages after a failed launch; \<open>acc\<close> is \<open>appliance_errors\<close>.\<close>

fun launch_error :: "rstr \<Rightarrow> rstr list \<Rightarrow> rstr list \<Rightarrow> GuestFSError" where
  "launch_error url acc [] = Generic (join_with [10] acc)"
| "launch_error url acc (error # errors) =
    (if contains error (str ''Failed to connect to'') \<and> contains error (str ''Connection refused'')
     then ConnectionRefused url
     else if contains error (str ''server reported: export '') \<and> contains error (str ''not present'')
     then ShareNotFound (str ''Share is not found on server: '' @ url)
     else launch_error url (acc @ [error]) errors)"

text \<open>When it fails, the handle is dropped on return.\<close>

definition attach_nbd_disk :: "'h libguestfs \<Rightarrow> rstr \<Rightarrow> ((GuestFSError + 'h ConnectedDisk) \<times> 'h GuestFS) run" where
  "attach_nbd_disk lib owned_url = do {
     g \<leftarrow> GuestFS_new lib;
     (r, g) \<leftarrow> and_then (disable_appliance_log_color lib g) (\<lambda>_ g.
     and_then (add_stub_disk lib g) (\<lambda>_ g.
     and_then (add_nbd_device_read_only lib g owned_url) (\<lambda>_ g. do {
       (r, g) \<leftarrow> launch lib g;
       let (messages, g) = retrieve_appliance_stderr g;
       case r of
         Inl _ \<Rightarrow> Some (Inl (launch_error owned_url [] messages), g)
       | Inr _ \<Rightarrow> Some (Inr (ConnectedDisk_new g owned_url), g)
     })));
     Some (r, case r of Inl _ \<Rightarrow> GuestFS_drop lib g | Inr _ \<Rightarrow> g)
   }"

definition NBDConfig_from_json :: "('h, 'j, 'file) host \<Rightarrow> 'j \<Rightarrow> NBDConfig option" where
  "NBDConfig_from_json host value =
    (case json_from_value host value of Inr config \<Rightarrow> Some config | Inl _ \<Rightarrow> None)"

fun mount_all :: "bool \<Rightarrow> 'h libguestfs \<Rightarrow> 'h GuestFS \<Rightarrow> Mount list \<Rightarrow> Partition list
    \<Rightarrow> ((VirtualRootError + unit) \<times> 'h GuestFS) run" where
  "mount_all dbg lib g [] partitions = Some (Inr (), g)"
| "mount_all dbg lib g (m # ms) partitions =
    and_then (mount_suitable dbg lib g m partitions) (\<lambda>_ g. mount_all dbg lib g ms partitions)"

text \<open>The second result is the handle that is dropped on return, if one is.\<close>

definition NBDConfig_connect :: "bool \<Rightarrow> 'h libguestfs \<Rightarrow> NBDConfig
    \<Rightarrow> ((VirtualRootError + 'h RemoteRoot) \<times> 'h GuestFS option) run" where
  "NBDConfig_connect dbg lib config =
    (if \<not> starts_with (nbd_url config) (str ''nbd://'')
     then Some (Inl (ConfigError (str ''Invalid NBD URL: '' @ nbd_url config)), None)
     else do {
       (r, g) \<leftarrow> attach_nbd_disk lib (nbd_url config);
       case r of
         Inl error \<Rightarrow> Some (Inl (SetupError error), Some g)
       | Inr disk \<Rightarrow> do {
           (r, disk) \<leftarrow> ConnectedDisk_list_partitions lib disk;
           case r of
             Inl error \<Rightarrow> Some (Inl (SetupError error), Some (GuestFS_drop lib (cd_handle disk)))
           | Inr partitions \<Rightarrow> do {
               (r, g) \<leftarrow> mount_all dbg lib (cd_handle disk) (mounts config) partitions;
               case r of
                 Inl error \<Rightarrow> Some (Inl error, Some (GuestFS_drop lib g))
               | Inr _ \<Rightarrow> Some (Inr (RemoteRoot_new (disk\<lparr>cd_handle := g\<rparr>) (nbd_tftp_root config)), None)
             }
         }
     })"

fun entry_file :: "io_error + rstr \<times> bool \<Rightarrow> rstr option" where
  "entry_file (Inr (path, is_file)) = (if is_file then Some path else None)"
| "entry_file (Inl _) = None"

definition files_sorted :: "('h, 'j, 'file) host \<Rightarrow> rstr \<Rightarrow> rstr list" where
  "files_sorted host parent =
    sort_key components
      (List.map_filter entry_file (case os_read_dir host parent of Inl _ \<Rightarrow> [] | Inr entries \<Rightarrow> entries))"

definition match_ip :: "rstr \<Rightarrow> rstr \<Rightarrow> bool" where
  "match_ip path ip =
    (case file_name path of
       Some name \<Rightarrow> utf8_valid name \<and> starts_with name ip
     | None \<Rightarrow> False)"

definition read_json :: "('h, 'j, 'file) host \<Rightarrow> rstr \<Rightarrow> 'j option" where
  "read_json host path =
    (case os_read host path of
       Inl _ \<Rightarrow> None
     | Inr content \<Rightarrow>
         if utf8_valid content
         then (case json_from_str host content of Inr value \<Rightarrow> Some value | Inl _ \<Rightarrow> None)
         else None)"

text \<open>One round of the loop of \<open>open_nbd_root\<close>: the disk that a file describes, if it describes one
  and the disk can be connected.\<close>

definition try_config :: "bool \<Rightarrow> ('h, 'j, 'file) host \<Rightarrow> rstr \<Rightarrow> rstr \<Rightarrow> 'h RemoteRoot option run" where
  "try_config dbg host ip file_path =
    (if match_ip file_path ip then
       (case read_json host file_path of
          None \<Rightarrow> Some None
        | Some json_struct \<Rightarrow>
           (case NBDConfig_from_json host json_struct of
              None \<Rightarrow> Some None
            | Some nbd_config \<Rightarrow> do {
                (r, _) \<leftarrow> NBDConfig_connect dbg (guestfs_lib host) nbd_config;
                case r of
                  Inr disk \<Rightarrow> Some (Some disk)
                | Inl (ConfigError _) \<Rightarrow> Some None
                | Inl (SetupError _) \<Rightarrow> Some None
              }))
     else Some None)"

fun try_configs :: "bool \<Rightarrow> ('h, 'j, 'file) host \<Rightarrow> rstr \<Rightarrow> rstr list \<Rightarrow> 'h RemoteRoot option run" where
  "try_configs dbg host ip [] = Some None"
| "try_configs dbg host ip (p # ps) = do {
     r \<leftarrow> try_config dbg host ip p;
     case r of
       Some disk \<Rightarrow> Some (Some disk)
     | None \<Rightarrow> try_configs dbg host ip ps
   }"

definition open_nbd_root :: "bool \<Rightarrow> ('h, 'j, 'file) host \<Rightarrow> rstr \<Rightarrow> rstr \<Rightarrow> 'h RemoteRoot option run" where
  "open_nbd_root dbg host tftp_root ip = try_configs dbg host ip (files_sorted host tftp_root)"

section \<open>Laws\<close>

text \<open>The candidates are the files of the directory, in path order.\<close>

lemma files_sorted_sorted: "sorted (map components (files_sorted host parent))"
  by (simp add: files_sorted_def)

lemma files_sorted_mset:
  "os_read_dir host parent = Inr entries \<Longrightarrow>
    mset (files_sorted host parent) = mset (List.map_filter entry_file entries)"
  by (simp add: files_sorted_def)

lemma set_files_sorted:
  "os_read_dir host parent = Inr entries \<Longrightarrow>
    set (files_sorted host parent) = {p. Inr (p, True) \<in> set entries}"
proof -
  have "set (List.map_filter entry_file entries) = {p. Inr (p, True) \<in> set entries}" for entries
  proof (induction entries)
    case (Cons e entries)
    then show ?case by (cases e rule: entry_file.cases) (auto simp: List.map_filter_simps)
  qed (simp add: List.map_filter_simps)
  then show "os_read_dir host parent = Inr entries \<Longrightarrow>
    set (files_sorted host parent) = {p. Inr (p, True) \<in> set entries}" by (simp add: files_sorted_def)
qed

text \<open>The search returns the first candidate that connects.\<close>

lemma try_configs_first:
  "try_configs dbg host ip ps = Some (Some disk) \<longleftrightarrow>
    (\<exists>before p later. ps = before @ p # later \<and> try_config dbg host ip p = Some (Some disk)
      \<and> (\<forall>q \<in> set before. try_config dbg host ip q = Some None))"
proof (induction ps)
  case (Cons p ps)
  show ?case
  proof
    assume "try_configs dbg host ip (p # ps) = Some (Some disk)"
    then consider "try_config dbg host ip p = Some (Some disk)"
      | "try_config dbg host ip p = Some None" "try_configs dbg host ip ps = Some (Some disk)"
      by (auto split: bind_splits option.splits)
    then show "\<exists>before q later. p # ps = before @ q # later \<and> try_config dbg host ip q = Some (Some disk)
      \<and> (\<forall>q \<in> set before. try_config dbg host ip q = Some None)"
    proof cases
      case 1
      then show ?thesis by (metis append_Nil empty_iff list.set(1))
    next
      case 2
      with Cons.IH obtain before q later where "ps = before @ q # later"
        "try_config dbg host ip q = Some (Some disk)" "\<forall>q \<in> set before. try_config dbg host ip q = Some None"
        by blast
      with 2(1) show ?thesis by (metis append_Cons set_ConsD)
    qed
  next
    assume "\<exists>before q later. p # ps = before @ q # later \<and> try_config dbg host ip q = Some (Some disk)
      \<and> (\<forall>q \<in> set before. try_config dbg host ip q = Some None)"
    then show "try_configs dbg host ip (p # ps) = Some (Some disk)"
      using Cons.IH by (fastforce simp: Cons_eq_append_conv)
  qed
qed simp

lemma try_config_not_matching: "\<not> match_ip p ip \<Longrightarrow> try_config dbg host ip p = Some None"
  by (simp add: try_config_def)

lemma try_config_matches: "try_config dbg host ip p = Some (Some disk) \<Longrightarrow> match_ip p ip"
  by (cases "match_ip p ip") (simp_all add: try_config_def)

end
