(* ===== verification/Peer_Handler.thy ===== *)
theory Peer_Handler
  imports Peer_Session Nbd_Disk
begin

text \<open>
  The part of \<open>src/peer_handler/mod.rs\<close> above a single session: \<open>schedule_task\<close>, which turns a request into a
  session's task, \<open>peer_requests_handler\<close>, which serves the requests of one peer, and \<open>PeerHandler\<close>, by which the server starts,
  feeds and stops it. Every session owns its socket, file and buffer, so a session runs in one step,
  \<open>finish_session\<close>, at any moment after it was scheduled; the handler's own loop is a step relation in which these
  steps, arriving requests and the passing of time interleave. Times are in milliseconds.

  A panic inside \<open>peer_requests_handler\<close> is contained by the runtime, which drops the channel and lets the spawned
  sessions end: the phase \<open>Draining\<close>. The thread opens the roots first, in the phase \<open>Starting\<close>, while requests
  already wait in the channel; a panic there ends the thread: \<open>Crashed\<close>.
\<close>

section \<open>Scheduling a request\<close>

definition MAX_SESSIONS_PER_IP :: usize where "MAX_SESSIONS_PER_IP = 128"
definition REQUESTS_CHANNEL_SIZE :: usize where "REQUESTS_CHANNEL_SIZE = 10"
definition SESSION_BUFFER_SIZE :: usize where "SESSION_BUFFER_SIZE = 65535"

type_synonym ('h, 'j) env = "('h, 'j, File) host"
type_synonym 'h Root = "(LocalRoot, 'h RemoteRoot) RootKind"

datatype 'h task =
    SendLocal LocalOpenedFile "rstr \<rightharpoonup> rstr"
  | SendRemote "'h FileReader" "rstr \<rightharpoonup> rstr"
  | FireError TFTPError

fun open_root :: "('h, 'j) env \<Rightarrow> ReadRequest \<Rightarrow> 'h Root \<Rightarrow> ((io_error + 'h task) \<times> 'h Root) run" where
  "open_root host request (LocalKind local_root) =
    Some (case open_in request (LocalRoot_open (os_open host) local_root) of
            Inr f \<Rightarrow> Inr (SendLocal f (yield_options request))
          | Inl err \<Rightarrow> Inl err, LocalKind local_root)"
| "open_root host request (RemoteKind remote_root) = do {
     (r, remote_root) \<leftarrow> open_in request (RemoteRoot_open (guestfs_lib host) remote_root);
     Some (case r of
             Inr f \<Rightarrow> Inr (SendRemote f (yield_options request))
           | Inl err \<Rightarrow> Inl err, RemoteKind remote_root)
   }"

fun schedule_task :: "('h, 'j) env \<Rightarrow> ReadRequest \<Rightarrow> 'h Root list \<Rightarrow> ('h task \<times> 'h Root list) run" where
  "schedule_task host request [] = Some (FireError file_not_found, [])"
| "schedule_task host request (root # roots) = do {
     (r, root) \<leftarrow> open_root host request root;
     case r of
       Inr task \<Rightarrow> Some (task, root # roots)
     | Inl error \<Rightarrow>
        (case kind error of
           NotFound \<Rightarrow> do {
             (task, roots) \<leftarrow> schedule_task host request roots;
             Some (task, root # roots)
           }
         | PermissionDenied \<Rightarrow> Some (FireError access_violation, root # roots)
         | _ \<Rightarrow> Some (FireError (undefined_error ''Server Error''), root # roots))
   }"

definition run_task :: "bool \<Rightarrow> ('h, 'j) env \<Rightarrow> 'h task \<Rightarrow> DatagramStream \<Rightarrow> bytes \<Rightarrow> DatagramStream run" where
  "run_task dbg host task st buf =
    (case task of
       SendLocal f opts \<Rightarrow> send dbg LocalOpenedFile_read_to LocalOpenedFile_get_size f st opts buf
     | SendRemote f opts \<Rightarrow> send dbg (FileReader_read_to (guestfs_lib host)) FileReader_get_size f st opts buf
     | FireError e \<Rightarrow> map_option fst (fire_error e st buf))"

section \<open>The handler of a peer\<close>

record 'h session =
  s_task :: "'h task"
  s_stream :: DatagramStream
  s_buffer :: bytes
  s_finished :: bool

datatype phase = Starting | Serving | Draining | Closed | Crashed

record 'h PeerHandler =
  sender_address :: IpAddr
  local_address :: IpAddr
  thread_root :: rstr
  available_roots :: "'h Root list"
  closed_disks :: "'h GuestFS list"
  channel :: "(u16 \<times> ReadRequest) list"
  sender_dropped :: bool
  send_sessions :: "(u16 \<times> 'h session) list"
  sessions_capacity :: nat
  idle_timeout :: nat
  last_active :: nat
  clock :: nat
  phase :: phase

definition PeerHandler_display :: "'h PeerHandler \<Rightarrow> rstr" where
  "PeerHandler_display h = str ''<PeerHandler: '' @ IpAddr_to_string (sender_address h) @ str ''>''"

definition initial_roots :: "bool \<Rightarrow> ('h, 'j) env \<Rightarrow> rstr \<Rightarrow> IpAddr \<Rightarrow> 'h Root list run" where
  "initial_roots dbg host tftp_root peer = do {
     remote \<leftarrow> open_nbd_root dbg host tftp_root (IpAddr_to_string peer);
     Some ([LocalKind (LocalRoot_new (path_join tftp_root (IpAddr_to_string peer)))]
       @ (case remote of Some remote_root \<Rightarrow> [RemoteKind remote_root] | None \<Rightarrow> [])
       @ [LocalKind (LocalRoot_new (path_join tftp_root (str ''default'')))])
   }"

definition PeerHandler_new :: "IpAddr \<Rightarrow> IpAddr \<Rightarrow> rstr \<Rightarrow> nat \<Rightarrow> nat \<Rightarrow> 'h PeerHandler" where
  "PeerHandler_new peer local_ip tftp_root idle now =
    \<lparr>sender_address = peer, local_address = local_ip, thread_root = tftp_root, available_roots = [], closed_disks = [], channel = [], sender_dropped = False,
     send_sessions = [], sessions_capacity = 0, idle_timeout = idle, last_active = now, clock = now, phase = Starting\<rparr>"

text \<open>What the new thread does before it takes requests, up to the head of the loop of \<open>peer_requests_handler\<close>.\<close>

definition start_thread :: "bool \<Rightarrow> ('h, 'j) env \<Rightarrow> 'h PeerHandler \<Rightarrow> 'h PeerHandler" where
  "start_thread dbg host h =
    (case initial_roots dbg host (thread_root h) (sender_address h) of
       None \<Rightarrow> h\<lparr>phase := Crashed\<rparr>
     | Some roots \<Rightarrow> h\<lparr>available_roots := roots, sessions_capacity := hash_capacity host MAX_SESSIONS_PER_IP,
         last_active := clock h, phase := Serving\<rparr>)"

text \<open>\<open>feed\<close>: \<open>None\<close> while the channel is full and the caller has to wait.\<close>

definition feed :: "'h PeerHandler \<Rightarrow> u16 \<Rightarrow> ReadRequest \<Rightarrow> (bool \<times> 'h PeerHandler) option" where
  "feed h sender_port request =
    (if phase h \<noteq> Starting \<and> phase h \<noteq> Serving then Some (False, h)
     else if length (channel h) < REQUESTS_CHANNEL_SIZE
     then Some (True, h\<lparr>channel := channel h @ [(sender_port, request)]\<rparr>)
     else None)"

definition is_finished :: "'h PeerHandler \<Rightarrow> bool" where
  "is_finished h \<longleftrightarrow> phase h = Closed \<or> phase h = Crashed"

text \<open>\<open>shutdown\<close> drops the sender and then waits for the thread; joining a crashed thread panics.\<close>

definition request_shutdown :: "'h PeerHandler \<Rightarrow> 'h PeerHandler" where
  "request_shutdown h = h\<lparr>sender_dropped := True\<rparr>"

definition join_thread :: "'h PeerHandler \<Rightarrow> unit run option" where
  "join_thread h = (case phase h of Closed \<Rightarrow> Some (Some ()) | Crashed \<Rightarrow> Some None | _ \<Rightarrow> None)"

definition retain_unfinished :: "(u16 \<times> 'h session) list \<Rightarrow> (u16 \<times> 'h session) list" where
  "retain_unfinished ss = filter (\<lambda>(_, s). \<not> s_finished s) ss"

text \<open>A second without a request.\<close>

definition on_elapsed :: "'h PeerHandler \<Rightarrow> 'h PeerHandler" where
  "on_elapsed h =
    (let h = h\<lparr>send_sessions := retain_unfinished (send_sessions h)\<rparr> in
     if send_sessions h = [] then
       (if idle_timeout h < clock h - last_active h then h\<lparr>phase := Draining\<rparr> else h)
     else h\<lparr>last_active := clock h\<rparr>)"

text \<open>What \<open>UdpSocket::bind\<close> gives for an address: an error, or the surroundings of the new socket.\<close>

type_synonym udp_bind = "SocketAddr \<Rightarrow> io_error + net_event list \<times> (io_error + usize) list"

definition accept_request :: "('h, 'j) env \<Rightarrow> udp_bind \<Rightarrow> 'h PeerHandler \<Rightarrow> u16 \<Rightarrow> ReadRequest
    \<Rightarrow> 'h PeerHandler run" where
  "accept_request host bound h peer_port request =
    (case bound (local_address h, 0) of
       Inl _ \<Rightarrow> None
     | Inr (arrivals, results) \<Rightarrow> do {
         let st = DatagramStream_new arrivals results (sender_address h, peer_port);
         let buf = replicate SESSION_BUFFER_SIZE 0;
         let h = h\<lparr>send_sessions := retain_unfinished (send_sessions h)\<rparr>;
         (st, buf) \<leftarrow> (if sessions_capacity h \<le> length (send_sessions h)
            then fire_error (undefined_error ''Maximum sessions per IP exceeded'') st buf
            else Some (st, buf));
         (task, roots) \<leftarrow> schedule_task host request (available_roots h);
         Some (h\<lparr>available_roots := roots,
           send_sessions := send_sessions h
             @ [(peer_port, \<lparr>s_task = task, s_stream = st, s_buffer = buf, s_finished = False\<rparr>)],
           sessions_capacity :=
             (if sessions_capacity h \<le> length (send_sessions h) then hash_grown host (sessions_capacity h)
              else sessions_capacity h)\<rparr>)
       })"

text \<open>One round of the loop that takes a request from the channel.\<close>

definition on_request :: "('h, 'j) env \<Rightarrow> udp_bind \<Rightarrow> 'h PeerHandler \<Rightarrow> 'h PeerHandler" where
  "on_request host bound h =
    (case channel h of
       [] \<Rightarrow> h
     | (peer_port, request) # waiting \<Rightarrow>
        (let h = h\<lparr>channel := waiting\<rparr> in
         if peer_port \<in> fst ` set (send_sessions h) then h
         else case accept_request host bound h peer_port request of
           Some h' \<Rightarrow> h'
         | None \<Rightarrow> h\<lparr>phase := Draining\<rparr>))"

text \<open>A session's task runs to its end; a panic ends it too.\<close>

definition finished_session :: "bool \<Rightarrow> ('h, 'j) env \<Rightarrow> 'h session \<Rightarrow> 'h session" where
  "finished_session dbg host s =
    s\<lparr>s_finished := True,
      s_stream := (case run_task dbg host (s_task s) (s_stream s) (s_buffer s) of
                     Some st \<Rightarrow> st | None \<Rightarrow> s_stream s)\<rparr>"

definition finish_session :: "bool \<Rightarrow> ('h, 'j) env \<Rightarrow> u16 \<Rightarrow> 'h PeerHandler \<Rightarrow> 'h PeerHandler" where
  "finish_session dbg host port h =
    h\<lparr>send_sessions := map (\<lambda>(p, s). (p, if p = port then finished_session dbg host s else s)) (send_sessions h)\<rparr>"

text \<open>The thread is at its end: the roots are dropped, and as no session holds a file of a disk any more, the handles of the
  disks are closed.\<close>

fun root_disk :: "'h Root \<Rightarrow> 'h GuestFS option" where
  "root_disk (LocalKind root) = None"
| "root_disk (RemoteKind root) = Some (cd_handle (rr_disk root))"

definition close_handler :: "('h, 'j) env \<Rightarrow> 'h PeerHandler \<Rightarrow> 'h PeerHandler" where
  "close_handler host h =
    h\<lparr>phase := Closed, available_roots := [],
      closed_disks := map (GuestFS_drop (guestfs_lib host)) (List.map_filter root_disk (available_roots h))\<rparr>"

inductive handler_step :: "bool \<Rightarrow> ('h, 'j) env \<Rightarrow> 'h PeerHandler \<Rightarrow> 'h PeerHandler \<Rightarrow> bool"
  for dbg :: bool and host :: "('h, 'j) env" where
  step_start: "phase h = Starting \<Longrightarrow>
    handler_step dbg host h (start_thread dbg host (h\<lparr>clock := clock h + d\<rparr>))"
| step_request: "phase h = Serving \<Longrightarrow> channel h \<noteq> [] \<Longrightarrow>
    handler_step dbg host h (on_request host bound (h\<lparr>clock := clock h + d\<rparr>))"
| step_elapsed: "phase h = Serving \<Longrightarrow> channel h = [] \<Longrightarrow> \<not> sender_dropped h \<Longrightarrow> 1000 \<le> d \<Longrightarrow>
    handler_step dbg host h (on_elapsed (h\<lparr>clock := clock h + d\<rparr>))"
| step_shutdown: "phase h = Serving \<Longrightarrow> channel h = [] \<Longrightarrow> sender_dropped h \<Longrightarrow>
    handler_step dbg host h (h\<lparr>phase := Draining\<rparr>)"
| step_finish: "phase h = Serving \<or> phase h = Draining \<Longrightarrow> (port, s) \<in> set (send_sessions h) \<Longrightarrow> \<not> s_finished s \<Longrightarrow>
    handler_step dbg host h (finish_session dbg host port h)"
| step_closed: "phase h = Draining \<Longrightarrow> list_all (\<lambda>(_, s). s_finished s) (send_sessions h) \<Longrightarrow>
    handler_step dbg host h (close_handler host h)"

section \<open>Which root serves a request\<close>

text \<open>The roots are asked in order; the first one that does not answer \<open>NotFound\<close> decides.\<close>

definition refuses :: "('h, 'j) env \<Rightarrow> ReadRequest \<Rightarrow> 'h Root \<Rightarrow> bool" where
  "refuses host request root \<longleftrightarrow>
    (\<exists>e root'. open_root host request root = Some (Inl e, root') \<and> kind e = NotFound)"

lemma schedule_task_skips:
  assumes "list_all (refuses host request) before"
  shows "map_option fst (schedule_task host request (before @ roots))
    = map_option fst (schedule_task host request roots)"
  using assms
proof (induction before)
  case (Cons root before)
  then obtain e root' where "open_root host request root = Some (Inl e, root')" "kind e = NotFound"
    by (auto simp: refuses_def)
  with Cons show ?case
    by (cases "schedule_task host request (before @ roots)"; cases "schedule_task host request roots") auto
qed simp

lemma schedule_task_first:
  assumes "list_all (refuses host request) before" "open_root host request root = Some (Inr task, root')"
  shows "map_option fst (schedule_task host request (before @ root # roots)) = Some task"
  using schedule_task_skips [OF assms(1), of "root # roots"] assms(2) by simp

lemma schedule_task_nowhere:
  assumes "list_all (refuses host request) roots"
  shows "map_option fst (schedule_task host request roots) = Some (FireError file_not_found)"
  using schedule_task_skips [OF assms, of "[]"] by simp

section \<open>Runs of a handler\<close>

text \<open>Everything that can happen to a handler: its own steps, and the calls of the server.\<close>

inductive handler_run :: "bool \<Rightarrow> ('h, 'j) env \<Rightarrow> 'h PeerHandler \<Rightarrow> bool"
  for dbg :: bool and host :: "('h, 'j) env" where
  run_new: "handler_run dbg host (PeerHandler_new peer local_ip tftp_root idle now)"
| run_step: "handler_run dbg host h \<Longrightarrow> handler_step dbg host h h' \<Longrightarrow> handler_run dbg host h'"
| run_feed: "handler_run dbg host h \<Longrightarrow> \<not> sender_dropped h \<Longrightarrow> feed h port request = Some (ok, h') \<Longrightarrow>
    handler_run dbg host h'"
| run_shutdown: "handler_run dbg host h \<Longrightarrow> handler_run dbg host (request_shutdown h)"

text \<open>A session talks to its own port of the peer from the first to the last datagram.\<close>

lemma oack_attempts_peer:
  "oack_attempts n k st t buf = Some (r, st', buf') \<Longrightarrow> peer_address st' = peer_address st"
proof (induction n arbitrary: st buf)
  case 0
  then show ?case by (auto split: bind_splits dest: fire_error_frame)
next
  case (Suc n)
  obtain r1 st1 where s: "stream_send st (take k buf) = (r1, st1)" by fastforce
  then have p1: "peer_address st1 = peer_address st"
    using stream_send_frame(1) [of st "take k buf"] by simp
  obtain r2 st2 b2 where a: "read_acknowledge st1 buf t = (r2, st2, b2)" using prod_cases3 by blast
  note p2 = read_acknowledge_frame [OF a]
  show ?case
    using Suc.prems Suc.IH [of st2 b2] s a p1 p2
    by (auto split: sum.splits RecvError.splits if_splits bind_splits dest!: fire_error_frame)
qed

lemma negotiate_options_peer:
  "negotiate_options get_size st f buf opts = Some (r, st', f', buf') \<Longrightarrow> peer_address st' = peer_address st"
  by (auto simp: negotiate_options_def send_oack_reliably_def Let_def
      split: prod.splits if_splits bind_splits sum.splits dest!: fire_error_frame oack_attempts_peer)

lemma send_loop_peer:
  "send_loop dbg read_to t x = Some (r, x') \<Longrightarrow> peer_address (xf_stream x') = peer_address (xf_stream x)"
proof (induction dbg read_to t x rule: send_loop.induct)
  case (1 dbg read_to t x)
  let ?u = "last_read_index x - last_acknowledged_index x"
  from "1.prems" have nd: "\<not> (dbg \<and> \<not> ?u \<le> Window_size (xf_window x))"
    by (auto simp: send_loop.simps [of dbg read_to t x] Let_def split: if_splits)
  with "1.prems" obtain fr x1 where fw: "fill_window read_to x ?u = Some (fr, x1)"
    by (auto simp: send_loop.simps [of dbg read_to t x] Let_def split: option.splits)
  note fr = fill_window_frame [OF fw]
  show ?case
  proof (cases fr)
    case (Inl e)
    with "1.prems" fw nd fr show ?thesis
      by (auto simp: send_loop.simps [of dbg read_to t x] Let_def split: if_splits)
  next
    case (Inr td)
    obtain to_send fin where td: "td = (to_send, fin)" by fastforce
    from "1.prems" fw nd Inr td have nd2: "\<not> (dbg \<and> \<not> to_send \<le> Window_size (xf_window x1))"
      by (auto simp: send_loop.simps [of dbg read_to t x] Let_def split: if_splits)
    with "1.prems" fw nd Inr td obtain r2 st2 b2 where sr:
      "send_reliably (xf_window x1) t (xf_stream x1) (xf_buffer x1) (last_acknowledged_index x1 + 1) to_send
        = Some (r2, st2, b2)"
      by (auto simp: send_loop.simps [of dbg read_to t x] Let_def split: option.splits)
    have p: "peer_address st2 = peer_address (xf_stream x)"
      using send_attempts_shrinks [OF sr [unfolded send_reliably_def]] fr by simp
    show ?thesis
      using "1.prems" "1.IH" [OF refl nd fw refl Inr td [symmetric] nd2 sr refl refl refl] nd fw Inr td nd2 sr p
      by (auto simp: send_loop.simps [of dbg read_to t x] Let_def split: if_splits sum.splits SendError.splits)
  qed
qed

lemma run_task_peer:
  assumes "run_task dbg host task st buf = Some st'"
  shows "peer_address st' = peer_address st"
proof -
  have send: "peer_address st' = peer_address st"
    if "send dbg read_to get_size f st opts buf = Some st'" for read_to get_size opts and f :: 'f
  proof -
    from that obtain neg st1 f1 b1 where n: "negotiate_options get_size st f buf opts = Some (neg, st1, f1, b1)"
      by (auto simp: send_def split: bind_splits)
    note p1 = negotiate_options_peer [OF n]
    show ?thesis
    proof (cases neg)
      case None
      with that n p1 show ?thesis by (simp add: send_def)
    next
      case (Some wt)
      obtain w t where wt: "wt = (w, t)" by fastforce
      with that n Some obtain r x where sf: "send_file dbg read_to f1 st1 w t b1 = Some (r, x)"
        by (auto simp: send_def split: bind_splits)
      from send_loop_peer [OF sf [unfolded send_file_def]] p1 have "peer_address (xf_stream x) = peer_address st"
        by simp
      with that n Some wt sf show ?thesis
        by (auto simp: send_def split: sum.splits dest: fire_error_frame)
    qed
  qed
  from assms show ?thesis
    by (cases task) (auto simp: run_task_def intro: send dest: fire_error_frame)
qed

section \<open>The invariant of a handler\<close>

definition handler_inv :: "'h PeerHandler \<Rightarrow> bool" where
  "handler_inv h \<longleftrightarrow> distinct (map fst (send_sessions h))
    \<and> (\<forall>(p, s) \<in> set (send_sessions h). peer_address (s_stream s) = (sender_address h, p))
    \<and> length (channel h) \<le> REQUESTS_CHANNEL_SIZE
    \<and> (phase h = Closed \<longrightarrow> list_all (\<lambda>(_, s). s_finished s) (send_sessions h) \<and> available_roots h = [])
    \<and> (phase h = Starting \<or> phase h = Crashed \<longrightarrow> send_sessions h = [])"

lemma retain_unfinished_subset: "set (retain_unfinished ss) \<subseteq> set ss"
  by (auto simp: retain_unfinished_def)

lemma in_retain_unfinished: "(p, s) \<in> set (retain_unfinished ss) \<longleftrightarrow> (p, s) \<in> set ss \<and> \<not> s_finished s"
  by (auto simp: retain_unfinished_def)

lemma distinct_retain: "distinct (map fst ss) \<Longrightarrow> distinct (map fst (retain_unfinished ss))"
  by (induction ss) (auto simp: retain_unfinished_def)

lemma accept_request_SomeD:
  assumes "accept_request host bound h port request = Some h'"
  shows "\<exists>s cap roots. h' = h\<lparr>available_roots := roots,
      send_sessions := retain_unfinished (send_sessions h) @ [(port, s)], sessions_capacity := cap\<rparr>
    \<and> \<not> s_finished s \<and> peer_address (s_stream s) = (sender_address h, port)"
proof -
  from assms obtain arrivals results where b: "bound (local_address h, 0) = Inr (arrivals, results)"
    by (cases "bound (local_address h, 0)") (auto simp: accept_request_def)
  let ?st = "DatagramStream_new arrivals results (sender_address h, port)"
  let ?buf = "replicate SESSION_BUFFER_SIZE 0"
  let ?full = "sessions_capacity h \<le> length (retain_unfinished (send_sessions h))"
  from assms b obtain st buf where f: "(if ?full
      then fire_error (undefined_error ''Maximum sessions per IP exceeded'') ?st ?buf else Some (?st, ?buf)) = Some (st, buf)"
    by (auto simp: accept_request_def Let_def split: bind_splits)
  then have peer: "peer_address st = (sender_address h, port)"
    by (auto split: if_splits dest!: fire_error_frame simp: DatagramStream_new_def)
  from assms b f obtain task roots where t: "schedule_task host request (available_roots h) = Some (task, roots)"
    by (auto simp: accept_request_def Let_def split: bind_splits)
  let ?s = "\<lparr>s_task = task, s_stream = st, s_buffer = buf, s_finished = False\<rparr>"
  let ?cap = "if ?full then hash_grown host (sessions_capacity h) else sessions_capacity h"
  have "h' = h\<lparr>available_roots := roots,
      send_sessions := retain_unfinished (send_sessions h) @ [(port, ?s)], sessions_capacity := ?cap\<rparr>"
    using assms b f t by (cases ?full) (auto simp: accept_request_def Let_def)
  with peer show ?thesis
    by (intro exI [where x = ?s] exI [where x = ?cap] exI [where x = roots]) simp
qed

lemma on_request_cases:
  assumes "channel h = (port, request) # waiting"
  obtains (ignored) "on_request host bound h = h\<lparr>channel := waiting\<rparr>" "port \<in> fst ` set (send_sessions h)"
  | (panicked) "on_request host bound h = h\<lparr>channel := waiting, phase := Draining\<rparr>"
  | (accepted) s cap roots where "on_request host bound h = h\<lparr>channel := waiting, available_roots := roots,
      send_sessions := retain_unfinished (send_sessions h) @ [(port, s)], sessions_capacity := cap\<rparr>"
      "port \<notin> fst ` set (send_sessions h)" "\<not> s_finished s" "peer_address (s_stream s) = (sender_address h, port)"
proof (cases "port \<in> fst ` set (send_sessions h)")
  case True
  with assms show ?thesis by (intro ignored) (auto simp: on_request_def)
next
  case False
  show ?thesis
  proof (cases "accept_request host bound (h\<lparr>channel := waiting\<rparr>) port request")
    case None
    with assms False show ?thesis by (intro panicked) (auto simp: on_request_def)
  next
    case (Some h')
    from accept_request_SomeD [OF this] obtain s cap roots where
      "h' = h\<lparr>channel := waiting, available_roots := roots,
        send_sessions := retain_unfinished (send_sessions h) @ [(port, s)], sessions_capacity := cap\<rparr>"
      "\<not> s_finished s" "peer_address (s_stream s) = (sender_address h, port)" by auto
    with assms False Some show ?thesis by (intro accepted) (auto simp: on_request_def)
  qed
qed

lemma finished_session_peer [simp]: "peer_address (s_stream (finished_session dbg host s)) = peer_address (s_stream s)"
  by (auto simp: finished_session_def split: option.splits dest: run_task_peer)

lemma on_elapsed_cases:
  "on_elapsed h = h\<lparr>send_sessions := retain_unfinished (send_sessions h)\<rparr>
    \<or> on_elapsed h = h\<lparr>send_sessions := retain_unfinished (send_sessions h), phase := Draining\<rparr>
    \<or> on_elapsed h = h\<lparr>send_sessions := retain_unfinished (send_sessions h), last_active := clock h\<rparr>"
  by (simp add: on_elapsed_def Let_def)

text \<open>The steps of a handler, with a request taken from the channel by what becomes of it.\<close>

lemma handler_step_cases [consumes 1, case_names start ignored failed accepted elapsed shutdown finish closed]:
  assumes "handler_step dbg host h h'"
  obtains (start) d where "phase h = Starting" "h' = start_thread dbg host (h\<lparr>clock := clock h + d\<rparr>)"
  | (ignored) d port request waiting where "phase h = Serving" "channel h = (port, request) # waiting"
      "h' = h\<lparr>clock := clock h + d, channel := waiting\<rparr>" "port \<in> fst ` set (send_sessions h)"
  | (failed) d port request waiting where "phase h = Serving" "channel h = (port, request) # waiting"
      "h' = h\<lparr>clock := clock h + d, channel := waiting, phase := Draining\<rparr>"
  | (accepted) d port request waiting s cap roots where "phase h = Serving" "channel h = (port, request) # waiting"
      "h' = h\<lparr>clock := clock h + d, channel := waiting, available_roots := roots,
        send_sessions := retain_unfinished (send_sessions h) @ [(port, s)], sessions_capacity := cap\<rparr>"
      "port \<notin> fst ` set (send_sessions h)" "\<not> s_finished s" "peer_address (s_stream s) = (sender_address h, port)"
  | (elapsed) d where "phase h = Serving" "channel h = []" "\<not> sender_dropped h" "h' = on_elapsed (h\<lparr>clock := clock h + d\<rparr>)"
  | (shutdown) "phase h = Serving" "channel h = []" "sender_dropped h" "h' = h\<lparr>phase := Draining\<rparr>"
  | (finish) port s where "phase h = Serving \<or> phase h = Draining" "(port, s) \<in> set (send_sessions h)" "\<not> s_finished s"
      "h' = finish_session dbg host port h"
  | (closed) "phase h = Draining" "list_all (\<lambda>(_, s). s_finished s) (send_sessions h)" "h' = close_handler host h"
  using assms
proof (cases rule: handler_step.cases)
  case (step_request bound d)
  then obtain port request waiting where c: "channel (h\<lparr>clock := clock h + d\<rparr>) = (port, request) # waiting"
    by (cases "channel h") auto
  then show ?thesis
    by (cases rule: on_request_cases [where host = host and bound = bound])
      (use c step_request in \<open>auto intro: ignored failed accepted\<close>)
next
  case (step_start d)
  with start show ?thesis by blast
next
  case (step_elapsed d)
  with elapsed show ?thesis by blast
next
  case step_shutdown
  with shutdown show ?thesis by blast
next
  case (step_finish port s)
  with finish show ?thesis by blast
next
  case step_closed
  with closed show ?thesis by blast
qed

lemma handler_inv_step:
  assumes "handler_step dbg host h h'" "handler_inv h"
  shows "handler_inv h' \<and> sender_address h' = sender_address h \<and> local_address h' = local_address h
    \<and> sender_dropped h' = sender_dropped h"
  using assms(1)
proof (cases rule: handler_step_cases)
  case (accepted d port request waiting s cap roots)
  with assms(2) distinct_retain [of "send_sessions h"] retain_unfinished_subset [of "send_sessions h"] show ?thesis
    by (auto simp: handler_inv_def)
next
  case (elapsed d)
  then show ?thesis
    using assms(2) on_elapsed_cases [of "h\<lparr>clock := clock h + d\<rparr>"] distinct_retain [of "send_sessions h"]
    by (auto simp: handler_inv_def in_retain_unfinished)
next
  case (finish port s)
  have "fst \<circ> (\<lambda>(p, s). (p, if p = port then finished_session dbg host s else s)) = fst"
    by auto
  with finish assms(2) show ?thesis
    by (auto simp: handler_inv_def finish_session_def)
qed (use assms(2) in \<open>auto simp: handler_inv_def start_thread_def close_handler_def split: option.splits\<close>)

lemma handler_inv_run: "handler_run dbg host h \<Longrightarrow> handler_inv h"
proof (induction rule: handler_run.induct)
  case (run_step h h')
  then show ?case using handler_inv_step by blast
next
  case (run_feed h port request ok h')
  then show ?case by (auto simp: handler_inv_def feed_def split: if_splits)
qed (auto simp: handler_inv_def PeerHandler_new_def request_shutdown_def split: option.splits)

text \<open>A running session stays with the handler until it has finished.\<close>

lemma session_kept:
  assumes "handler_step dbg host h h'" "(p, s) \<in> set (send_sessions h)" "\<not> s_finished s"
  shows "(p, s) \<in> set (send_sessions h') \<or> (p, finished_session dbg host s) \<in> set (send_sessions h')"
  using assms(1)
proof (cases rule: handler_step_cases)
  case (elapsed d)
  then show ?thesis
    using assms(2,3) on_elapsed_cases [of "h\<lparr>clock := clock h + d\<rparr>"]
    by (auto simp: in_retain_unfinished)
next
  case (finish port s')
  with assms(2) show ?thesis by (force simp: finish_session_def)
qed (use assms in \<open>auto simp: start_thread_def close_handler_def in_retain_unfinished split: option.splits\<close>)

text \<open>A second without requests. The handler forgets its finished sessions, and it closes exactly when none is left and the
  last activity is longer ago than the idle timeout; a running session counts as activity.\<close>

lemma idle_handler_closes:
  "phase (on_elapsed h) =
    (if list_all (\<lambda>(_, s). s_finished s) (send_sessions h) \<and> idle_timeout h < clock h - last_active h
     then Draining else phase h)
   \<and> send_sessions (on_elapsed h) = retain_unfinished (send_sessions h)
   \<and> (list_all (\<lambda>(_, s). s_finished s) (send_sessions h) \<or> last_active (on_elapsed h) = clock h)"
proof -
  have "retain_unfinished (send_sessions h) = [] \<longleftrightarrow> list_all (\<lambda>(_, s). s_finished s) (send_sessions h)"
    by (auto simp: retain_unfinished_def filter_empty_conv list_all_iff)
  then show ?thesis by (simp add: on_elapsed_def Let_def)
qed

lemma idle_handler_ends:
  assumes "phase h = Serving" "channel h = []" "\<not> sender_dropped h" "list_all (\<lambda>(_, s). s_finished s) (send_sessions h)"
    and "1000 \<le> d" "idle_timeout h < clock h + d - last_active h"
  shows "\<exists>h'. (handler_step dbg host)\<^sup>*\<^sup>* h h' \<and> phase h' = Closed \<and> available_roots h' = []
    \<and> closed_disks h' = map (GuestFS_drop (guestfs_lib host)) (List.map_filter root_disk (available_roots h))"
proof -
  let ?h = "on_elapsed (h\<lparr>clock := clock h + d\<rparr>)"
  have "phase ?h = Draining" "list_all (\<lambda>(_, s). s_finished s) (send_sessions ?h)" "available_roots ?h = available_roots h"
    using assms idle_handler_closes [of "h\<lparr>clock := clock h + d\<rparr>"] on_elapsed_cases [of "h\<lparr>clock := clock h + d\<rparr>"]
    by (auto simp: list_all_iff in_retain_unfinished)
  from step_closed [OF this(1,2), of dbg host] this(3)
  have "handler_step dbg host ?h (close_handler host ?h)" "phase (close_handler host ?h) = Closed"
    "available_roots (close_handler host ?h) = []"
    "closed_disks (close_handler host ?h) = map (GuestFS_drop (guestfs_lib host)) (List.map_filter root_disk (available_roots h))"
    by (simp_all add: close_handler_def)
  with step_elapsed [OF assms(1-3,5), of dbg host] show ?thesis by (meson converse_rtranclp_into_rtranclp rtranclp.rtrancl_refl)
qed

section \<open>Shutting down\<close>

definition unfinished :: "(u16 \<times> 'h session) list \<Rightarrow> nat" where
  "unfinished ss = length (retain_unfinished ss)"

fun phase_rank :: "phase \<Rightarrow> nat" where
  "phase_rank Starting = 3" | "phase_rank Serving = 2" | "phase_rank Draining = 1" | "phase_rank Closed = 0" | "phase_rank Crashed = 0"

definition shutdown_rank :: "'h PeerHandler \<Rightarrow> nat" where
  "shutdown_rank h = 3 * length (channel h) + unfinished (send_sessions h) + phase_rank (phase h)"

lemma retain_unfinished_idem [simp]: "retain_unfinished (retain_unfinished ss) = retain_unfinished ss"
  by (simp add: retain_unfinished_def)

lemma unfinished_append [simp]: "unfinished (ss @ [(p, s)]) = unfinished ss + (if s_finished s then 0 else 1)"
  by (simp add: unfinished_def retain_unfinished_def)

lemma unfinished_retain [simp]: "unfinished (retain_unfinished ss) = unfinished ss"
  by (simp add: unfinished_def)

lemma unfinished_finish:
  assumes "(port, s) \<in> set ss" "\<not> s_finished s"
  shows "unfinished (map (\<lambda>(p, s). (p, if p = port then finished_session dbg host s else s)) ss) < unfinished ss"
proof -
  have fin: "s_finished (finished_session dbg host s)" for s by (simp add: finished_session_def)
  have le: "unfinished (map (\<lambda>(p, s). (p, if p = port then finished_session dbg host s else s)) ss) \<le> unfinished ss" for ss
    by (induction ss) (auto simp: unfinished_def retain_unfinished_def fin split: if_splits)
  show ?thesis
    using assms
  proof (induction ss)
    case (Cons x ss)
    with le [of ss] show ?case
      by (auto simp: unfinished_def retain_unfinished_def fin split: if_splits prod.splits)
  qed simp
qed

lemma shutdown_step_rank:
  assumes "handler_step dbg host h h'" "sender_dropped h"
  shows "shutdown_rank h' < shutdown_rank h"
  using assms(1)
proof (cases rule: handler_step_cases)
  case (finish port s)
  with unfinished_finish [of port s "send_sessions h"] show ?thesis
    by (simp add: shutdown_rank_def finish_session_def)
qed (use assms in \<open>auto simp: shutdown_rank_def start_thread_def close_handler_def split: option.splits\<close>)

lemma shutdown_progress:
  assumes "sender_dropped h" "\<not> is_finished h"
  shows "\<exists>h'. handler_step dbg host h h'"
proof (cases "phase h")
  case Starting
  then show ?thesis by (blast intro: step_start)
next
  case Serving
  with assms show ?thesis by (cases "channel h = []") (blast intro: step_shutdown step_request)+
next
  case Draining
  show ?thesis
  proof (cases "list_all (\<lambda>(_, s). s_finished s) (send_sessions h)")
    case False
    then obtain p s where "(p, s) \<in> set (send_sessions h)" "\<not> s_finished s" by (auto simp: list_all_iff)
    with Draining show ?thesis by (blast intro: step_finish)
  qed (use Draining in \<open>blast intro: step_closed\<close>)
qed (use assms in \<open>auto simp: is_finished_def\<close>)

lemma sender_dropped_step: "handler_step dbg host h h' \<Longrightarrow> sender_dropped h' = sender_dropped h"
  by (cases rule: handler_step_cases)
    (auto simp: finish_session_def on_elapsed_def start_thread_def close_handler_def Let_def split: option.splits if_splits)

lemma shutdown_bounded:
  "(handler_step dbg host ^^ n) h h' \<Longrightarrow> sender_dropped h \<Longrightarrow> n + shutdown_rank h' \<le> shutdown_rank h"
proof (induction n arbitrary: h')
  case (Suc n)
  then obtain h1 where h1: "(handler_step dbg host ^^ n) h h1" "handler_step dbg host h1 h'" by auto
  have "sender_dropped h1"
    using h1(1) Suc.prems(2) by (induction n arbitrary: h1) (auto dest: sender_dropped_step)
  with Suc.IH [OF h1(1) Suc.prems(2)] shutdown_step_rank [OF h1(2)] show ?case by simp
qed simp

lemma shutdown_reaches_end:
  "sender_dropped h \<Longrightarrow> \<exists>h'. (handler_step dbg host)\<^sup>*\<^sup>* h h' \<and> is_finished h'"
proof (induction "shutdown_rank h" arbitrary: h rule: less_induct)
  case less
  show ?case
  proof (cases "is_finished h")
    case False
    then obtain h1 where h1: "handler_step dbg host h h1" using shutdown_progress less.prems by blast
    then have "sender_dropped h1" using less.prems sender_dropped_step by blast
    then obtain h' where "(handler_step dbg host)\<^sup>*\<^sup>* h1 h'" "is_finished h'"
      using less.hyps [OF shutdown_step_rank [OF h1 less.prems]] by blast
    with h1 show ?thesis by (meson converse_rtranclp_into_rtranclp)
  qed blast
qed

end
