(* ===== verification/Async_Channel.thy ===== *)
theory Async_Channel
  imports Prelude
begin

text \<open>
  \<open>src/fs_watch/async_channel.rs\<close>: the single-threaded queue between the inotify reader and the server
  loop. Both ends share one \<open>SharedQueue\<close>, which is the state here. A task is known by a number;
  \<open>woken\<close> lists the tasks whose waker was called, in order. The contract of a queue is the locale
  \<open>fifo\<close>: what comes out is what went in, in order, whatever the interleaving.
\<close>

section \<open>Definitions\<close>

record 'a SharedQueue =
  queue :: "'a list"
  waker :: "nat option"
  woken :: "nat list"

datatype QueueError = NoData
datatype 'a Poll = Ready 'a | Pending

definition SharedQueue_new :: "'a SharedQueue" where
  "SharedQueue_new = \<lparr>queue = [], waker = None, woken = []\<rparr>"

definition SharedQueue_push :: "'a SharedQueue \<Rightarrow> 'a \<Rightarrow> 'a SharedQueue" where
  "SharedQueue_push q item =
    (let q = q\<lparr>queue := queue q @ [item]\<rparr> in
     case waker q of
       Some w \<Rightarrow> q\<lparr>waker := None, woken := woken q @ [w]\<rparr>
     | None \<Rightarrow> q)"

definition pop_nowait :: "'a SharedQueue \<Rightarrow> (QueueError + 'a) \<times> 'a SharedQueue" where
  "pop_nowait q =
    (case queue q of
       [] \<Rightarrow> (Inl NoData, q)
     | x # xs \<Rightarrow> (Inr x, q\<lparr>queue := xs\<rparr>))"

definition register_waker :: "'a SharedQueue \<Rightarrow> nat \<Rightarrow> 'a SharedQueue" where
  "register_waker q w = q\<lparr>waker := Some w\<rparr>"

text \<open>The two ends share the queue; \<open>type_name\<close> is the name of the type of its items.\<close>

type_synonym 'a TX = "'a SharedQueue"
type_synonym 'a RX = "'a SharedQueue"

definition async_channel_new :: "'a SharedQueue" where
  "async_channel_new = SharedQueue_new"

definition TX_debug :: "rstr \<Rightarrow> 'a TX \<Rightarrow> rstr" where
  "TX_debug type_name tx = str ''TX<'' @ type_name @ str ''>''"

definition RX_debug :: "rstr \<Rightarrow> 'a RX \<Rightarrow> rstr" where
  "RX_debug type_name rx = str ''RX<'' @ type_name @ str ''>''"

definition TX_push :: "'a SharedQueue \<Rightarrow> 'a \<Rightarrow> 'a SharedQueue" where
  "TX_push q item = SharedQueue_push q item"

text \<open>Polling the future of \<open>RX::next\<close> from task \<open>t\<close>.\<close>

definition Future_poll :: "nat \<Rightarrow> 'a SharedQueue \<Rightarrow> 'a Poll \<times> 'a SharedQueue" where
  "Future_poll t q =
    (case pop_nowait q of
       (Inr item, q) \<Rightarrow> (Ready item, q)
     | (Inl NoData, q) \<Rightarrow> (Pending, register_waker q t))"

section \<open>The contract of a queue\<close>

datatype 'a queue_op = Push 'a | Pop

locale fifo =
  fixes push :: "'q \<Rightarrow> 'a \<Rightarrow> 'q"
    and pop :: "'q \<Rightarrow> 'a option \<times> 'q"
    and items :: "'q \<Rightarrow> 'a list"
  assumes items_push: "items (push q x) = items q @ [x]"
    and pop_empty: "items q = [] \<Longrightarrow> fst (pop q) = None \<and> items (snd (pop q)) = []"
    and pop_items: "items q = x # xs \<Longrightarrow> fst (pop q) = Some x \<and> items (snd (pop q)) = xs"
begin

fun run_ops :: "'q \<Rightarrow> 'a queue_op list \<Rightarrow> 'a list \<times> 'q" where
  "run_ops q [] = ([], q)"
| "run_ops q (Push x # ops) = run_ops (push q x) ops"
| "run_ops q (Pop # ops) =
    (case pop q of (r, q') \<Rightarrow> (case run_ops q' ops of
       (xs, q'') \<Rightarrow> ((case r of None \<Rightarrow> [] | Some x \<Rightarrow> [x]) @ xs, q'')))"

fun pushed :: "'a queue_op list \<Rightarrow> 'a list" where
  "pushed [] = []"
| "pushed (Push x # ops) = x # pushed ops"
| "pushed (Pop # ops) = pushed ops"

text \<open>Nothing is lost, duplicated or reordered.\<close>

lemma run_ops_fifo:
  "run_ops q ops = (popped, q') \<Longrightarrow> popped @ items q' = items q @ pushed ops"
proof (induction q ops arbitrary: popped rule: run_ops.induct)
  case (2 q x ops)
  then show ?case by (simp add: items_push)
next
  case (3 q ops)
  obtain r q1 where p: "pop q = (r, q1)" by fastforce
  obtain xs where xs: "run_ops q1 ops = (xs, q')" "popped = (case r of None \<Rightarrow> [] | Some x \<Rightarrow> [x]) @ xs"
    using "3.prems" p by (auto split: prod.splits)
  have "xs @ items q' = items q1 @ pushed ops" using "3.IH" p xs(1) by simp
  moreover have "(case r of None \<Rightarrow> [] | Some x \<Rightarrow> [x]) @ items q1 = items q"
    using pop_empty [of q] pop_items [of q] p by (cases "items q") auto
  ultimately show ?case using xs(2) by (metis append_assoc pushed.simps(3))
qed simp

text \<open>Receiving again and again gives the items in order.\<close>

lemma run_ops_pops: "fst (run_ops q (replicate n Pop)) = take n (items q)"
proof (induction n arbitrary: q)
  case (Suc n)
  obtain r q1 where p: "pop q = (r, q1)" by fastforce
  with Suc [of q1] pop_empty [of q] pop_items [of q] show ?case
    by (cases "items q") (auto split: prod.splits)
qed simp

lemma items_push_all: "items (foldl push q xs) = items q @ xs"
  by (induction xs arbitrary: q) (simp_all add: items_push)

end

definition try_next :: "nat \<Rightarrow> 'a SharedQueue \<Rightarrow> 'a option \<times> 'a SharedQueue" where
  "try_next t q = (case Future_poll t q of (Ready x, q) \<Rightarrow> (Some x, q) | (Pending, q) \<Rightarrow> (None, q))"

interpretation watch_queue: fifo TX_push "try_next t" queue for t
  by unfold_locales
    (auto simp: TX_push_def SharedQueue_push_def try_next_def Future_poll_def pop_nowait_def
      register_waker_def Let_def split: option.splits)

section \<open>No lost wake-up\<close>

text \<open>The consumer \<open>t\<close> sleeps after a poll that returned \<open>Pending\<close> until its waker is called.\<close>

record 'a channel_state =
  chan :: "'a SharedQueue"
  asleep :: bool

inductive channel_step :: "nat \<Rightarrow> 'a channel_state \<Rightarrow> 'a channel_state \<Rightarrow> bool" for t where
  step_push: "q' = TX_push (chan s) x \<Longrightarrow>
     channel_step t s \<lparr>chan = q', asleep = (asleep s \<and> length (woken q') = length (woken (chan s)))\<rparr>"
| step_poll: "\<not> asleep s \<Longrightarrow> Future_poll t (chan s) = (r, q') \<Longrightarrow>
     channel_step t s \<lparr>chan = q', asleep = (r = Pending)\<rparr>"

inductive channel_reachable :: "nat \<Rightarrow> 'a channel_state \<Rightarrow> bool" for t where
  reach_new: "channel_reachable t \<lparr>chan = SharedQueue_new, asleep = False\<rparr>"
| reach_step: "channel_reachable t s \<Longrightarrow> channel_step t s s' \<Longrightarrow> channel_reachable t s'"

lemma channel_step_awake:
  assumes "channel_step t s s'" "asleep s \<Longrightarrow> queue (chan s) = [] \<and> waker (chan s) = Some t"
  shows "asleep s' \<Longrightarrow> queue (chan s') = [] \<and> waker (chan s') = Some t"
  using assms(1)
proof (cases rule: channel_step.cases)
  case (step_push q' x)
  with assms(2) show "asleep s' \<Longrightarrow> queue (chan s') = [] \<and> waker (chan s') = Some t"
    by (auto simp: TX_push_def SharedQueue_push_def)
next
  case (step_poll r q')
  then show "asleep s' \<Longrightarrow> queue (chan s') = [] \<and> waker (chan s') = Some t"
    by (auto simp: Future_poll_def pop_nowait_def register_waker_def split: list.splits)
qed

lemma channel_no_lost_wakeup:
  "channel_reachable t s \<Longrightarrow> asleep s \<Longrightarrow> queue (chan s) = [] \<and> waker (chan s) = Some t"
proof (induction rule: channel_reachable.induct)
  case (reach_step s s')
  with channel_step_awake [OF reach_step.hyps(2)] show ?case by blast
qed simp

end
