(* ===== verification/Fs_Watch.thy ===== *)
theory Fs_Watch
  imports Async_Channel Guestfs
begin

text \<open>
  \<open>src/fs_watch/mod.rs\<close>: the inotify watch on the TFTP root. The kernel's event records are decoded by
  \<open>InotifyEvent_from\<close> and \<open>parse_events\<close>; the header's integers are read in the byte order of the host, little
  endian here. The system calls are the parameter \<open>sys\<close>. The reader task is a function of what the
  reads of the inotify descriptor return.
\<close>

section \<open>Definitions\<close>

definition EVENT_HEADER_SIZE :: usize where "EVENT_HEADER_SIZE = 16"
definition PATH_MAX :: usize where "PATH_MAX = 4096"
definition EVENT_BUFFER_SIZE :: usize where "EVENT_BUFFER_SIZE = EVENT_HEADER_SIZE + PATH_MAX + 1"

definition IN_CLOSE_WRITE :: u32 where "IN_CLOSE_WRITE = 0x8"
definition IN_MOVED_TO :: u32 where "IN_MOVED_TO = 0x80"
definition IN_DELETE :: u32 where "IN_DELETE = 0x200"

record InotifyEventHeader =
  hdr_wd :: u32
  hdr_mask :: u32
  hdr_cookie :: u32
  hdr_len :: u32

record InotifyEvent =
  ev_mask :: u32
  ev_file_name :: "rstr option"

datatype ParseError = NotEnoughBytes

definition le_u32 :: "bytes \<Rightarrow> nat \<Rightarrow> u32" where
  "le_u32 b i = of_nat (unat (b ! i) + 256 * unat (b ! (i + 1)) + 65536 * unat (b ! (i + 2))
     + 16777216 * unat (b ! (i + 3)))"

definition header_of :: "bytes \<Rightarrow> InotifyEventHeader" where
  "header_of b = \<lparr>hdr_wd = le_u32 b 0, hdr_mask = le_u32 b 4, hdr_cookie = le_u32 b 8, hdr_len = le_u32 b 12\<rparr>"

text \<open>\<open>CStr::from_bytes_until_nul(..).unwrap().to_string_lossy()\<close>\<close>

definition cstr_lossy :: "bytes \<Rightarrow> rstr run" where
  "cstr_lossy b = map_option (\<lambda>i. utf8_lossy (take i b)) (position (\<lambda>c. c = 0) b)"

definition InotifyEvent_from :: "bytes \<Rightarrow> (ParseError + InotifyEvent \<times> usize) run" where
  "InotifyEvent_from buf =
    (if length buf < EVENT_HEADER_SIZE then Some (Inl NotEnoughBytes)
     else let event_header = header_of buf in
       if 0 < hdr_len event_header then
         (let message_offset = EVENT_HEADER_SIZE + unat (hdr_len event_header) in
          if length buf < message_offset then Some (Inl NotEnoughBytes)
          else map_option
            (\<lambda>name. Inr (\<lparr>ev_mask = hdr_mask event_header, ev_file_name = Some name\<rparr>, message_offset))
            (cstr_lossy (slice buf EVENT_HEADER_SIZE message_offset)))
       else Some (Inr (\<lparr>ev_mask = hdr_mask event_header, ev_file_name = None\<rparr>, EVENT_HEADER_SIZE)))"

definition Event_file_name :: "InotifyEvent \<Rightarrow> rstr" where
  "Event_file_name e = (case ev_file_name e of Some n \<Rightarrow> n | None \<Rightarrow> [])"

definition is_modify :: "InotifyEvent \<Rightarrow> bool" where
  "is_modify e \<longleftrightarrow> 0 < and (ev_mask e) (or IN_MOVED_TO IN_CLOSE_WRITE)"

definition is_removal :: "InotifyEvent \<Rightarrow> bool" where
  "is_removal e \<longleftrightarrow> 0 < and (ev_mask e) IN_DELETE"

definition InotifyEvent_debug :: "InotifyEvent \<Rightarrow> rstr" where
  "InotifyEvent_debug e =
    str ''<InotifyEvent: mask=0x'' @ hex_string (unat (ev_mask e)) @ str '', file_name='' @ [39]
    @ Event_file_name e @ [39] @ str ''>''"

lemma InotifyEvent_from_size:
  "InotifyEvent_from buf = Some (Inr (e, n)) \<Longrightarrow> 0 < n \<and> n \<le> length buf"
  by (auto simp: InotifyEvent_from_def EVENT_HEADER_SIZE_def Let_def split: if_splits)

function parse_events_from :: "bytes \<Rightarrow> usize \<Rightarrow> usize \<Rightarrow> InotifyEvent list \<Rightarrow> InotifyEvent list run" where
  "parse_events_from buf bytes_read ofs result =
    (if bytes_read < ofs \<or> length buf < bytes_read then None
     else case InotifyEvent_from (slice buf ofs bytes_read) of
       None \<Rightarrow> None
     | Some (Inl NotEnoughBytes) \<Rightarrow> Some result
     | Some (Inr (event, event_size)) \<Rightarrow>
         parse_events_from buf bytes_read (ofs + event_size) (result @ [event]))"
  by pat_completeness auto
termination
proof (relation "measure (\<lambda>(_, n, ofs, _). n - ofs)", goal_cases)
  case (2 buf n ofs result x y e k)
  then have "InotifyEvent_from (slice buf ofs n) = Some (Inr (e, k))" by auto
  from InotifyEvent_from_size [OF this] 2 show ?case by (auto simp: slice_def)
qed simp

declare parse_events_from.simps [simp del]

definition parse_events :: "bytes \<Rightarrow> usize \<Rightarrow> InotifyEvent list run" where
  "parse_events buf bytes_read = parse_events_from buf bytes_read 0 []"

section \<open>The reader task\<close>

datatype watch_read =
    WatchBytes bytes
  | WatchEof
  | WatchError io_error
  | WatchRetry
  | NotReadable io_error

text \<open>The reader task on the results of its reads; \<open>None\<close> is its panic. A read fills the front of
  the buffer.\<close>

fun watch_loop :: "bytes \<Rightarrow> InotifyEvent SharedQueue \<Rightarrow> watch_read list \<Rightarrow> InotifyEvent SharedQueue run" where
  "watch_loop buf tx [] = Some tx"
| "watch_loop buf tx (WatchEof # rs) = Some tx"
| "watch_loop buf tx (WatchError e # rs) = None"
| "watch_loop buf tx (NotReadable e # rs) = None"
| "watch_loop buf tx (WatchRetry # rs) = watch_loop buf tx rs"
| "watch_loop buf tx (WatchBytes d # rs) =
    (let d = take (length buf) d; buf = d @ drop (length d) buf in
     if d = [] then Some tx
     else do {
       es \<leftarrow> parse_events buf (length d);
       watch_loop buf (foldl TX_push tx es) rs
     })"

section \<open>Watches\<close>

definition Watch_new :: u32 where "Watch_new = 0"

definition Watch_change :: "u32 \<Rightarrow> u32" where
  "Watch_change w = or (or w IN_CLOSE_WRITE) IN_MOVED_TO"

definition Watch_removal :: "u32 \<Rightarrow> u32" where
  "Watch_removal w = or w IN_DELETE"

record inotify =
  inotify_init1 :: int
  inotify_add_watch :: "int \<Rightarrow> bytes \<Rightarrow> u32 \<Rightarrow> int"
  inotify_rm_watch :: "int \<Rightarrow> int \<Rightarrow> int"
  async_fd :: "int \<Rightarrow> io_error + unit"
  last_os_error :: io_error

record INotifyObserver =
  obs_fd :: int
  obs_wd :: int
  obs_rx :: "InotifyEvent SharedQueue"
  obs_running :: bool
  obs_display :: rstr

definition observe :: "inotify \<Rightarrow> u32 \<Rightarrow> rstr \<Rightarrow> io_error + INotifyObserver" where
  "observe sys msk directory =
    (if 0 \<in> set directory then Inl (io_kind InvalidInput)
     else let raw_fd = inotify_init1 sys in
       if raw_fd < 0 then Inl (last_os_error sys)
       else let wd = inotify_add_watch sys raw_fd directory msk in
         if wd < 0 then Inl (last_os_error sys)
         else case async_fd sys raw_fd of
           Inl e \<Rightarrow> Inl e
         | Inr _ \<Rightarrow> Inr \<lparr>obs_fd = raw_fd, obs_wd = wd, obs_rx = async_channel_new, obs_running = True,
                          obs_display = directory\<rparr>)"

definition Observer_next :: "nat \<Rightarrow> INotifyObserver \<Rightarrow> InotifyEvent Poll \<times> INotifyObserver" where
  "Observer_next t obs = (case Future_poll t (obs_rx obs) of (r, q) \<Rightarrow> (r, obs\<lparr>obs_rx := q\<rparr>))"

definition Observer_debug :: "INotifyObserver \<Rightarrow> rstr" where
  "Observer_debug obs = str ''<Observer on: '' @ str_debug (obs_display obs) @ str ''>''"

definition Observer_drop :: "inotify \<Rightarrow> INotifyObserver \<Rightarrow> int \<times> INotifyObserver" where
  "Observer_drop sys obs =
    (inotify_rm_watch sys (obs_fd obs) (obs_wd obs), obs\<lparr>obs_running := False\<rparr>)"

section \<open>Records of the kernel\<close>

text \<open>The record the kernel writes for an event: the header, then the name padded with NULs.\<close>

definition le_bytes :: "u32 \<Rightarrow> bytes" where
  "le_bytes w = [ucast w, ucast (drop_bit 8 w), ucast (drop_bit 16 w), ucast (drop_bit 24 w)]"

definition kernel_record :: "u32 \<Rightarrow> u32 \<Rightarrow> u32 \<Rightarrow> (rstr \<times> nat) option \<Rightarrow> bytes" where
  "kernel_record wd msk cookie name =
    le_bytes wd @ le_bytes msk @ le_bytes cookie @
    (case name of
       None \<Rightarrow> le_bytes 0
     | Some (n, pad) \<Rightarrow> le_bytes (of_nat (length n + Suc pad)) @ n @ replicate (Suc pad) 0)"

definition record_ok :: "(rstr \<times> nat) option \<Rightarrow> bool" where
  "record_ok name \<longleftrightarrow> (case name of None \<Rightarrow> True
     | Some (n, pad) \<Rightarrow> 0 \<notin> set n \<and> utf8_valid n \<and> length n + Suc pad < 2 ^ 32)"

lemma base_256:
  fixes n :: nat
  assumes "n < 4294967296"
  shows "n mod 256 + 256 * (n div 256 mod 256) + 65536 * (n div 65536 mod 256) + 16777216 * (n div 16777216 mod 256) = n"
proof -
  define a b c where "a = n div 256" and "b = a div 256" and "c = b div 256"
  have "n div 65536 = b" "n div 16777216 = c"
    by (simp_all add: a_def b_def c_def div_mult2_eq [symmetric])
  moreover have "n = 256 * a + n mod 256" "a = 256 * b + a mod 256" "b = 256 * c + b mod 256"
    by (simp_all add: a_def b_def c_def)
  moreover have "c < 256" using assms by (simp add: a_def b_def c_def div_mult2_eq [symmetric])
  ultimately show ?thesis by (simp add: a_def [symmetric])
qed

lemma le_u32_bytes:
  assumes "i = length pre"
  shows "le_u32 (pre @ le_bytes w @ post) i = w"
proof -
  let ?n = "unat w"
  have "unat (ucast w :: byte) = ?n mod 256" "unat (ucast (drop_bit 8 w) :: byte) = ?n div 256 mod 256"
    "unat (ucast (drop_bit 16 w) :: byte) = ?n div 65536 mod 256"
    "unat (ucast (drop_bit 24 w) :: byte) = ?n div 16777216 mod 256"
    by (simp_all add: unsigned_ucast_eq take_bit_eq_mod drop_bit_eq_div unat_div_distrib)
  moreover have "?n < 4294967296" using unsigned_less [of w] by simp
  ultimately have "le_u32 (pre @ le_bytes w @ post) i = of_nat ?n"
    unfolding le_u32_def assms using base_256 [of ?n]
    by (simp add: le_bytes_def nth_append)
  then show ?thesis by simp
qed

lemma length_le_bytes [simp]: "length (le_bytes w) = 4"
  by (simp add: le_bytes_def)

lemma header_of_record:
  "header_of (le_bytes wd @ le_bytes msk @ le_bytes cookie @ le_bytes len @ post)
    = \<lparr>hdr_wd = wd, hdr_mask = msk, hdr_cookie = cookie, hdr_len = len\<rparr>"
  using le_u32_bytes [of 0 "[]" wd "le_bytes msk @ le_bytes cookie @ le_bytes len @ post"]
    le_u32_bytes [of 4 "le_bytes wd" msk "le_bytes cookie @ le_bytes len @ post"]
    le_u32_bytes [of 8 "le_bytes wd @ le_bytes msk" cookie "le_bytes len @ post"]
    le_u32_bytes [of 12 "le_bytes wd @ le_bytes msk @ le_bytes cookie" len post]
  by (simp add: header_of_def)

text \<open>A record is read back with its name, whatever follows it in the buffer.\<close>

lemma InotifyEvent_from_record:
  assumes "record_ok name"
  shows "InotifyEvent_from (kernel_record wd msk cookie name @ post)
    = Some (Inr (\<lparr>ev_mask = msk, ev_file_name = map_option fst name\<rparr>, length (kernel_record wd msk cookie name)))"
proof (cases name)
  case None
  then show ?thesis
    using header_of_record [of wd msk cookie 0 post]
    by (simp add: InotifyEvent_from_def kernel_record_def EVENT_HEADER_SIZE_def Let_def)
next
  case (Some np)
  obtain n pad where np: "np = (n, pad)" by fastforce
  let ?k = "length n + Suc pad" and ?name = "n @ replicate (Suc pad) 0"
  let ?hdr = "le_bytes wd @ le_bytes msk @ le_bytes cookie @ le_bytes (of_nat ?k)"
  from assms Some np have ok: "0 \<notin> set n" "utf8_valid n" "?k < 4294967296" by (auto simp: record_ok_def)
  have len: "unat (of_nat ?k :: u32) = ?k"
    using ok(3) by (simp only: unat_of_nat take_bit_eq_mod) simp
  have "slice (?hdr @ ?name @ post) 16 (16 + ?k) = ?name" by (simp add: slice_def)
  moreover have "position (\<lambda>c. c = 0) ?name = Some (length n)"
    using position_append [of n "\<lambda>c. c = 0" 0 "replicate pad 0"] ok(1) by auto
  ultimately have "cstr_lossy (slice (?hdr @ ?name @ post) 16 (16 + ?k)) = Some n"
    using utf8_lossy_valid [OF ok(2)] by (simp add: cstr_lossy_def)
  moreover have "0 < (of_nat ?k :: u32)" using len by (simp add: word_less_nat_alt del: of_nat_add of_nat_Suc)
  ultimately show ?thesis
    using header_of_record [of wd msk cookie "of_nat ?k" "?name @ post"] len Some np
    by (simp add: InotifyEvent_from_def kernel_record_def EVENT_HEADER_SIZE_def Let_def del: of_nat_add of_nat_Suc)
qed

text \<open>\<open>parse_events\<close> on what the kernel wrote, with the bytes of a record that did not fit ignored.\<close>

definition event_of :: "u32 \<times> u32 \<times> u32 \<times> (rstr \<times> nat) option \<Rightarrow> InotifyEvent" where
  "event_of r = (case r of (wd, msk, cookie, name) \<Rightarrow> \<lparr>ev_mask = msk, ev_file_name = map_option fst name\<rparr>)"

definition record_bytes :: "u32 \<times> u32 \<times> u32 \<times> (rstr \<times> nat) option \<Rightarrow> bytes" where
  "record_bytes r = (case r of (wd, msk, cookie, name) \<Rightarrow> kernel_record wd msk cookie name)"

lemma parse_events_from_records:
  assumes "\<forall>r \<in> set rs. record_ok (snd (snd (snd r)))" "length rest < EVENT_HEADER_SIZE"
  shows "parse_events_from (pre @ concat (map record_bytes rs) @ rest @ junk)
      (length pre + length (concat (map record_bytes rs)) + length rest) (length pre) acc
    = Some (acc @ map event_of rs)"
  using assms(1)
proof (induction rs arbitrary: pre acc)
  case Nil
  then show ?case using assms(2)
    by (subst parse_events_from.simps) (simp add: slice_def InotifyEvent_from_def)
next
  case (Cons r rs)
  obtain wd msk cookie name where r: "r = (wd, msk, cookie, name)" using prod_cases4 by blast
  let ?tail = "concat (map record_bytes rs) @ rest"
  have "slice (pre @ concat (map record_bytes (r # rs)) @ rest @ junk) (length pre)
      (length pre + length (concat (map record_bytes (r # rs))) + length rest)
    = kernel_record wd msk cookie name @ ?tail"
    by (simp add: slice_def r record_bytes_def)
  then have "InotifyEvent_from (slice (pre @ concat (map record_bytes (r # rs)) @ rest @ junk) (length pre)
      (length pre + length (concat (map record_bytes (r # rs))) + length rest))
    = Some (Inr (event_of r, length (record_bytes r)))"
    using InotifyEvent_from_record [of name wd msk cookie ?tail] Cons.prems r
    by (simp add: event_of_def record_bytes_def)
  then show ?case
    using Cons.IH [of "pre @ record_bytes r" "acc @ [event_of r]"] Cons.prems
    by (subst parse_events_from.simps) (simp add: add.assoc)
qed

lemma inotify_records_read_back:
  assumes "\<forall>r \<in> set rs. record_ok (snd (snd (snd r)))" "length rest < EVENT_HEADER_SIZE"
  shows "parse_events (concat (map record_bytes rs) @ rest @ junk) (length (concat (map record_bytes rs)) + length rest)
    = Some (map event_of rs)"
  using parse_events_from_records [OF assms, of "[]" junk "[]"] by (simp add: parse_events_def)

text \<open>What one read of the descriptor returns: some records, whole ones, as many as fit the buffer.\<close>

definition kernel_batch :: "nat \<Rightarrow> (u32 \<times> u32 \<times> u32 \<times> (rstr \<times> nat) option) list \<Rightarrow> bool" where
  "kernel_batch cap rs \<longleftrightarrow> rs \<noteq> [] \<and> list_all (\<lambda>r. record_ok (snd (snd (snd r)))) rs
    \<and> length (concat (map record_bytes rs)) \<le> cap"

lemma record_bytes_nonempty: "record_bytes r \<noteq> []"
  by (cases r) (simp add: record_bytes_def kernel_record_def le_bytes_def)

text \<open>The reader pushes the events of every read, in order, and goes on.\<close>

lemma watch_loop_batches:
  assumes "list_all (kernel_batch (length buf)) batches"
  shows "\<exists>buf'. length buf' = length buf \<and>
    watch_loop buf tx (map (\<lambda>b. WatchBytes (concat (map record_bytes b))) batches @ rs)
      = watch_loop buf' (foldl TX_push tx (map event_of (concat batches))) rs"
  using assms
proof (induction batches arbitrary: buf tx)
  case (Cons b batches)
  let ?d = "concat (map record_bytes b)"
  from Cons.prems have b: "b \<noteq> []" "\<forall>r \<in> set b. record_ok (snd (snd (snd r)))" "length ?d \<le> length buf"
    by (auto simp: kernel_batch_def list_all_iff)
  then have d: "?d \<noteq> []" "take (length buf) ?d = ?d" using record_bytes_nonempty by (cases b; simp)+
  let ?buf = "?d @ drop (length ?d) buf"
  have "parse_events ?buf (length ?d) = Some (map event_of b)"
    using inotify_records_read_back [OF b(2), of "[]" "drop (length ?d) buf"] by (simp add: EVENT_HEADER_SIZE_def)
  moreover have "length ?buf = length buf" using b(3) by simp
  ultimately show ?case
    using Cons.IH [of ?buf "foldl TX_push tx (map event_of b)"] Cons.prems d by (auto simp: Let_def)
qed auto

lemma is_modify_subscribed: "is_modify e \<longleftrightarrow> and (ev_mask e) (Watch_change Watch_new) \<noteq> 0"
  by (simp add: is_modify_def Watch_change_def Watch_new_def or.commute word_gt_0)

end
