(* ===== verification/Server.thy ===== *)
theory Server
  imports Peer_Handler Fs_Watch
begin

text \<open>
  \<open>src/server.rs\<close> and \<open>src/main.rs\<close>: the server's loop over requests, configuration changes and its periodic
  turn. The loop awaits in \<open>select!\<close>, in \<open>feed\<close> and while joining a handler's thread; these places
  are the server's \<open>activity\<close>, and a step relation interleaves them with the handlers' own steps.
  \<open>replies\<close> collects what the server's own socket sends. Times are in milliseconds.
\<close>

section \<open>Definitions\<close>

definition BUFFER_SIZE :: usize where "BUFFER_SIZE = 65535"

datatype 'h activity =
    Selecting
  | Feeding IpAddr u16 ReadRequest
  | Joining "'h PeerHandler" bool
  | Dropping
  | Gone
  | ServerPanicked

record 'h TFTPServer =
  socket_addr :: SocketAddr
  root_dir :: rstr
  peer_handlers :: "IpAddr \<rightharpoonup> 'h PeerHandler"
  max_idle_time :: nat
  srv_buffer :: bytes
  srv_display :: rstr
  replies :: "(SocketAddr \<times> bytes) list"
  watch :: "InotifyEvent SharedQueue option"
  srv_clock :: nat
  activity :: "'h activity"

definition TFTPServer_new :: "SocketAddr \<Rightarrow> rstr \<Rightarrow> nat \<Rightarrow> nat \<Rightarrow> 'h TFTPServer" where
  "TFTPServer_new local_addr root idle_seconds now =
    \<lparr>socket_addr = local_addr, root_dir = root, peer_handlers = Map.empty, max_idle_time = 1000 * idle_seconds,
     srv_buffer = replicate BUFFER_SIZE 0,
     srv_display = str ''<TFTP on '' @ IpAddr_to_string (fst local_addr) @ [colon]
       @ u16_to_string (snd local_addr) @ str ''>'',
     replies = [], watch = None, srv_clock = now, activity = Selecting\<rparr>"

definition TFTPServer_display :: "'h TFTPServer \<Rightarrow> rstr" where
  "TFTPServer_display srv = srv_display srv"

definition new_handler :: "'h TFTPServer \<Rightarrow> IpAddr \<Rightarrow> 'h PeerHandler" where
  "new_handler srv ip = PeerHandler_new ip (fst (socket_addr srv)) (root_dir srv) (max_idle_time srv) (srv_clock srv)"

text \<open>\<open>handle_request\<close> up to the await of \<open>feed\<close>; \<open>sent\<close> is whether \<open>send_to\<close> succeeds.\<close>

definition handle_request :: "bool \<Rightarrow> usize \<Rightarrow> SocketAddr \<Rightarrow> 'h TFTPServer \<Rightarrow> 'h TFTPServer" where
  "handle_request sent n remote srv =
    (case ReadRequest_parse (take n (srv_buffer srv)) of
       Inr rrq \<Rightarrow>
         (let remote_ip = fst remote;
              handlers = (case peer_handlers srv remote_ip of
                 Some _ \<Rightarrow> peer_handlers srv
               | None \<Rightarrow> (peer_handlers srv)(remote_ip \<mapsto> new_handler srv remote_ip))
          in srv\<lparr>peer_handlers := handlers, activity := Feeding remote_ip (snd remote) rrq\<rparr>)
     | Inl tftp_error \<Rightarrow>
         (case TFTPError_serialize tftp_error (srv_buffer srv) of
            None \<Rightarrow> srv\<lparr>activity := ServerPanicked\<rparr>
          | Some (Inr k, buf) \<Rightarrow>
              srv\<lparr>srv_buffer := buf,
                  replies := replies srv @ (if sent then [(remote, take k buf)] else [])\<rparr>
          | Some (Inl _, buf) \<Rightarrow> srv\<lparr>srv_buffer := buf\<rparr>))"

text \<open>The rest of \<open>handle_request\<close>; \<open>None\<close> while \<open>feed\<close> waits for room in the channel.\<close>

definition after_feed :: "IpAddr \<Rightarrow> u16 \<Rightarrow> ReadRequest \<Rightarrow> 'h TFTPServer \<Rightarrow> 'h TFTPServer option" where
  "after_feed ip port rrq srv =
    (case peer_handlers srv ip of
       None \<Rightarrow> None
     | Some h \<Rightarrow>
        (case feed h port rrq of
           None \<Rightarrow> None
         | Some (True, h) \<Rightarrow>
             Some (srv\<lparr>peer_handlers := (peer_handlers srv)(ip \<mapsto> h), activity := Selecting\<rparr>)
         | Some (False, h) \<Rightarrow>
             Some (srv\<lparr>peer_handlers := (peer_handlers srv)(ip := None),
                       activity := Joining (request_shutdown h) False\<rparr>)))"

text \<open>The end of \<open>shutdown\<close>; the flag tells whether the server itself is being dropped.\<close>

definition after_join :: "'h PeerHandler \<Rightarrow> bool \<Rightarrow> 'h TFTPServer \<Rightarrow> 'h TFTPServer option" where
  "after_join h dropping srv =
    (case join_thread h of
       None \<Rightarrow> None
     | Some (Some _) \<Rightarrow> Some (srv\<lparr>activity := (if dropping then Dropping else Selecting)\<rparr>)
     | Some None \<Rightarrow> Some (srv\<lparr>activity := ServerPanicked\<rparr>))"

definition on_turn :: "'h TFTPServer \<Rightarrow> 'h TFTPServer" where
  "on_turn srv = srv\<lparr>peer_handlers := (\<lambda>ip. case peer_handlers srv ip of
     Some h \<Rightarrow> if is_finished h then None else Some h
   | None \<Rightarrow> None)\<rparr>"

text \<open>\<open>rsplit_once('.')\<close>: before and after the last dot.\<close>

definition rsplit_once :: "byte \<Rightarrow> rstr \<Rightarrow> (rstr \<times> rstr) option" where
  "rsplit_once c s =
    (case position (\<lambda>b. b = c) (rev s) of
       None \<Rightarrow> None
     | Some i \<Rightarrow> Some (take (length s - i - 1) s, drop (length s - i) s))"

definition on_event :: "InotifyEvent \<Rightarrow> 'h TFTPServer \<Rightarrow> 'h TFTPServer" where
  "on_event event srv =
    (case rsplit_once dot (Event_file_name event) of
       None \<Rightarrow> srv
     | Some (stem, _) \<Rightarrow>
        if is_modify event then
          (case IpAddr_from_str stem of
             None \<Rightarrow> srv
           | Some remote_ip \<Rightarrow>
              (let srv' = srv\<lparr>peer_handlers := (peer_handlers srv)(remote_ip \<mapsto> new_handler srv remote_ip)\<rparr> in
               case peer_handlers srv remote_ip of
                 Some previous_handler \<Rightarrow> srv'\<lparr>activity := Joining (request_shutdown previous_handler) False\<rparr>
               | None \<Rightarrow> srv'))
        else srv)"

definition on_datagram :: "bool \<Rightarrow> bytes \<Rightarrow> SocketAddr \<Rightarrow> 'h TFTPServer \<Rightarrow> 'h TFTPServer" where
  "on_datagram sent d remote srv =
    handle_request sent (min (length (srv_buffer srv)) (length d)) remote
      (srv\<lparr>srv_buffer := recv_into (srv_buffer srv) d\<rparr>)"

text \<open>\<open>serve\<close> and \<open>serve_augmented\<close> (where \<open>watch\<close> is present), the steps of the handlers' threads and of the
  inotify reader, and the drop of the server. \<open>t\<close> is the server's task.\<close>

inductive server_step :: "bool \<Rightarrow> ('h, 'j) env \<Rightarrow> nat \<Rightarrow> 'h TFTPServer \<Rightarrow> 'h TFTPServer \<Rightarrow> bool"
  for dbg :: bool and host :: "('h, 'j) env" and t :: nat where
  srv_turn: "activity s = Selecting \<Longrightarrow> server_step dbg host t s (on_turn s)"
| srv_event: "activity s = Selecting \<Longrightarrow> watch s = Some q \<Longrightarrow> try_next t q = (Some event, q') \<Longrightarrow>
    server_step dbg host t s (on_event event (s\<lparr>watch := Some q'\<rparr>))"
| srv_datagram: "activity s = Selecting \<Longrightarrow> server_step dbg host t s (on_datagram sent d remote s)"
| srv_recv_error: "activity s = Selecting \<Longrightarrow> server_step dbg host t s (s\<lparr>activity := Dropping\<rparr>)"
| srv_interrupt: "activity s = Selecting \<or> (\<exists>ip port rrq. activity s = Feeding ip port rrq) \<Longrightarrow>
    server_step dbg host t s (s\<lparr>activity := Dropping\<rparr>)"
| srv_fed: "activity s = Feeding ip port rrq \<Longrightarrow> after_feed ip port rrq s = Some s' \<Longrightarrow> server_step dbg host t s s'"
| srv_joined: "activity s = Joining h dropping \<Longrightarrow> after_join h dropping s = Some s' \<Longrightarrow> server_step dbg host t s s'"
| srv_drop: "activity s = Dropping \<Longrightarrow> peer_handlers s ip = Some h \<Longrightarrow>
    server_step dbg host t s (s\<lparr>peer_handlers := (peer_handlers s)(ip := None),
      activity := Joining (request_shutdown h) True\<rparr>)"
| srv_dropped: "activity s = Dropping \<Longrightarrow> peer_handlers s = Map.empty \<Longrightarrow> server_step dbg host t s (s\<lparr>activity := Gone\<rparr>)"
| srv_handler: "peer_handlers s ip = Some h \<Longrightarrow> handler_step dbg host h h' \<Longrightarrow>
    server_step dbg host t s (s\<lparr>peer_handlers := (peer_handlers s)(ip \<mapsto> h')\<rparr>)"
| srv_leaving: "activity s = Joining h dropping \<Longrightarrow> handler_step dbg host h h' \<Longrightarrow>
    server_step dbg host t s (s\<lparr>activity := Joining h' dropping\<rparr>)"
| srv_watch: "watch s = Some q \<Longrightarrow> server_step dbg host t s (s\<lparr>watch := Some (TX_push q event)\<rparr>)"
| srv_tick: "server_step dbg host t s (s\<lparr>srv_clock := srv_clock s + d\<rparr>)"

section \<open>The program\<close>

record Args =
  listen_ip :: rstr
  listen_port :: u16
  args_root_dir :: rstr
  monitor_configs :: bool
  args_idle_timeout :: nat

datatype ExitCode = SUCCESS | FAILURE

text \<open>What the program finds when it starts: opening \<open>/dev/kvm\<close>, building the runtime, binding a socket to a host name
  or address and a port, the inotify calls, the time, and how an I/O error is printed.\<close>

record platform =
  open_kvm :: "io_error + unit"
  build_runtime :: "io_error + unit"
  bind_socket :: "rstr \<times> u16 \<Rightarrow> io_error + SocketAddr"
  inotify_calls :: inotify
  start_time :: nat
  show_error :: "io_error \<Rightarrow> rstr"

definition warn_if_kvm_unavailable :: "platform \<Rightarrow> rstr list" where
  "warn_if_kvm_unavailable pf =
    (case open_kvm pf of
       Inl error \<Rightarrow> [str ''WARNING: /dev/kvm is not accessible ('' @ show_error pf error @ str ''). ''
         @ str ''Falling back to software virtualization may significantly slow down NBD shares.'']
     | Inr _ \<Rightarrow> [])"

text \<open>\<open>async_main\<close> up to the server's loop, with the lines it prints.\<close>

definition async_main :: "platform \<Rightarrow> Args \<Rightarrow> rstr list \<times> (ExitCode + 'h TFTPServer)" where
  "async_main pf args =
    (case bind_socket pf (listen_ip args, listen_port args) of
       Inl error \<Rightarrow> ([str ''Socket bind error: '' @ show_error pf error], Inl FAILURE)
     | Inr local_addr \<Rightarrow>
        (let server = TFTPServer_new local_addr (args_root_dir args) (args_idle_timeout args) (start_time pf) in
         if monitor_configs args then
           (let monitor_directory = utf8_lossy (args_root_dir args) in
            case observe (inotify_calls pf) (Watch_change Watch_new) monitor_directory of
              Inl error \<Rightarrow>
                ([str ''Failed to start watching directory '' @ monitor_directory @ str '': '' @ show_error pf error], Inl FAILURE)
            | Inr obs \<Rightarrow> ([], Inr (server\<lparr>watch := Some (obs_rx obs)\<rparr>)))
         else ([], Inr server)))"

text \<open>\<open>main\<close>; the program panics when it cannot build its runtime.\<close>

definition rtftp_main :: "platform \<Rightarrow> Args \<Rightarrow> (rstr list \<times> (ExitCode + 'h TFTPServer)) run" where
  "rtftp_main pf args =
    (let warnings = warn_if_kvm_unavailable pf in
     case build_runtime pf of
       Inl _ \<Rightarrow> None
     | Inr _ \<Rightarrow> (case async_main pf args of (printed, r) \<Rightarrow> Some (warnings @ printed, r)))"

text \<open>The exit status of the process: a failure to start, or success once the server is gone.\<close>

definition exit_code :: "ExitCode + 'h TFTPServer \<Rightarrow> ExitCode option" where
  "exit_code r =
    (case r of
       Inl code \<Rightarrow> Some code
     | Inr srv \<Rightarrow> (case activity srv of Gone \<Rightarrow> Some SUCCESS | _ \<Rightarrow> None))"

inductive server_run :: "bool \<Rightarrow> ('h, 'j) env \<Rightarrow> nat \<Rightarrow> 'h TFTPServer \<Rightarrow> bool"
  for dbg :: bool and host :: "('h, 'j) env" and t :: nat where
  srv_started: "rtftp_main pf args = Some (printed, Inr s) \<Longrightarrow> server_run dbg host t s"
| srv_stepped: "server_run dbg host t s \<Longrightarrow> server_step dbg host t s s' \<Longrightarrow> server_run dbg host t s'"

section \<open>The invariant of the server\<close>

text \<open>Every handler is filed under the address it serves and binds the sockets of its sessions to the address on which the
  server listens; every handler, also one that is being
  joined, satisfies its own invariant. A feed has a handler to go to.\<close>

definition server_inv :: "'h TFTPServer \<Rightarrow> bool" where
  "server_inv s \<longleftrightarrow>
    (\<forall>ip h. peer_handlers s ip = Some h \<longrightarrow> handler_inv h \<and> sender_address h = ip
      \<and> local_address h = fst (socket_addr s) \<and> \<not> sender_dropped h)
    \<and> length (srv_buffer s) = BUFFER_SIZE
    \<and> (case activity s of
         Joining h _ \<Rightarrow> handler_inv h \<and> sender_dropped h
       | Feeding ip _ _ \<Rightarrow> peer_handlers s ip \<noteq> None
       | _ \<Rightarrow> True)"

lemma handler_inv_new [simp]: "handler_inv (PeerHandler_new peer local_ip tftp_root idle now)"
  by (simp add: handler_inv_def PeerHandler_new_def split: option.splits)

lemma new_handler_simps [simp]:
  "handler_inv (new_handler srv ip)" "sender_address (new_handler srv ip) = ip"
  "local_address (new_handler srv ip) = fst (socket_addr srv)"
  "\<not> sender_dropped (new_handler srv ip)"
  by (simp_all add: new_handler_def) (simp_all add: PeerHandler_new_def)

lemma handler_inv_shutdown: "handler_inv h \<Longrightarrow> handler_inv (request_shutdown h) \<and> sender_dropped (request_shutdown h)"
  by (simp add: handler_inv_def request_shutdown_def)

lemma feed_inv:
  "feed h port rrq = Some (ok, h') \<Longrightarrow> handler_inv h \<Longrightarrow>
    handler_inv h' \<and> sender_address h' = sender_address h \<and> local_address h' = local_address h
      \<and> sender_dropped h' = sender_dropped h"
  by (auto simp: feed_def handler_inv_def split: if_splits)

lemma serialize_length:
  assumes "TFTPError_serialize e buf = Some (r, buf')"
  shows "length buf' = length buf"
proof (cases "error_size e < length buf")
  case True
  from serialize_success [OF this] assms show ?thesis by auto
next
  case False
  then have "length buf < error_size e"
    using assms serialize_panics [of buf e] by (auto simp: not_less le_less)
  from serialize_too_small [OF this] assms show ?thesis by auto
qed

lemma handle_request_inv:
  assumes "server_inv s" "activity s = Selecting"
  shows "server_inv (handle_request sent n remote s)"
proof (cases "ReadRequest_parse (take n (srv_buffer s))")
  case (Inr rrq)
  with assms show ?thesis
    by (auto simp: handle_request_def server_inv_def Let_def split: option.splits)
next
  case (Inl e)
  with assms show ?thesis
    by (auto simp: handle_request_def server_inv_def split: option.splits sum.splits dest: serialize_length)
qed

lemma server_inv_step:
  assumes "server_step dbg host t s s'" "server_inv s"
  shows "server_inv s'"
  using assms(1)
proof (cases rule: server_step.cases)
  case srv_turn
  with assms(2) show ?thesis by (auto simp: server_inv_def on_turn_def split: option.splits if_splits)
next
  case (srv_event q event q')
  with assms(2) show ?thesis
    by (auto simp: server_inv_def on_event_def Let_def handler_inv_shutdown split: option.splits if_splits)
next
  case (srv_datagram sent d remote)
  have "server_inv (s\<lparr>srv_buffer := recv_into (srv_buffer s) d\<rparr>)"
    using assms(2) srv_datagram(2) by (simp add: server_inv_def)
  with srv_datagram show ?thesis by (simp add: on_datagram_def handle_request_inv)
next
  case (srv_fed ip port rrq)
  then obtain h ok h' where h: "peer_handlers s ip = Some h" "feed h port rrq = Some (ok, h')"
    by (auto simp: after_feed_def split: option.splits)
  with assms(2) feed_inv [OF h(2)] have "handler_inv h'" "sender_address h' = ip" "local_address h' = fst (socket_addr s)" "\<not> sender_dropped h'"
    by (auto simp: server_inv_def)
  with h assms(2) srv_fed handler_inv_shutdown [of h'] show ?thesis
    by (cases ok) (auto simp: server_inv_def after_feed_def split: if_splits)
next
  case (srv_joined h dropping)
  with assms(2) show ?thesis
    by (auto simp: server_inv_def after_join_def split: option.splits if_splits)
next
  case (srv_handler ip h h')
  with assms(2) handler_inv_step [OF srv_handler(3)] show ?thesis
    by (auto simp: server_inv_def split: activity.splits if_splits)
next
  case (srv_leaving h dropping h')
  with assms(2) handler_inv_step [OF srv_leaving(3)] show ?thesis
    by (auto simp: server_inv_def)
qed (use assms(2) in \<open>auto simp: server_inv_def handler_inv_shutdown split: activity.splits\<close>)

text \<open>The server that the program starts is new; it has a watch when configurations are monitored.\<close>

lemma started_server:
  assumes "rtftp_main pf args = Some (printed, Inr s)"
  obtains local_addr w where
    "s = (TFTPServer_new local_addr (args_root_dir args) (args_idle_timeout args) (start_time pf))\<lparr>watch := w\<rparr>"
    "bind_socket pf (listen_ip args, listen_port args) = Inr local_addr" "w \<noteq> None \<longleftrightarrow> monitor_configs args"
  using assms
  by (force simp: rtftp_main_def async_main_def TFTPServer_new_def Let_def split: sum.splits if_splits)

lemma server_inv_run: "server_run dbg host t s \<Longrightarrow> server_inv s"
proof (induction rule: server_run.induct)
  case (srv_started pf args printed s)
  obtain local_addr w where
    "s = (TFTPServer_new local_addr (args_root_dir args) (args_idle_timeout args) (start_time pf))\<lparr>watch := w\<rparr>"
    by (rule started_server [OF srv_started.hyps])
  then show ?case by (simp add: TFTPServer_new_def server_inv_def)
next
  case (srv_stepped s s')
  then show ?case using server_inv_step by blast
qed

section \<open>Requests\<close>

text \<open>A datagram that is not a read request is answered and changes nothing else.\<close>

lemma handle_request_malformed:
  assumes "ReadRequest_parse (take n (srv_buffer s)) = Inl e" "length (srv_buffer s) = BUFFER_SIZE"
  shows "\<exists>buf. handle_request sent n remote s = s\<lparr>srv_buffer := buf,
      replies := replies s @ (if sent then [(remote, butlast (error_packet e) @ [srv_buffer s ! (error_size e - 1)])] else [])\<rparr>
    \<and> length buf = BUFFER_SIZE"
proof -
  have "error_size e < length (srv_buffer s)"
    using ReadRequest_parse_error_size [OF assms(1)] assms(2) by (simp add: BUFFER_SIZE_def)
  from serialize_success [OF this] obtain buf where
    "TFTPError_serialize e (srv_buffer s) = Some (Inr (error_size e), buf)" "length buf = length (srv_buffer s)"
    "take (error_size e) buf = butlast (error_packet e) @ [srv_buffer s ! (error_size e - 1)]" by blast
  with assms show ?thesis by (auto simp: handle_request_def)
qed

text \<open>The file name of a peer's configuration leads back to the peer.\<close>

lemma rsplit_once_append:
  assumes "c \<notin> set ext"
  shows "rsplit_once c (stem @ c # ext) = Some (stem, ext)"
proof -
  have "position (\<lambda>b. b = c) (rev (stem @ c # ext)) = Some (length ext)"
    using position_append [of "rev ext" "\<lambda>b. b = c" c "rev stem"] assms by auto
  then show ?thesis by (simp add: rsplit_once_def)
qed

end
