(* ===== verification/Shared_Disk.thy ===== *)
theory Shared_Disk
  imports Remote_Fs
begin

text \<open>
  The libguestfs handle is shared: the remote root of a peer and every reader opened from it hold the same
  \<open>Rc<GuestFS>\<close> (\<open>src/remote_fs.rs\<close>), and the sessions of the peer read in any order. Here the handle is one cell of an
  explicit store. A call loads it, runs the operation of \<open>Remote_Fs\<close> on it and stores it back, so that the calls of one reader
  are seen by all the others. The store implements a table of open files in which every reader has its own
  position and no call disturbs another reader.
\<close>

section \<open>The store\<close>

text \<open>\<open>sd_root\<close> holds the shared handle; the copy inside a reader is overwritten when the reader is used.\<close>

record 'h shared_disk =
  sd_root :: "'h RemoteRoot"
  sd_readers :: "'h FileReader list"

definition shared_handle :: "'h shared_disk \<Rightarrow> 'h GuestFS" where
  "shared_handle s = cd_handle (rr_disk (sd_root s))"

definition store_handle :: "'h GuestFS \<Rightarrow> 'h RemoteRoot \<Rightarrow> 'h RemoteRoot" where
  "store_handle g root = root\<lparr>rr_disk := (rr_disk root)\<lparr>cd_handle := g\<rparr>\<rparr>"

datatype disk_call = CallOpen rstr | CallRead nat usize

datatype disk_reply = Opened nat | OpenFailed ErrorKind | GotBytes bytes | ReadFailed | NoReader

definition shared_open :: "'h libguestfs \<Rightarrow> rstr \<Rightarrow> 'h shared_disk \<Rightarrow> (disk_reply \<times> 'h shared_disk) run" where
  "shared_open lib path s = do {
     (r, root) \<leftarrow> RemoteRoot_open lib (sd_root s) path;
     case r of
       Inl e \<Rightarrow> Some (OpenFailed (kind e), s\<lparr>sd_root := root\<rparr>)
     | Inr f \<Rightarrow> Some (Opened (length (sd_readers s)), s\<lparr>sd_root := root, sd_readers := sd_readers s @ [f]\<rparr>)
   }"

definition shared_read :: "'h libguestfs \<Rightarrow> nat \<Rightarrow> usize \<Rightarrow> 'h shared_disk \<Rightarrow> (disk_reply \<times> 'h shared_disk) run" where
  "shared_read lib i n s =
    (if length (sd_readers s) \<le> i then Some (NoReader, s)
     else do {
       (r, f, buf) \<leftarrow> FileReader_read_to lib ((sd_readers s ! i)\<lparr>fr_handle := shared_handle s\<rparr>) (replicate n 0);
       Some (case r of Inl _ \<Rightarrow> ReadFailed | Inr k \<Rightarrow> GotBytes (take k buf),
         s\<lparr>sd_root := store_handle (fr_handle f) (sd_root s), sd_readers := (sd_readers s)[i := f]\<rparr>)
     })"

fun shared_call :: "'h libguestfs \<Rightarrow> disk_call \<Rightarrow> 'h shared_disk \<Rightarrow> (disk_reply \<times> 'h shared_disk) run" where
  "shared_call lib (CallOpen path) s = shared_open lib path s"
| "shared_call lib (CallRead i n) s = shared_read lib i n s"

fun shared_calls :: "'h libguestfs \<Rightarrow> disk_call list \<Rightarrow> 'h shared_disk \<Rightarrow> (disk_reply list \<times> 'h shared_disk) run" where
  "shared_calls lib [] s = Some ([], s)"
| "shared_calls lib (c # cs) s = do {
     (r, s) \<leftarrow> shared_call lib c s;
     (rs, s) \<leftarrow> shared_calls lib cs s;
     Some (r # rs, s)
   }"

section \<open>The table of open files\<close>

text \<open>What every open file has still to deliver. A call touches no entry but its own.\<close>

fun table_call :: "(rstr \<rightharpoonup> bytes) \<Rightarrow> rstr \<Rightarrow> disk_call \<Rightarrow> bytes list \<Rightarrow> disk_reply \<times> bytes list" where
  "table_call files chroot (CallOpen path) tab =
    (case files (path_join chroot path) of
       None \<Rightarrow> (OpenFailed NotFound, tab)
     | Some data \<Rightarrow> (Opened (length tab), tab @ [data]))"
| "table_call files chroot (CallRead i n) tab =
    (if length tab \<le> i then (NoReader, tab) else (GotBytes (take n (tab ! i)), tab[i := drop n (tab ! i)]))"

fun table_calls :: "(rstr \<rightharpoonup> bytes) \<Rightarrow> rstr \<Rightarrow> disk_call list \<Rightarrow> bytes list \<Rightarrow> disk_reply list" where
  "table_calls files chroot [] tab = []"
| "table_calls files chroot (c # cs) tab =
    (case table_call files chroot c tab of (r, tab) \<Rightarrow> r # table_calls files chroot cs tab)"

text \<open>The bytes that the calls of one reader returned.\<close>

fun bytes_of_reader :: "nat \<Rightarrow> disk_call list \<Rightarrow> disk_reply list \<Rightarrow> bytes" where
  "bytes_of_reader i (CallRead j n # cs) (GotBytes b # rs) = (if i = j then b else []) @ bytes_of_reader i cs rs"
| "bytes_of_reader i (c # cs) (r # rs) = bytes_of_reader i cs rs"
| "bytes_of_reader i cs rs = []"

text \<open>The bytes that one reader asked for.\<close>

fun asked_of_reader :: "nat \<Rightarrow> disk_call list \<Rightarrow> nat" where
  "asked_of_reader i [] = 0"
| "asked_of_reader i (CallRead j n # cs) = (if i = j then n else 0) + asked_of_reader i cs"
| "asked_of_reader i (CallOpen path # cs) = asked_of_reader i cs"

lemma table_reader_gets_its_bytes:
  assumes "i < length tab"
  shows "bytes_of_reader i cs (table_calls files chroot cs tab) = take (asked_of_reader i cs) (tab ! i)"
  using assms
proof (induction cs arbitrary: tab)
  case (Cons c cs)
  show ?case
  proof (cases c)
    case (CallOpen path)
    with Cons show ?thesis by (cases "files (path_join chroot path)") (simp_all add: nth_append)
  next
    case (CallRead j n)
    with Cons show ?thesis by (cases "j < length tab"; cases "i = j") (simp_all add: take_add)
  qed
qed simp

text \<open>A file opened after some calls gets an entry of its own, and the later calls of its reader return its bytes.\<close>

definition table_after :: "(rstr \<rightharpoonup> bytes) \<Rightarrow> rstr \<Rightarrow> disk_call list \<Rightarrow> bytes list \<Rightarrow> bytes list" where
  "table_after files chroot cs tab = fold (\<lambda>c tab. snd (table_call files chroot c tab)) cs tab"

lemma table_calls_append:
  "table_calls files chroot (cs @ ds) tab
    = table_calls files chroot cs tab @ table_calls files chroot ds (table_after files chroot cs tab)"
  by (induction cs arbitrary: tab) (simp_all add: table_after_def split: prod.split)

lemma length_table_calls: "length (table_calls files chroot cs tab) = length cs"
  by (induction cs arbitrary: tab) (simp_all split: prod.split)

lemma table_opened_reader:
  assumes "files (path_join chroot path) = Some data" "i = length (table_after files chroot cs tab)"
    and "replies = table_calls files chroot (cs @ CallOpen path # ds) tab"
  shows "replies ! length cs = Opened i
    \<and> bytes_of_reader i ds (drop (Suc (length cs)) replies) = take (asked_of_reader i ds) data"
  using assms table_reader_gets_its_bytes [of i "table_after files chroot cs tab @ [data]" ds files chroot]
  by (simp add: table_calls_append length_table_calls nth_append)

section \<open>A disk that does not change\<close>

text \<open>libguestfs as documented on a disk that is mounted read-only: \<open>files\<close> is what the disk holds. A call reports the
  size of a file or some of its bytes, or that there is no such file, and the handle goes on serving the same files.\<close>

coinductive stable :: "'h libguestfs \<Rightarrow> (rstr \<rightharpoonup> bytes) \<Rightarrow> 'h \<Rightarrow> bool"
  for lib :: "'h libguestfs" and files :: "rstr \<rightharpoonup> bytes" where
  "(\<And>path data. files path = Some data \<Longrightarrow> \<exists>info msgs h'.
      guestfs_stat_of lib path h = (Some info, msgs, h') \<and> unat (st_size info) = length data \<and> stable lib files h') \<Longrightarrow>
   (\<And>path data ofs. files path = Some data \<Longrightarrow> ofs = 0 \<or> ofs < length data \<Longrightarrow> \<exists>n msgs h'.
      guestfs_pread lib path CHUNK_SIZE (of_nat ofs) h = (Some (take (Suc n) (drop ofs data)), msgs, h') \<and> stable lib files h') \<Longrightarrow>
   (\<And>path. files path = None \<Longrightarrow> \<exists>msgs h' m.
      guestfs_stat_of lib path h = (None, msgs, h') \<and> guestfs_last_error lib h' = Some m \<and> utf8_valid m
      \<and> contains m (str ''No such file or directory'') \<and> stable lib files h') \<Longrightarrow>
   stable lib files h"

lemma stable_stat:
  assumes "stable lib files h" "files path = Some data"
  shows "\<exists>info msgs h'. guestfs_stat_of lib path h = (Some info, msgs, h') \<and> unat (st_size info) = length data \<and> stable lib files h'"
  using assms(1) by (cases rule: stable.cases) (use assms(2) in blast)

lemma stable_pread:
  assumes "stable lib files h" "files path = Some data" "ofs = 0 \<or> ofs < length data"
  shows "\<exists>n msgs h'. guestfs_pread lib path CHUNK_SIZE (of_nat ofs) h = (Some (take (Suc n) (drop ofs data)), msgs, h')
    \<and> stable lib files h'"
  using assms(1) by (cases rule: stable.cases) (use assms(2,3) in blast)

lemma stable_missing:
  assumes "stable lib files h" "files path = None"
  shows "\<exists>msgs h' m. guestfs_stat_of lib path h = (None, msgs, h') \<and> guestfs_last_error lib h' = Some m \<and> utf8_valid m
    \<and> contains m (str ''No such file or directory'') \<and> stable lib files h'"
  using assms(1) by (cases rule: stable.cases) (use assms(2) in blast)

lemma stable_serves:
  assumes "stable lib files h" "files path = Some data"
  shows "serves lib path data h"
  using assms(1)
proof (coinduction arbitrary: h rule: serves.coinduct)
  case serves
  have "\<exists>n msgs h'. guestfs_pread lib path CHUNK_SIZE (of_nat ofs) h = (Some (take (Suc n) (drop ofs data)), msgs, h')
      \<and> (stable lib files h' \<or> serves lib path data h')" if "ofs < length data" for ofs
    using stable_pread [OF serves assms(2), of ofs] that by blast
  then show ?case by simp
qed

section \<open>What a read leaves of the handle\<close>

text \<open>A property of the handle that reading the file keeps is kept by \<open>read_to\<close>.\<close>

definition kept_by_reads :: "'h libguestfs \<Rightarrow> rstr \<Rightarrow> usize \<Rightarrow> ('h GuestFS \<Rightarrow> bool) \<Rightarrow> bool" where
  "kept_by_reads lib path fsz P \<longleftrightarrow>
    (\<forall>g ofs r g'. P g \<longrightarrow> ofs < fsz \<longrightarrow> read_chunk lib g path ofs = Some (r, g') \<longrightarrow> P g')"

lemma buffer_new_chunk_keeps:
  assumes "kept_by_reads lib path fsz P"
    and "P (fr_handle f)" "fr_path f = path" "current_offset f < fsz" "buffer_new_chunk lib f = Some (r, f')"
  shows "P (fr_handle f') \<and> fr_path f' = path \<and> file_size f' = file_size f"
proof -
  obtain r1 g where read: "read_chunk lib (fr_handle f) path (current_offset f) = Some (r1, g)"
    using assms(3,5) by (auto simp: buffer_new_chunk_def split: bind_splits)
  with assms(1,2,4) have "P g" unfolding kept_by_reads_def by blast
  with read assms(3,5) show ?thesis
    by (auto simp: buffer_new_chunk_def Let_def split: sum.splits if_splits)
qed

lemma read_loop_keeps:
  assumes "kept_by_reads lib path fsz P"
    and "P (fr_handle f)" "fr_path f = path" "file_size f = fsz" "read_loop lib f n buf = Some (r, f', buf')"
  shows "P (fr_handle f') \<and> fr_path f' = path"
  using assms
proof (induction lib f n buf rule: read_loop.induct)
  case (1 lib f n buf)
  show ?case
  proof (cases "current_offset f < file_size f \<and> n < length buf")
    case False
    with "1.prems" show ?thesis by (auto simp: read_loop.simps [of lib f n buf])
  next
    case True
    with "1.prems" obtain k c filled where fill: "FileChunk_fill (fr_chunk f) (drop n buf) = Some (k, c, filled)"
      by (auto simp: read_loop.simps [of lib f n buf] split: option.splits)
    have new: "P (fr_handle f2) \<and> fr_path f2 = path \<and> file_size f2 = fsz"
      if "buffer_new_chunk lib (f\<lparr>fr_chunk := c\<rparr>) = Some (r2, f2)" for r2 f2
      using buffer_new_chunk_keeps [OF "1.prems"(1) _ _ _ that] "1.prems"(2-4) True by simp
    show ?thesis
      using "1.prems" True fill new "1.IH" [OF True fill refl refl refl refl]
      by (auto simp: read_loop.simps [of lib f n buf] Let_def split: if_splits option.splits sum.splits)
  qed
qed

lemma read_chunk_stable:
  assumes "stable lib files (gfs_handle g)" "files path = Some data" "ofs < length data" "read_chunk lib g path ofs = Some (r, g')"
  shows "stable lib files (gfs_handle g')"
proof -
  obtain n msgs h' where "guestfs_pread lib path CHUNK_SIZE (of_nat ofs) (gfs_handle g) = (Some (take (Suc n) (drop ofs data)), msgs, h')"
    "stable lib files h'" using stable_pread [OF assms(1,2)] assms(3) by blast
  with assms(4) show ?thesis
    by (auto simp: read_chunk_def CString_def foreign_call_def split: if_splits)
qed

lemma read_to_stable:
  assumes "stable lib files (gfs_handle (fr_handle f))" "files (fr_path f) = Some data" "file_size f = length data"
    and "FileReader_read_to lib f buf = Some (r, f', buf')"
  shows "stable lib files (gfs_handle (fr_handle f')) \<and> fr_path f' = fr_path f"
proof -
  have "kept_by_reads lib (fr_path f) (length data) (\<lambda>g. stable lib files (gfs_handle g))"
    using read_chunk_stable [where path = "fr_path f" and data = data and files = files] assms(2) unfolding kept_by_reads_def by blast
  from read_loop_keeps [OF this _ refl assms(3) assms(4) [unfolded FileReader_read_to_def]] assms(1) show ?thesis by simp
qed

section \<open>The store implements the table\<close>

text \<open>A reader that stands before \<open>rest\<close>, whatever copy of the handle it carries.\<close>

definition reader_at :: "(rstr \<rightharpoonup> bytes) \<Rightarrow> bytes \<Rightarrow> 'h FileReader \<Rightarrow> bool" where
  "reader_at files rest f \<longleftrightarrow>
    (\<exists>data. files (fr_path f) = Some data \<and> 0 \<notin> set (fr_path f) \<and> file_size f = length data
      \<and> chunk_offset (fr_chunk f) \<le> length (chunk_buffer (fr_chunk f))
      \<and> prefix (drop (chunk_offset (fr_chunk f)) (chunk_buffer (fr_chunk f))) rest \<and> remote_rest data f = rest)"

definition shared_inv :: "'h libguestfs \<Rightarrow> (rstr \<rightharpoonup> bytes) \<Rightarrow> bytes list \<Rightarrow> 'h shared_disk \<Rightarrow> bool" where
  "shared_inv lib files tab s \<longleftrightarrow>
    stable lib files (gfs_handle (shared_handle s)) \<and> list_all2 (reader_at files) tab (sd_readers s)"

text \<open>With the shared handle loaded a reader satisfies the contract of an opened file.\<close>

lemma reader_at_loaded:
  assumes "reader_at files rest f" "stable lib files (gfs_handle g)"
  shows "\<exists>data. files (fr_path f) = Some data \<and> remote_healthy lib data (f\<lparr>fr_handle := g\<rparr>)
    \<and> remote_rest data (f\<lparr>fr_handle := g\<rparr>) = rest"
  using assms stable_serves [OF assms(2)] by (auto simp: reader_at_def remote_healthy_def remote_rest_def)

lemma reader_at_stored:
  assumes "files (fr_path f) = Some data" "remote_healthy lib data f" "remote_rest data f = rest"
  shows "reader_at files rest f"
  using assms by (auto simp: reader_at_def remote_healthy_def)

text \<open>One read on any stable handle.\<close>

lemma read_on_stable:
  assumes "files (fr_path f) = Some data" "reader_at files (remote_rest data f) f" "stable lib files (gfs_handle (fr_handle f))"
    and "n = min (length buf) (length (remote_rest data f))"
  shows "\<exists>f'. FileReader_read_to lib f buf = Some (Inr n, f', take n (remote_rest data f) @ drop n buf)
    \<and> files (fr_path f') = Some data \<and> reader_at files (remote_rest data f') f' \<and> stable lib files (gfs_handle (fr_handle f'))
    \<and> remote_rest data f' = drop n (remote_rest data f)"
proof -
  from reader_at_loaded [OF assms(2,3)] assms(1) have h: "remote_healthy lib data f" by auto
  then have sz: "file_size f = length data" by (simp add: remote_healthy_def)
  obtain f' where read: "FileReader_read_to lib f buf = Some (Inr n, f', take n (remote_rest data f) @ drop n buf)"
    "remote_healthy lib data f'" "remote_rest data f' = drop n (remote_rest data f)"
    using remote_file.read_to_delivers [OF h assms(4)] by blast
  have "stable lib files (gfs_handle (fr_handle f')) \<and> fr_path f' = fr_path f"
    using read_to_stable [OF assms(3,1) sz read(1)] .
  with read reader_at_stored [OF _ read(2) refl] assms(1) show ?thesis by auto
qed

lemma shared_open_refines:
  assumes "shared_inv lib files tab s" "0 \<notin> set (path_join (chroot_path (sd_root s)) path)"
    and "table_call files (chroot_path (sd_root s)) (CallOpen path) tab = (reply, tab')"
  shows "\<exists>s'. shared_open lib path s = Some (reply, s') \<and> shared_inv lib files tab' s' \<and> chroot_path (sd_root s') = chroot_path (sd_root s)"
proof -
  let ?p = "path_join (chroot_path (sd_root s)) path" and ?d = "rr_disk (sd_root s)"
  from assms(1) have st: "stable lib files (gfs_handle (cd_handle ?d))" and tab: "list_all2 (reader_at files) tab (sd_readers s)"
    by (simp_all add: shared_inv_def shared_handle_def)
  show ?thesis
  proof (cases "files ?p")
    case None
    from stable_missing [OF st None] obtain msgs h' m where
      "guestfs_stat_of lib ?p (gfs_handle (cd_handle ?d)) = (None, msgs, h')" "guestfs_last_error lib h' = Some m" "utf8_valid m"
      "contains m (str ''No such file or directory'')" "stable lib files h'" by blast
    with None assms tab not_found_displayed [of m] show ?thesis
      by (auto simp: shared_open_def RemoteRoot_open_def ConnectedDisk_open_def GuestFS_get_size_def CString_def foreign_call_def
          get_last_error_def Let_def shared_inv_def shared_handle_def io_kind_def)
  next
    case (Some data)
    obtain info msgs h1 where stat: "guestfs_stat_of lib ?p (gfs_handle (cd_handle ?d)) = (Some info, msgs, h1)"
      "unat (st_size info) = length data" "stable lib files h1" using stable_stat [OF st Some] by blast
    obtain n msgs2 h2 where pread: "guestfs_pread lib ?p CHUNK_SIZE 0 h1 = (Some (take (Suc n) data), msgs2, h2)" "stable lib files h2"
      using stable_pread [OF stat(3) Some, of 0] by auto
    from Some assms(3) have out: "reply = Opened (length tab)" "tab' = tab @ [data]" by simp_all
    from Some stat pread assms(2) tab out show ?thesis
      by (auto simp: shared_open_def RemoteRoot_open_def ConnectedDisk_open_def GuestFS_get_size_def CString_def foreign_call_def
          FileReader_open_def and_then_def read_chunk_def FileChunk_new_def Let_def shared_inv_def shared_handle_def reader_at_def
          remote_rest_def take_is_prefix list_all2_lengthD intro: list_all2_appendI)
  qed
qed

lemma shared_read_refines:
  assumes "shared_inv lib files tab s" "table_call files chroot (CallRead i n) tab = (reply, tab')"
  shows "\<exists>s'. shared_read lib i n s = Some (reply, s') \<and> shared_inv lib files tab' s' \<and> chroot_path (sd_root s') = chroot_path (sd_root s)"
proof (cases "i < length tab")
  case False
  with assms show ?thesis by (auto simp: shared_read_def shared_inv_def dest: list_all2_lengthD)
next
  case True
  define f where "f = (sd_readers s ! i)\<lparr>fr_handle := shared_handle s\<rparr>"
  from assms(1) have tab: "list_all2 (reader_at files) tab (sd_readers s)" and len: "length (sd_readers s) = length tab"
    and st: "stable lib files (gfs_handle (fr_handle f))"
    by (auto simp: shared_inv_def f_def dest: list_all2_lengthD)
  have "reader_at files (tab ! i) f"
    using list_all2_nthD [OF tab True] by (simp add: f_def reader_at_def remote_rest_def)
  then obtain data where data: "files (fr_path f) = Some data" "reader_at files (remote_rest data f) f" "remote_rest data f = tab ! i"
    by (auto simp: reader_at_def)
  let ?k = "min (length (replicate n (0 :: byte))) (length (remote_rest data f))"
  obtain f' where read: "FileReader_read_to lib f (replicate n 0) = Some (Inr ?k, f', take ?k (tab ! i) @ drop ?k (replicate n 0))"
    and f': "reader_at files (drop ?k (tab ! i)) f'" "stable lib files (gfs_handle (fr_handle f'))"
    using read_on_stable [OF data(1,2) st refl, of "replicate n 0"] unfolding data(3) by metis
  moreover have "take ?k (tab ! i) = take n (tab ! i)" "drop ?k (tab ! i) = drop n (tab ! i)"
    using data(3) by (simp_all add: min_def)
  moreover have "reply = GotBytes (take n (tab ! i))" "tab' = tab[i := drop n (tab ! i)]" using assms(2) True by simp_all
  moreover define s' where "s' = s\<lparr>sd_root := store_handle (fr_handle f') (sd_root s), sd_readers := (sd_readers s)[i := f']\<rparr>"
  ultimately have "shared_read lib i n s = Some (reply, s')"
    using True len data(3) by (simp add: shared_read_def f_def [symmetric])
  moreover have "shared_inv lib files tab' s'"
    using f' tab s'_def \<open>tab' = _\<close> \<open>drop ?k _ = _\<close>
    by (simp add: shared_inv_def shared_handle_def store_handle_def list_all2_update_cong)
  ultimately show ?thesis using s'_def by (simp add: store_handle_def)
qed

fun call_path_ok :: "rstr \<Rightarrow> disk_call \<Rightarrow> bool" where
  "call_path_ok chroot (CallOpen path) \<longleftrightarrow> 0 \<notin> set (path_join chroot path)"
| "call_path_ok chroot (CallRead i n) \<longleftrightarrow> True"

lemma shared_call_refines:
  assumes "shared_inv lib files tab s" "call_path_ok (chroot_path (sd_root s)) c"
    and "table_call files (chroot_path (sd_root s)) c tab = (reply, tab')"
  shows "\<exists>s'. shared_call lib c s = Some (reply, s') \<and> shared_inv lib files tab' s' \<and> chroot_path (sd_root s') = chroot_path (sd_root s)"
proof (cases c)
  case (CallOpen path)
  show ?thesis
    using shared_open_refines [OF assms(1) _ assms(3) [unfolded CallOpen]] assms(2) unfolding CallOpen by simp
next
  case (CallRead i n)
  show ?thesis
    using shared_read_refines [OF assms(1,3) [unfolded CallRead]] unfolding CallRead by simp
qed

lemma shared_calls_refine:
  assumes "shared_inv lib files tab s" "list_all (call_path_ok (chroot_path (sd_root s))) calls"
  shows "\<exists>s'. shared_calls lib calls s = Some (table_calls files (chroot_path (sd_root s)) calls tab, s')"
  using assms
proof (induction calls arbitrary: s tab)
  case (Cons c calls)
  obtain reply tab' where t: "table_call files (chroot_path (sd_root s)) c tab = (reply, tab')" by fastforce
  obtain s' where s': "shared_call lib c s = Some (reply, s')" "shared_inv lib files tab' s'"
    "chroot_path (sd_root s') = chroot_path (sd_root s)"
    using shared_call_refines [OF Cons.prems(1) _ t] Cons.prems(2) by auto
  with Cons.IH [OF s'(2)] Cons.prems(2) obtain s'' where
    "shared_calls lib calls s' = Some (table_calls files (chroot_path (sd_root s)) calls tab', s'')" by auto
  with t s' show ?case by simp
qed simp

end
