(* ===== verification/Example_Setting.thy ===== *)
theory Example_Setting
  imports Server Shared_Disk
begin

text \<open>
  Small concrete surroundings on which the examples beside the properties evaluate the model: a library that serves one file from memory, a host
  with one configuration file, a handler and a session of it.
\<close>

section \<open>Example surroundings\<close>

text \<open>A library with one file in memory, for the examples: every read returns at most four bytes.\<close>

definition memory_disk :: "bytes \<Rightarrow> unit libguestfs" where
  "memory_disk data =
    \<lparr>guestfs_create = (), guestfs_close = (\<lambda>_. ()), guestfs_last_error = (\<lambda>_. None),
     guestfs_add_drive_opts = (\<lambda>_ _ h. (0, [], h)), guestfs_config = (\<lambda>_ _ h. (0, [], h)),
     guestfs_launch = (\<lambda>h. (0, [], h)), guestfs_list_partitions = (\<lambda>h. (Some [str ''/dev/sda1''], [], h)),
     guestfs_mount_ro = (\<lambda>_ _ h. (0, [], h)), guestfs_set_append = (\<lambda>_ h. (0, [], h)),
     guestfs_stat_of = (\<lambda>_ h. (Some \<lparr>st_size = of_nat (length data)\<rparr>, [], h)),
     guestfs_set_pgroup = (\<lambda>_ h. (0, [], h)),
     guestfs_pread = (\<lambda>_ _ ofs h. (Some (take 4 (drop (unat ofs) data)), [], h)),
     guestfs_set_event_callback = (\<lambda>_ h. (0, [], h)), guestfs_set_error_handler = (\<lambda>h. h),
     handle_pointer = (\<lambda>_. str ''0x0'')\<rparr>"

text \<open>A library with several files in memory.\<close>

definition memory_files :: "(rstr \<rightharpoonup> bytes) \<Rightarrow> unit libguestfs" where
  "memory_files files = (memory_disk [])\<lparr>
     guestfs_last_error := (\<lambda>_. Some (str ''No such file or directory'')),
     guestfs_stat_of := (\<lambda>path h. (map_option (\<lambda>data. \<lparr>st_size = of_nat (length data)\<rparr>) (files path), [], h)),
     guestfs_pread := (\<lambda>path _ ofs h. (map_option (\<lambda>data. take 4 (drop (unat ofs) data)) (files path), [], h))\<rparr>"

text \<open>A host whose only configuration file is \<open>10.0.0.1.nbd\<close> and whose file system is \<open>files\<close>, for the
  examples, and a peer's handler on it.\<close>

definition memory_host :: "(rstr \<Rightarrow> io_error + File) \<Rightarrow> (unit, unit) env" where
  "memory_host files =
    \<lparr>os_read_dir = (\<lambda>_. Inr [Inl (io_kind NotFound), Inr (str ''/srv/10.0.0.1.nbd'', True), Inr (str ''/srv/10.0.0.1'', False)]),
     os_read = (\<lambda>_. Inr []), json_from_str = (\<lambda>_. Inr ()),
     json_from_value = (\<lambda>_. Inr \<lparr>nbd_url = str ''nbd://h/e'', mounts = [\<lparr>mount_partition = 1, mountpoint = str ''/''\<rparr>],
       nbd_tftp_root = str ''/boot''\<rparr>),
     os_open = files, guestfs_lib = memory_disk [1, 2, 3], hash_capacity = (\<lambda>n. n), hash_grown = (\<lambda>n. 2 * n + 1)\<rparr>"

abbreviation empty_host :: "(unit, unit) env" where
  "empty_host \<equiv> memory_host (\<lambda>_. Inl (io_kind NotFound))"

definition sample_handler :: "phase \<Rightarrow> (u16 \<times> unit session) list \<Rightarrow> unit PeerHandler" where
  "sample_handler ph ss =
    \<lparr>sender_address = V4 10 0 0 1, local_address = V4 10 0 0 2, thread_root = str ''/srv'', available_roots = [LocalKind (LocalRoot_new (str ''/srv/default''))], closed_disks = [],
     channel = [(7, \<lparr>filename = str ''k'', options = Map.empty\<rparr>)], sender_dropped = False, send_sessions = ss,
     sessions_capacity = 0, idle_timeout = 5000, last_active = 0, clock = 0, phase = ph\<rparr>"

definition sample_session :: "bool \<Rightarrow> unit session" where
  "sample_session fin =
    \<lparr>s_task = FireError file_not_found, s_stream = DatagramStream_new [] [] (V4 10 0 0 1, 7), s_buffer = [], s_finished = fin\<rparr>"

definition sample_run :: "unit PeerHandler" where
  "sample_run = start_thread False empty_host ((PeerHandler_new (V4 10 0 0 1) (V4 10 0 0 2) (str ''/srv'') 5000 0)\<lparr>clock := 20\<rparr>)"

text \<open>The same host without any configuration file.\<close>

definition bare_host :: "(rstr \<Rightarrow> io_error + File) \<Rightarrow> (unit, unit) env" where
  "bare_host files = (memory_host files)\<lparr>os_read_dir := (\<lambda>_. Inr [])\<rparr>"

text \<open>An open file of the host, and a reader of the disk in memory that has just been opened.\<close>

definition sample_file :: "bytes \<Rightarrow> (io_error + usize) list \<Rightarrow> LocalOpenedFile" where
  "sample_file data plan = \<lparr>rd = \<lparr>contents = data, pos = 0, read_plan = plan, seek_error = None\<rparr>, lf_display = []\<rparr>"

definition sample_reader :: "bytes \<Rightarrow> unit FileReader" where
  "sample_reader data = \<lparr>fr_handle = \<lparr>gfs_handle = (), events = []\<rparr>, fr_path = str ''/boot/k'', file_size = length data,
     current_offset = 0, fr_chunk = FileChunk_new (take 4 data), fr_display = []\<rparr>"

lemma memory_disk_serves:
  assumes "length data < 2 ^ 64"
  shows "serves (memory_disk data) path data ()"
proof (coinduction rule: serves.coinduct)
  case serves
  have "unat (of_nat ofs :: 64 word) = ofs" if "ofs < length data" for ofs
    using that assms by (simp only: unat_of_nat take_bit_eq_mod) simp
  then show ?case by (auto simp: memory_disk_def intro!: exI [where x = 3])
qed

lemma unat_of_nat_64: "n < 2 ^ 64 \<Longrightarrow> unat (of_nat n :: 64 word) = n"
  by (simp only: unat_of_nat take_bit_eq_mod) simp

lemma memory_files_stable:
  assumes "\<forall>data \<in> ran files. length data < 2 ^ 64"
  shows "stable (memory_files files) files ()"
proof (coinduction rule: stable.coinduct)
  case stable
  have "utf8_valid (str ''No such file or directory'')" "contains (str ''No such file or directory'') (str ''No such file or directory'')"
    by code_simp+
  moreover have "unat (of_nat ofs :: 64 word) = ofs" if "files path = Some data" "ofs = 0 \<or> ofs \<le> length data" for path data ofs
    using assms that by (intro unat_of_nat_64) (fastforce simp: ran_def)
  ultimately show ?case
    by (auto simp: memory_files_def intro!: exI [where x = 3])
qed

lemma memory_host_roots: "initial_roots dbg (memory_host files) (str ''/srv'') (V4 10 0 0 1) = Some
    [LocalKind (LocalRoot_new (str ''/srv/10.0.0.1'')),
     RemoteKind (RemoteRoot_new (ConnectedDisk_new \<lparr>gfs_handle = (), events = []\<rparr> (str ''nbd://h/e'')) (str ''/boot'')),
     LocalKind (LocalRoot_new (str ''/srv/default''))]"
  by code_simp

lemma bare_host_roots:
  "initial_roots dbg (bare_host files) tftp_root ip = Some
    [LocalKind (LocalRoot_new (path_join tftp_root (IpAddr_to_string ip))), LocalKind (LocalRoot_new (path_join tftp_root (str ''default'')))]"
  by (simp add: initial_roots_def open_nbd_root_def files_sorted_def bare_host_def memory_host_def List.map_filter_simps)

lemma sample_reader_healthy:
  "length data < 2 ^ 64 \<Longrightarrow> remote_healthy (memory_disk data) data (sample_reader data)"
  "remote_fresh (sample_reader data)"
  using memory_disk_serves [of data "str ''/boot/k''"]
  by (simp_all add: sample_reader_def remote_healthy_def FileChunk_new_def remote_rest_def str_def remote_fresh_def take_is_prefix)

text \<open>What is negotiated for a request without options, and for one that asks for blocks of eight bytes.\<close>

lemma no_options:
  "negotiated_oack get_size f Map.empty = (\<lparr>oack_options = []\<rparr>, \<lparr>timeout = 5\<rparr>, \<lparr>block_size = 512\<rparr>, WindowSize 1, f)"
  by (simp add: negotiated_oack_eq option_list_def or_default_def obtained_tsize_def TSize_is_requested_def
      AckTimeout_find_in_def Blksize_find_in_def WindowSize_find_in_def AckTimeout_default_def
      Blksize_default_def WindowSize_default_def)

lemma blksize_only:
  "negotiated_oack get_size f (map_of [(BLKSIZE, str ''8'')])
    = (\<lparr>oack_options = [(BLKSIZE, str ''8'')]\<rparr>, \<lparr>timeout = 5\<rparr>, \<lparr>block_size = 8\<rparr>, WindowSize 1, f)"
  by (simp add: negotiated_oack_eq option_list_def or_default_def obtained_tsize_def TSize_is_requested_def
      AckTimeout_find_in_def Blksize_find_in_def WindowSize_find_in_def parse_usize_def str_def is_digit_def
      usize_modulus_def BLKSIZE_def TIMEOUT_def WINDOW_SIZE_def TSIZE_def AckTimeout_default_def
      WindowSize_default_def Blksize_as_key_pair_def BLOCK_SIZE_BOTTOM_CAP_def BLOCK_SIZE_UPPER_CAP_def
      usize_to_string.simps digit_byte_def)

text \<open>A server that has just started, a request for the file \<open>k\<close> with blocks of eight bytes, and a peer that acknowledges at once.\<close>

lemma new_server:
  "activity (TFTPServer_new local_addr root idle now) = Selecting"
  "length (srv_buffer (TFTPServer_new local_addr root idle now)) = BUFFER_SIZE"
  "peer_handlers (TFTPServer_new local_addr root idle now) ip = None"
  "root_dir (TFTPServer_new local_addr root idle now) = root" "replies (TFTPServer_new local_addr root idle now) = []"
  "peer_handlers (TFTPServer_new local_addr root idle now) = Map.empty"
  by (simp_all add: TFTPServer_new_def)

text \<open>The program started without a watch where every address can be bound.\<close>

definition sample_platform :: platform where
  "sample_platform =
    \<lparr>open_kvm = Inl (io_kind NotFound), build_runtime = Inr (), bind_socket = (\<lambda>(_, port). Inr (V4 10 0 0 2, port)),
     inotify_calls = \<lparr>inotify_init1 = 3, inotify_add_watch = (\<lambda>_ _ _. 1), inotify_rm_watch = (\<lambda>_ _. 0), async_fd = (\<lambda>_. Inr ()),
       last_os_error = io_kind NotFound\<rparr>, start_time = 0, show_error = detail\<rparr>"

definition sample_args :: Args where
  "sample_args = \<lparr>listen_ip = str ''10.0.0.2'', listen_port = 69, args_root_dir = str ''/srv'', monitor_configs = False,
     args_idle_timeout = 1\<rparr>"

lemma sample_started: "server_run dbg host t (TFTPServer_new (V4 10 0 0 2, 69) (str ''/srv'') 1 0)"
  by (rule srv_started [of sample_platform sample_args])
    (simp add: rtftp_main_def async_main_def sample_platform_def sample_args_def)

lemma sample_request:
  "wf_str (str ''k'')" "wf_options [(BLKSIZE, str ''8'')]" "length (rrq_packet (str ''k'') [(BLKSIZE, str ''8'')]) \<le> BUFFER_SIZE"
  by (simp_all add: wf_str_def wf_options_def rrq_packet_def BLKSIZE_def OCTET_def BUFFER_SIZE_def str_def)

lemma sample_network:
  "1 = block_count [1 :: byte, 2, 3] (Blksize_get_size \<lparr>block_size = 8\<rparr>)" "WindowSize_get_size (WindowSize 1) = 1 \<or> (1 :: nat) < 65536"
  "if has_options \<lparr>oack_options = [(BLKSIZE, str ''8'')]\<rparr> then answers (V4 10 0 0 1, 2000) 65535 0 0 [Arrives (V4 10 0 0 1, 2000) (ack_packet 0)]
    else [Arrives (V4 10 0 0 1, 2000) (ack_packet 0)] = []"
  "delivers (V4 10 0 0 1, 2000) 65535 (WindowSize_get_size (WindowSize 1)) 1 0 [(0, [Arrives (V4 10 0 0 1, 2000) (ack_packet 1)])]"
  "has_options \<lparr>oack_options = [(BLKSIZE, str ''8'')]\<rparr>"
  by (simp_all add: block_count_def Blksize_get_size_def WindowSize_get_size_def has_options_def SEND_ATTEMPTS_def)

end
