(* ===== verification/Peer_Refinement.thy ===== *)
theory Peer_Refinement
  imports Peer_Session
begin

text \<open>
  The contract of a file transfer as an abstract sender, and that \<open>send_file\<close> of \<open>src/peer_handler/mod.rs\<close> implements it.
  The abstract sender knows the file as its bytes, cuts the blocks out of them and counts them by natural numbers; it has no
  ring of buffers, no position in a file and no wrap-around. It shares the socket and the reading of acknowledgements with the source.
  The refinement holds for every behaviour of the peer and of the network, for files of fewer than 65536 blocks; that an in-order receiver
  gets the file through a lossy network is then proved for the abstract sender.
\<close>

section \<open>The abstract sender\<close>

text \<open>The datagrams of a window, in order, up to the first one that cannot be sent.\<close>

fun transmit :: "DatagramStream \<Rightarrow> bytes list \<Rightarrow> (io_error + unit) \<times> DatagramStream" where
  "transmit st [] = (Inr (), st)"
| "transmit st (p # ps) =
    (case stream_send st p of
       (Inl e, st) \<Rightarrow> (Inl e, st)
     | (Inr _, st) \<Rightarrow> transmit st ps)"

text \<open>The window after block \<open>a\<close>, repeated until a block of it or a later one is acknowledged.\<close>

fun offer :: "nat \<Rightarrow> bytes list \<Rightarrow> nat \<Rightarrow> AckTimeout \<Rightarrow> DatagramStream \<Rightarrow> bytes
    \<Rightarrow> ((SendError + nat) \<times> DatagramStream \<times> bytes) run" where
  "offer 0 ps a t st buf = Some (Inl SendTimeout, st, buf)"
| "offer (Suc n) ps a t st buf =
    (case transmit st ps of
       (Inl _, st) \<Rightarrow> Some (Inl SendNetwork, st, buf)
     | (Inr _, st) \<Rightarrow>
        (case read_acknowledge st buf t of
           (Inr ack, st, buf) \<Rightarrow>
             if a < unat ack then Some (Inr (unat ack), st, buf)
             else map_option (\<lambda>(st, buf). (Inl SendACKError, st, buf))
               (fire_error (undefined_error ''Received ACK from the past'') st buf)
         | (Inl RecvTimeout, st, buf) \<Rightarrow> offer n ps a t st buf
         | (Inl (RecvClientError code m), st, buf) \<Rightarrow> Some (Inl (SendClientError code m), st, buf)
         | (Inl _, st, buf) \<Rightarrow> Some (Inl SendNetwork, st, buf)))"

lemma offer_progress:
  "offer n ps a t st buf = Some (Inr b, st', buf') \<Longrightarrow> a < b"
  "offer n ps a t st buf = Some (Inr b, st', buf') \<Longrightarrow> b < 65536"
  by (induction n ps a t st buf rule: offer.induct)
    (auto split: prod.splits sum.splits RecvError.splits if_splits)

text \<open>The transfer with the blocks up to \<open>a\<close> acknowledged; \<open>None\<close> stands for an acknowledgement of a block that was
  never sent, which the source excludes by an assertion.\<close>

function sender :: "bytes \<Rightarrow> nat \<Rightarrow> nat \<Rightarrow> AckTimeout \<Rightarrow> nat \<Rightarrow> DatagramStream \<Rightarrow> bytes
    \<Rightarrow> ((TFTPError + usize \<times> usize) \<times> DatagramStream \<times> bytes) run" where
  "sender data bs L t a st buf =
    (let N = block_count data bs; m = min (a + L) N in
     case offer (unat SEND_ATTEMPTS) (map (data_packet data bs) [Suc a..<Suc m]) a t st buf of
       None \<Rightarrow> None
     | Some (Inr b, st, buf) \<Rightarrow>
         if m = N then Some (Inr (length data, 0), st, buf)
         else if b \<le> m then sender data bs L t b st buf
         else None
     | Some (Inl SendTimeout, st, buf) \<Rightarrow> Some (Inl (undefined_error ''Send timeout occurred''), st, buf)
     | Some (Inl (SendClientError code string), st, buf) \<Rightarrow>
         Some (Inr (min (m * bs) (length data), m - a), st, buf)
     | Some (Inl _, st, buf) \<Rightarrow> Some (Inl (undefined_error ''Unknown error occurred''), st, buf))"
  by pat_completeness auto
termination
proof (relation "measure (\<lambda>(data, bs, L, t, a, _). block_count data bs - a)", goal_cases)
  case (2 data bs L t a st buf N m y r z b st' buf')
  then have "offer (unat SEND_ATTEMPTS) (map (data_packet data bs) [Suc a..<Suc m]) a t st buf = Some (Inr b, st', buf')"
    by simp
  from offer_progress(1) [OF this] 2 show ?case by auto
qed simp

declare sender.simps [simp del]

section \<open>Refinement\<close>

lemma send_blocks_transmit:
  assumes "window_wf w"
  shows "send_blocks w st idxs = Some (transmit st (window_packets w idxs))"
proof (induction idxs arbitrary: st)
  case (Cons i idxs)
  then show ?case
    by (simp add: Window_send_wf [OF assms] window_packets_def split: prod.splits sum.splits)
qed (simp add: window_packets_def)

lemma send_attempts_offer:
  assumes "window_wf w" "window_packets w (window_indices (of_nat (Suc a)) count) = ps" "Suc a < 65536"
  shows "send_attempts n w t st buf (of_nat (Suc a)) count
    = map_option (\<lambda>(r, st, buf). (map_sum id of_nat r, st, buf)) (offer n ps a t st buf)"
proof (induction n arbitrary: st buf)
  case (Suc n)
  have le: "(of_nat (Suc a) :: u16) \<le> ack \<longleftrightarrow> a < unat ack" for ack
    using assms(3) by (simp add: word_le_nat_alt unat_of_nat_u16 Suc_le_eq del: of_nat_Suc)
  obtain r1 st1 where s: "transmit st ps = (r1, st1)" by fastforce
  obtain r2 st2 b2 where a: "read_acknowledge st1 buf t = (r2, st2, b2)" using prod_cases3 by blast
  show ?case
    using s a Suc [of st2 b2]
    by (cases r1; cases r2; cases "fire_error (undefined_error ''Received ACK from the past'') st2 b2")
      (auto simp: send_blocks_transmit [OF assms(1)] assms(2) le simp del: of_nat_Suc
        split: RecvError.splits option.splits)
qed simp

context opened_file begin

text \<open>Between two rounds \<open>K\<close> blocks have been read and \<open>a\<close> of them are acknowledged; the next round reads up
  to block \<open>m\<close>, and its datagrams are the blocks after \<open>a\<close>.\<close>

lemma refill_window:
  assumes "xinv data bs K x" "recent data bs K (xf_window x)" "0 < bs" "K < block_count data bs"
    and "block_count data bs < 65536" "L = length (buffers (xf_window x))"
    and "last_acknowledged_index x = of_nat a" "a \<le> K" "K \<le> a + L" "m = min (a + L) (block_count data bs)"
    and "u = last_read_index x - last_acknowledged_index x"
  shows "u \<le> Window_size (xf_window x) \<and> (\<exists>x1. fill_window read_to x u = Some (Inr (of_nat (m - a), m = block_count data bs), x1)
    \<and> xinv data bs m x1 \<and> recent data bs m (xf_window x1) \<and> length (buffers (xf_window x1)) = L
    \<and> of_nat (m - a) \<le> Window_size (xf_window x1) \<and> unat (of_nat (m - a) :: u16) = m - a
    \<and> window_packets (xf_window x1) (window_indices (of_nat (Suc a)) (of_nat (m - a)))
      = map (data_packet data bs) [Suc a..<Suc m])"
proof -
  let ?N = "block_count data bs"
  have inv: "window_wf (xf_window x)" "last_read_index x = of_nat K"
    using assms(1) by (auto simp: xinv_def)
  have L: "0 < L" "L < 65536" "unat (Window_size (xf_window x)) = L"
    using inv assms(6) unat_Window_size by (auto simp: window_wf_def)
  have uK: "u = of_nat (K - a)" using inv(2) assms(7,8,11) by simp
  then have u: "unat u = K - a" using assms(8,9) L(2) by (simp add: unat_of_nat_u16 del: of_nat_diff)
  define k where "k = min (L - (K - a)) (?N - K)"
  have Kk: "K + k = m" using assms(4,8,9,10) by (auto simp: k_def)
  have fin: "(?N \<le> K + (L - (K - a))) = (m = ?N)" using assms(8,9,10) by auto
  have ma: "u + of_nat k = of_nat (m - a)"
    unfolding uK using Kk assms(8) by (simp add: of_nat_add [symmetric] del: of_nat_add of_nat_diff)
  have le: "unat u \<le> length (buffers (xf_window x))" using u assms(6,8,9) by simp
  have m: "k = min (length (buffers (xf_window x)) - unat u) (?N - K)" by (simp add: k_def u assms(6))
  have "m < 65536" using assms(5,10) by simp
  then obtain x1 where fw: "fill_window read_to x u = Some (Inr (of_nat (m - a), m = ?N), x1)"
    and inv1: "xinv data bs m x1" and len1: "length (buffers (xf_window x1)) = L"
    and rec1: "recent data bs m (xf_window x1)"
    using fill_healthy [OF assms(1,3,4) le m] assms(2)
    unfolding u assms(6) [symmetric] fin Kk ma by blast
  have mle: "m - a \<le> L" "a \<le> m" using assms(4,8,10) by auto
  then have "window_packets (xf_window x1) (window_indices (of_nat (Suc a)) (of_nat (m - a)))
      = map (data_packet data bs) [Suc a..<Suc m]" and "unat (of_nat (m - a) :: u16) = m - a"
    using window_indices_of_nat [of "m - a" a] window_packets_recent [OF rec1, of a] L len1
    by (simp_all add: add.commute unat_of_nat_u16 del: upt_Suc of_nat_diff)
  moreover have "of_nat (m - a) \<le> Window_size (xf_window x1)" "u \<le> Window_size (xf_window x)"
    using mle L fill_window_frame [OF fw] le assms(6) by (simp_all add: word_le_nat_alt unat_of_nat_u16 del: of_nat_diff)
  ultimately show ?thesis using fw inv1 rec1 len1 by blast
qed

text \<open>One round of the outer loop, with the abstract sender's offer in the place of \<open>send_reliably\<close>.\<close>

lemma send_loop_round:
  assumes "fill_window read_to x (last_read_index x - last_acknowledged_index x) = Some (Inr (count, fin), x1)"
    and "last_read_index x - last_acknowledged_index x \<le> Window_size (xf_window x)" "count \<le> Window_size (xf_window x1)"
    and "window_wf (xf_window x1)" "window_packets (xf_window x1) (window_indices (of_nat (Suc a)) count) = ps"
    and "last_acknowledged_index x = of_nat a" "Suc a < 65536"
  shows "send_loop dbg read_to t x = (case offer (unat SEND_ATTEMPTS) ps a t (xf_stream x) (xf_buffer x) of
       None \<Rightarrow> None
     | Some (r, st, buf) \<Rightarrow>
        (let x = x1\<lparr>xf_stream := st, xf_buffer := buf\<rparr> in
         case r of
           Inr b \<Rightarrow>
             (let x = x\<lparr>last_acknowledged_index := of_nat b\<rparr> in
              if fin then Some (Inr (bytes_sent x, blocks_sent x), x) else send_loop dbg read_to t x)
         | Inl SendTimeout \<Rightarrow> Some (Inl (undefined_error ''Send timeout occurred''), x)
         | Inl (SendClientError code string) \<Rightarrow>
             (let x = x\<lparr>blocks_sent := blocks_sent x + unat count\<rparr> in Some (Inr (bytes_sent x, blocks_sent x), x))
         | Inl _ \<Rightarrow> Some (Inl (undefined_error ''Unknown error occurred''), x)))"
proof -
  note fr = fill_window_frame [OF assms(1)]
  have "send_reliably (xf_window x1) t (xf_stream x1) (xf_buffer x1) (last_acknowledged_index x1 + 1) count
      = map_option (\<lambda>(r, st, buf). (map_sum id of_nat r, st, buf))
          (offer (unat SEND_ATTEMPTS) ps a t (xf_stream x) (xf_buffer x))"
    using send_attempts_offer [OF assms(4,5,7), of "unat SEND_ATTEMPTS" t "xf_stream x1" "xf_buffer x1"] fr assms(6)
    by (simp add: send_reliably_def add.commute)
  with assms show ?thesis
    unfolding send_loop.simps [of dbg read_to t x] Let_def
    by (cases "offer (unat SEND_ATTEMPTS) ps a t (xf_stream x) (xf_buffer x)")
      (auto split: sum.splits SendError.splits)
qed

lemma send_loop_refines:
  assumes "xinv data bs K x" "recent data bs K (xf_window x)" "0 < bs" "K < block_count data bs"
    and "block_count data bs < 65536" "L = length (buffers (xf_window x))" "blocks_sent x = 0"
    and "last_acknowledged_index x = of_nat a" "a \<le> K" "K \<le> a + L"
  shows "case sender data bs L t a (xf_stream x) (xf_buffer x) of
      Some (r, st, buf) \<Rightarrow> \<exists>x'. send_loop dbg read_to t x = Some (r, x') \<and> xf_stream x' = st \<and> xf_buffer x' = buf
    | None \<Rightarrow> dbg \<longrightarrow> send_loop dbg read_to t x = None"
  using assms
proof (induction "block_count data bs - a" arbitrary: a K x rule: less_induct)
  case less
  let ?N = "block_count data bs" and ?u = "last_read_index x - last_acknowledged_index x"
  define m where "m = min (a + L) ?N"
  obtain x1 where u: "?u \<le> Window_size (xf_window x)"
    and fw: "fill_window read_to x ?u = Some (Inr (of_nat (m - a), m = ?N), x1)"
    and inv1: "xinv data bs m x1" and rec1: "recent data bs m (xf_window x1)"
    and len1: "length (buffers (xf_window x1)) = L" and small: "of_nat (m - a) \<le> Window_size (xf_window x1)"
    and ma: "unat (of_nat (m - a) :: u16) = m - a"
    and ps: "window_packets (xf_window x1) (window_indices (of_nat (Suc a)) (of_nat (m - a)))
      = map (data_packet data bs) [Suc a..<Suc m]"
    using refill_window [OF less.prems(1-6,8-10) m_def refl] by blast
  let ?o = "offer (unat SEND_ATTEMPTS) (map (data_packet data bs) [Suc a..<Suc m]) a t (xf_stream x) (xf_buffer x)"
  note fr = fill_window_frame [OF fw]
  have wf1: "window_wf (xf_window x1)" and sent: "bytes_sent x1 = min (m * bs) (length data)" "blocks_sent x1 = 0"
    using inv1 fr less.prems(7) by (simp_all add: xinv_def)
  have "Suc a < 65536" using less.prems(4,5,9) by simp
  note loop = send_loop_round [OF fw u small wf1 ps less.prems(8) this, of dbg t]
  note spec = sender.simps [of data bs L t a "xf_stream x" "xf_buffer x", unfolded Let_def, folded m_def]
  have L: "unat (Window_size (xf_window x1)) = L" using unat_Window_size [OF wf1] len1 by simp
  show ?case
  proof (cases "\<exists>b st buf. ?o = Some (Inr b, st, buf) \<and> m \<noteq> ?N")
    case False
    then show ?thesis
      using loop sent ma block_count_covers [OF less.prems(3), of data]
      by (auto simp: spec simp del: of_nat_diff upt_Suc split: option.splits sum.splits SendError.splits)
  next
    case True
    then obtain b st buf where o: "?o = Some (Inr b, st, buf)" and more: "m \<noteq> ?N" by blast
    let ?x2 = "x1\<lparr>xf_stream := st, xf_buffer := buf, last_acknowledged_index := of_nat b\<rparr>"
    note ab = offer_progress [OF o]
    have step: "send_loop dbg read_to t x = send_loop dbg read_to t ?x2"
      using loop o more by simp
    show ?thesis
    proof (cases "b \<le> m")
      case True
      with ab(1) more less.prems(4,9) have "?N - b < ?N - a" "m < ?N" "m \<le> b + L" by (auto simp: m_def)
      moreover have "xinv data bs m ?x2" using inv1 by (simp add: xinv_def)
      ultimately show ?thesis
        using less.hyps [of b m ?x2] o more True less.prems(3,5) rec1 len1 sent
        unfolding step spec by (simp del: upt_Suc)
    next
      case False
      have m: "L \<le> m" "m < 65536" using more less.prems(5) by (auto simp: m_def)
      have "\<not> (of_nat m - of_nat b :: u16) \<le> Window_size (xf_window x1)"
        using False ab(2) L m by (simp add: word_le_nat_alt unat_sub_if' unat_of_nat_u16)
      then have "dbg \<longrightarrow> send_loop dbg read_to t ?x2 = None"
        using inv1 by (cases dbg) (simp_all add: send_loop.simps [of True read_to t ?x2] xinv_def Let_def)
      then show ?thesis using o more False unfolding step spec by (simp del: upt_Suc)
    qed
  qed
qed

lemma send_file_refines:
  assumes "healthy f" "window_wf w" "bs = unat (win_block_size w)" "0 < bs" "block_count (rest f) bs < 65536"
  shows "case sender (rest f) bs (length (buffers w)) t 0 st buf of
      Some (r, st', buf') \<Rightarrow> \<exists>x. send_file dbg read_to f st w t buf = Some (r, x) \<and> xf_stream x = st' \<and> xf_buffer x = buf'
    | None \<Rightarrow> dbg \<longrightarrow> send_file dbg read_to f st w t buf = None"
proof -
  let ?x = "\<lparr>xf_file = f, xf_window = w, xf_stream = st, xf_buffer = buf,
      bytes_sent = 0, blocks_sent = 0, last_acknowledged_index = 0, last_read_index = 0\<rparr>"
  have "case sender (rest f) bs (length (buffers w)) t 0 (xf_stream ?x) (xf_buffer ?x) of
      Some (r, st, buf) \<Rightarrow> \<exists>x'. send_loop dbg read_to t ?x = Some (r, x') \<and> xf_stream x' = st \<and> xf_buffer x' = buf
    | None \<Rightarrow> dbg \<longrightarrow> send_loop dbg read_to t ?x = None"
    by (rule send_loop_refines [OF xinv_start [OF assms(1,2), folded assms(3)]])
      (use assms(4,5) in \<open>simp_all add: recent_0 block_count_def\<close>)
  then show ?thesis unfolding send_file_def by simp
qed

end

section \<open>A lossy network\<close>

text \<open>The block number a receiver that keeps blocks in order waits for after the packets \<open>ps\<close>.\<close>

fun expects :: "nat \<Rightarrow> bytes list \<Rightarrow> nat" where
  "expects k [] = k"
| "expects k (p # ps) =
    (if take 4 p = be_bytes DATA @ be_bytes (of_nat k) then expects (Suc k) ps else expects k ps)"

text \<open>A round of a lossy network: the receiver gets \<open>got\<close>, which are blocks of the window, some lost, some repeated, in
  any order; after \<open>r\<close> timeouts its acknowledgement of the last block it has in order arrives. The last window has
  to arrive as a whole.\<close>

fun lossy :: "SocketAddr \<Rightarrow> nat \<Rightarrow> bytes \<Rightarrow> nat \<Rightarrow> nat \<Rightarrow> nat \<Rightarrow> (bytes list \<times> nat \<times> net_event list) list \<Rightarrow> bool" where
  "lossy peer cap data bs L a [] \<longleftrightarrow> block_count data bs \<le> a"
| "lossy peer cap data bs L a ((got, r, es) # rounds) \<longleftrightarrow>
    (let m = min (a + L) (block_count data bs); b = expects (Suc a) got - 1 in
     a < block_count data bs \<and> set got \<subseteq> set (map (data_packet data bs) [Suc a..<Suc m])
     \<and> a < b \<and> (m = block_count data bs \<longrightarrow> b = m)
     \<and> r < unat SEND_ATTEMPTS \<and> answers peer cap (of_nat b) r es \<and> lossy peer cap data bs L b rounds)"

lemma in_order_receiver:
  assumes "set ps \<subseteq> set (map (data_packet data bs) [Suc a..<Suc m])" "m < 65536" "e \<le> m"
  shows "receive (Suc e) ps = concat (map (chunk data bs) [Suc e..<expects (Suc e) ps])
    \<and> Suc e \<le> expects (Suc e) ps \<and> expects (Suc e) ps \<le> Suc m"
  using assms(1,3)
proof (induction ps arbitrary: e)
  case (Cons p ps)
  then obtain k where k: "p = data_packet data bs k" "0 < k" "k \<le> m"
    by (auto simp del: upt_Suc)
  have "(of_nat k :: u16) \<noteq> of_nat (Suc e)" if "k \<noteq> Suc e"
  proof -
    from that k assms(2) Cons.prems(2) consider "k < Suc e" "Suc e < k + 65536" | "Suc e < k" "k < Suc e + 65536"
      by linarith
    then have "k mod 65536 \<noteq> Suc e mod 65536"
      by cases (use mod_neq_of_close [of k "Suc e" 65536] mod_neq_of_close [of "Suc e" k 65536] in simp_all)
    then show ?thesis using unat_of_nat_u16 by metis
  qed
  then have hit: "take 4 p = be_bytes DATA @ be_bytes (of_nat (Suc e)) \<longleftrightarrow> k = Suc e"
    using k by (auto simp: take_data_packet be_bytes_inject simp del: of_nat_Suc)
  show ?case
  proof (cases "k = Suc e")
    case True
    with Cons k have ih: "receive (Suc (Suc e)) ps = concat (map (chunk data bs) [Suc (Suc e)..<expects (Suc (Suc e)) ps])"
      "Suc (Suc e) \<le> expects (Suc (Suc e)) ps" "expects (Suc (Suc e)) ps \<le> Suc m" by auto
    then have "[Suc e..<expects (Suc (Suc e)) ps] = Suc e # [Suc (Suc e)..<expects (Suc (Suc e)) ps]"
      by (simp add: upt_conv_Cons)
    with ih True hit k show ?thesis by (simp add: drop_data_packet del: of_nat_Suc upt_Suc)
  next
    case False
    with Cons hit show ?thesis by (simp del: of_nat_Suc upt_Suc)
  qed
qed simp

lemma receive_append: "receive k (ps @ qs) = receive k ps @ receive (expects k ps) qs"
  by (induction k ps rule: expects.induct) auto

lemma transmit_reliable:
  "send_results st = [] \<Longrightarrow> transmit st ps = (Inr (), st\<lparr>outbox := outbox st @ ps\<rparr>)"
  by (induction ps arbitrary: st) (simp_all add: stream_send_reliable)

lemma offer_answers:
  assumes "send_results st = []" "4 \<le> length buf" "a < unat ack" "r < n"
    and "answers (peer_address st) (length buf) ack r es" "inbox st = es @ es2"
  shows "\<exists>buf'. length buf' = length buf \<and> offer n ps a t st buf
    = Some (Inr (unat ack), st\<lparr>inbox := es2, waited := waited st + r * timeout t,
        outbox := outbox st @ concat (replicate (Suc r) ps)\<rparr>, buf')"
  using assms
proof (induction r arbitrary: n st buf es)
  case 0
  then obtain n' where n: "n = Suc n'" by (cases n) auto
  from 0 obtain b where "length b = length buf"
    "read_acknowledge (st\<lparr>outbox := outbox st @ ps\<rparr>) buf t = (Inr ack, st\<lparr>outbox := outbox st @ ps, inbox := es2\<rparr>, b)"
    using read_acknowledge_answers [of "st\<lparr>outbox := outbox st @ ps\<rparr>" buf ack 0 es es2 t] by auto
  with 0 n show ?case by (simp add: transmit_reliable)
next
  case (Suc r)
  then obtain n' where n: "n = Suc n'" by (cases n) auto
  let ?st = "st\<lparr>outbox := outbox st @ ps\<rparr>"
  from Suc.prems obtain b es' where b: "length b = length buf" "answers (peer_address st) (length buf) ack r es'"
    "read_acknowledge ?st buf t = (Inl RecvTimeout, ?st\<lparr>inbox := es' @ es2, waited := waited st + timeout t\<rparr>, b)"
    using read_acknowledge_answers [of ?st buf ack "Suc r" es es2 t] by auto
  with Suc.IH [of "?st\<lparr>inbox := es' @ es2, waited := waited st + timeout t\<rparr>" b n' es'] Suc.prems n show ?case
    by (auto simp: transmit_reliable algebra_simps)
qed

lemma sender_lossy:
  assumes "lossy (peer_address st) (length buf) data bs L a rounds" "a < block_count data bs" "0 < bs"
    and "block_count data bs < 65536" "send_results st = []" "4 \<le> length buf"
    and "inbox st = concat (map (\<lambda>x. snd (snd x)) rounds) @ later"
  shows "\<exists>st' buf'. sender data bs L t a st buf = Some (Inr (length data, 0), st', buf') \<and> inbox st' = later
    \<and> receive (Suc a) (concat (map fst rounds)) = concat (map (chunk data bs) [Suc a..<Suc (block_count data bs)])"
  using assms
proof (induction rounds arbitrary: a st buf)
  case (Cons round rounds)
  let ?N = "block_count data bs"
  obtain got r es where round: "round = (got, r, es)" using prod_cases3 by blast
  define m where "m = min (a + L) ?N"
  define b where "b = expects (Suc a) got - 1"
  have l: "set got \<subseteq> set (map (data_packet data bs) [Suc a..<Suc m])" "a < b" "m = ?N \<longrightarrow> b = m"
    "r < unat SEND_ATTEMPTS" "answers (peer_address st) (length buf) (of_nat b) r es"
    "lossy (peer_address st) (length buf) data bs L b rounds"
    using Cons.prems(1) unfolding round by (simp_all add: Let_def m_def [symmetric] b_def del: upt_Suc)
  have am: "a \<le> m" "m < 65536" "m \<le> ?N" using Cons.prems(2,4) by (auto simp: m_def)
  note rcv = in_order_receiver [OF l(1) am(2,1)]
  have eb: "expects (Suc a) got = Suc b" "b \<le> m" using rcv by (auto simp: b_def)
  have ub: "unat (of_nat b :: u16) = b" using eb am by (simp add: unat_of_nat_u16)
  have four: "4 \<le> length buf" and in_st: "inbox st = es @ concat (map (\<lambda>x. snd (snd x)) rounds) @ later"
    using Cons.prems(6,7) round by simp_all
  have "a < unat (of_nat b :: u16)" using ub l(2) by simp
  from offer_answers [OF Cons.prems(5) four this l(4,5) in_st, of "map (data_packet data bs) [Suc a..<Suc m]" t]
  obtain buf1 st1 where o: "offer (unat SEND_ATTEMPTS) (map (data_packet data bs) [Suc a..<Suc m]) a t st buf = Some (Inr b, st1, buf1)"
    and st1: "length buf1 = length buf" "peer_address st1 = peer_address st" "send_results st1 = []"
      "inbox st1 = concat (map (\<lambda>x. snd (snd x)) rounds) @ later"
    using Cons.prems(5) unfolding ub by (auto simp del: upt_Suc)
  note spec = sender.simps [of data bs L t a st buf, unfolded Let_def, folded m_def]
  have chunks: "concat (map (chunk data bs) [Suc a..<Suc ?N])
      = concat (map (chunk data bs) [Suc a..<Suc b]) @ concat (map (chunk data bs) [Suc b..<Suc ?N])"
    using upt_add_eq_append [of "Suc a" "Suc b" "?N - b"] l(2) eb am by (simp del: upt_Suc)
  have rc: "receive (Suc a) (concat (map fst (round # rounds)))
      = concat (map (chunk data bs) [Suc a..<Suc b]) @ receive (Suc b) (concat (map fst rounds))"
    using rcv eb round by (simp add: receive_append del: upt_Suc)
  show ?case
  proof (cases "m = ?N")
    case True
    with l(3,6) have "rounds = []" by (cases rounds) (auto simp: Let_def split: prod.splits)
    with True l(3) o st1 show ?thesis unfolding rc spec by (simp del: upt_Suc)
  next
    case False
    with am(3) eb(2) have "b < ?N" by simp
    from Cons.IH [OF _ this Cons.prems(3,4) st1(3) _ st1(4), of buf1] l(6) st1 four
    obtain st' buf' where "sender data bs L t b st1 buf1 = Some (Inr (length data, 0), st', buf')" "inbox st' = later"
      "receive (Suc b) (concat (map fst rounds)) = concat (map (chunk data bs) [Suc b..<Suc ?N])"
      by auto
    with False eb o show ?thesis unfolding rc spec chunks by (simp del: upt_Suc)
  qed
qed simp

context opened_file begin

lemma send_file_lossy:
  assumes "healthy f" "window_wf w" "bs = unat (win_block_size w)" "0 < bs" "block_count (rest f) bs < 65536"
    and "lossy (peer_address st) (length buf) (rest f) bs (length (buffers w)) 0 rounds"
    and "send_results st = []" "4 \<le> length buf" "inbox st = concat (map (\<lambda>x. snd (snd x)) rounds) @ later"
  shows "\<exists>x. send_file dbg read_to f st w t buf = Some (Inr (length (rest f), 0), x) \<and> inbox (xf_stream x) = later
    \<and> receive 1 (concat (map fst rounds)) = rest f"
proof -
  have "0 < block_count (rest f) bs" by (simp add: block_count_def)
  from sender_lossy [OF assms(6) this assms(4,5,7-9), of t] blocks_reassemble [OF assms(4), of "rest f"]
  obtain st' buf' where "sender (rest f) bs (length (buffers w)) t 0 st buf = Some (Inr (length (rest f), 0), st', buf')"
    "inbox st' = later" "receive 1 (concat (map fst rounds)) = rest f" by auto
  with send_file_refines [OF assms(1-5), where t = t and st = st and buf = buf and dbg = dbg] show ?thesis by auto
qed

end

end
