(* ===== verification/Session_Errors.thy ===== *)
theory Session_Errors
  imports Peer_Session
begin

text \<open>
  The sessions that do not succeed: the error paths of the option negotiation and of reading the file, with the datagrams they leave
  behind, and the shape of the window on every path.
\<close>

section \<open>The window\<close>

context readable begin

lemma fill_window_keeps_wf:
  assumes "window_wf (xf_window x)" "fill_window read_to x to_send = Some (r, x')"
  shows "window_wf (xf_window x') \<and> win_block_size (xf_window x') = win_block_size (xf_window x)
    \<and> length (buffers (xf_window x')) = length (buffers (xf_window x))
    \<and> (to_send \<le> Window_size (xf_window x) \<longrightarrow> (\<forall>n l. r = Inr (n, l) \<longrightarrow> n \<le> Window_size (xf_window x)))"
  using assms
proof (induction x to_send rule: fill_window_induct [where read_to = read_to])
  case (read x to_send)
  show ?case
  proof (cases "to_send < Window_size (xf_window x)")
    case lt: True
    then have le: "to_send + 1 \<le> Window_size (xf_window x)" by (metis inc_le)
    show ?thesis
    proof (cases "\<exists>k l f w. push_block read_to (xf_window x) (xf_file x) (last_read_index x + 1) = Some (Inr (k, l), f, w)")
      case True
      then obtain k l f w where
        p: "push_block read_to (xf_window x) (xf_file x) (last_read_index x + 1) = Some (Inr (k, l), f, w)" by blast
      note w = push_block_keeps_wf [OF read.prems(1) p] push_block_frame [OF p] Window_size_push_block [OF p]
      show ?thesis
        using fill_window_read [OF lt p] read.IH [OF lt, of k f w] read.prems(2) p w le
        by (cases l) (auto simp: after_read_def)
    next
      case False
      then obtain f w e where p: "push_block read_to (xf_window x) (xf_file x) (last_read_index x + 1) = Some (Inl e, f, w)"
        and "x' = x\<lparr>last_read_index := last_read_index x + 1, xf_file := f, xf_window := w\<rparr>" "\<exists>e. r = Inl e"
        using fill_window_other [OF lt, of read_to] read.prems(2) by fastforce
      with push_block_keeps_wf [OF read.prems(1) p] push_block_frame [OF p] show ?thesis by auto
    qed
  next
    case False
    with read.prems show ?thesis by (auto simp: fill_window_full)
  qed
qed

text \<open>Filling the window panics only when a read does.\<close>

lemma fill_window_panic:
  assumes "window_wf (xf_window x)" "fill_window read_to x to_send = None"
  shows "\<exists>f buf. read_to f buf = None"
  using assms
proof (induction x to_send rule: fill_window_induct [where read_to = read_to])
  case (read x to_send)
  have lt: "to_send < Window_size (xf_window x)"
    using read.prems(2) fill_window_full [of to_send x read_to] by auto
  show ?case
  proof (cases "push_block read_to (xf_window x) (xf_file x) (last_read_index x + 1)")
    case None
    from push_block_wf [OF read.prems(1), of "xf_file x" "last_read_index x + 1"] obtain buf where
      "case read_to (xf_file x) buf of
        None \<Rightarrow> push_block read_to (xf_window x) (xf_file x) (last_read_index x + 1) = None
      | Some (_, f', _) \<Rightarrow>
          \<exists>r w'. push_block read_to (xf_window x) (xf_file x) (last_read_index x + 1) = Some (r, f', w') \<and> window_wf w'" ..
    with None show ?thesis by (cases "read_to (xf_file x) buf") auto
  next
    case (Some y)
    with read.prems(2) lt obtain k f w where
      p: "push_block read_to (xf_window x) (xf_file x) (last_read_index x + 1) = Some (Inr (k, False), f, w)"
      by (auto simp: fill_window.simps [of read_to x] Let_def split: prod.splits sum.splits if_splits)
    with fill_window_read [OF lt p] read.prems push_block_keeps_wf [OF read.prems(1) p] read.IH [OF lt p] show ?thesis
      by (simp add: after_read_def)
  qed
qed

end

section \<open>Error datagrams\<close>

lemma fire_error_sends:
  assumes "error_size e < length buf" "send_results st = []"
  shows "\<exists>buf'. length buf' = length buf \<and> fire_error e st buf =
    Some (st\<lparr>outbox := outbox st @ [butlast (error_packet e) @ [buf ! (error_size e - 1)]]\<rparr>, buf')"
  using serialize_success [OF assms(1)] assms(2) by (auto simp: fire_error_def stream_send_reliable)

lemma fire_error_zeroed:
  assumes "error_size e < n" "send_results st = []"
  shows "\<exists>buf'. fire_error e st (replicate n 0) = Some (st\<lparr>outbox := outbox st @ [error_packet e]\<rparr>, buf')"
  using serialize_zeroed [OF assms(1)] assms(2) by (auto simp: fire_error_def stream_send_reliable)

section \<open>The option negotiation\<close>

lemma oack_attempts_silent:
  assumes "send_results st = []" "inbox st = []" "64 \<le> length buf"
  shows "\<exists>buf'. oack_attempts n k st t buf = Some (Inl \<lparr>kind = TimedOut, detail = str ''Timeout waiting for ACK 0''\<rparr>,
    st\<lparr>waited := waited st + n * timeout t, outbox := outbox st @ replicate n (take k buf)
      @ [butlast (error_packet (undefined_error ''Send timeout occurred''))
          @ [buf ! (error_size (undefined_error ''Send timeout occurred'') - 1)]]\<rparr>, buf')"
  using assms
proof (induction n arbitrary: st)
  case 0
  then show ?case
    using fire_error_sends [of "undefined_error ''Send timeout occurred''" buf st] short_errors(2) by auto
next
  case (Suc n)
  let ?st = "st\<lparr>outbox := outbox st @ [take k buf]\<rparr>"
  from Suc.prems have "read_acknowledge ?st buf t
      = (Inl RecvTimeout, ?st\<lparr>inbox := [], waited := waited st + timeout t\<rparr>, buf)"
    by (simp add: read_acknowledge_def recv_timeout_def)
  with Suc.prems Suc.IH [of "?st\<lparr>inbox := [], waited := waited st + timeout t\<rparr>"] show ?case
    by (auto simp: stream_send_reliable algebra_simps)
qed

lemma send_oack_starts:
  assumes "has_options oack" "length (oack_packet (oack_options oack)) < n"
  shows "\<exists>b. length b = n \<and> take (length (oack_packet (oack_options oack))) b = oack_packet (oack_options oack)
    \<and> send_oack_reliably oack st t (replicate n 0)
      = oack_attempts (unat SEND_ATTEMPTS) (length (oack_packet (oack_options oack))) st t b"
  using OptionsAcknowledge_serialize_zeroed [of oack n] assms by (auto simp: has_options_def send_oack_reliably_def)

lemma failed_negotiation_ends:
  assumes "negotiated_oack get_size f opts = (oack, t, b, ws, f')" "has_options oack"
    and "send_oack_reliably oack st t buf = Some (Inl e, st', buf')"
  shows "send dbg read_to get_size f st opts buf = Some st'"
  using assms by (simp add: send_def negotiate_options_def Let_def)

lemma send_unanswered_options:
  assumes "negotiated_oack get_size f opts = (oack, t, b, ws, f')" "has_options oack"
    and "\<forall>n g. get_size f = (Inr n, g) \<longrightarrow> n < usize_modulus" "inbox st = []" "send_results st = []"
  shows "\<exists>st' z. send dbg read_to get_size f st opts (replicate 65535 0) = Some st'
    \<and> outbox st' = outbox st @ replicate 5 (oack_packet (oack_options oack))
        @ [butlast (error_packet (undefined_error ''Send timeout occurred'')) @ [z]]
    \<and> waited st' = waited st + 5 * timeout t"
proof -
  let ?p = "oack_packet (oack_options oack)"
  have "length ?p < 65535" using negotiated_oack_size [of get_size f opts] assms(1,3) by fastforce
  from send_oack_starts [OF assms(2) this] obtain b where b: "length b = 65535" "take (length ?p) b = ?p"
    "send_oack_reliably oack st t (replicate 65535 0) = oack_attempts (unat SEND_ATTEMPTS) (length ?p) st t b" by blast
  with oack_attempts_silent [OF assms(5,4), of b "unat SEND_ATTEMPTS" "length ?p" t] obtain buf' where
    "send_oack_reliably oack st t (replicate 65535 0) = Some (Inl \<lparr>kind = TimedOut, detail = str ''Timeout waiting for ACK 0''\<rparr>,
      st\<lparr>waited := waited st + 5 * timeout t, outbox := outbox st @ replicate 5 ?p
        @ [butlast (error_packet (undefined_error ''Send timeout occurred''))
            @ [b ! (error_size (undefined_error ''Send timeout occurred'') - 1)]]\<rparr>, buf')"
    by (auto simp: SEND_ATTEMPTS_def)
  from failed_negotiation_ends [OF assms(1,2) this] show ?thesis by auto
qed

text \<open>The first datagram of the peer that is long enough is the one that counts.\<close>

lemma read_acknowledge_first:
  assumes "inbox st = skipped @ Arrives (peer_address st) d # later" "4 \<le> length d" "length d \<le> length buf"
    and "list_all (ignorable (peer_address st) (length buf) 4) skipped"
  shows "\<exists>b. length b = length buf \<and> take (length d) b = d
    \<and> read_acknowledge st buf t = (parse_acknowledge b, st\<lparr>inbox := later\<rparr>, b)"
proof -
  from stream_recv_skips [OF assms(4), of "Arrives (peer_address st) d # later"] obtain b where
    b: "length b = length buf" "stream_recv (peer_address st) (inbox st) buf 4
      = stream_recv (peer_address st) (Arrives (peer_address st) d # later) b 4"
    using assms(1) by auto
  then have "stream_recv (peer_address st) (inbox st) buf 4 = (Inr (Inr (length d)), later, recv_into b d)"
    using assms(2,3) by (simp add: Let_def)
  then show ?thesis
    using b(1) assms(3) by (intro exI [where x = "recv_into b d"])
      (simp add: read_acknowledge_def recv_timeout_def take_recv_into)
qed

lemma parse_acknowledge_by_opcode:
  assumes "4 \<le> length buf"
  shows "if take 2 buf = be_bytes ACK then \<exists>n. parse_acknowledge buf = Inr n \<and> take 4 buf = ack_packet n
    else \<exists>e. parse_acknowledge buf = Inl e \<and> e \<noteq> RecvTimeout"
proof -
  from assms obtain b0 b1 b2 b3 rest where buf: "buf = b0 # b1 # b2 # b3 # rest"
    by (auto simp: numeral_eq_Suc Suc_le_length_iff)
  have 1: "extract_ushort (ReadCursor_new buf) = (Inr (from_be_bytes b0 b1), \<lparr>datagram = buf, index = 2\<rparr>)"
    "extract_ushort \<lparr>datagram = buf, index = 2\<rparr> = (Inr (from_be_bytes b2 b3), \<lparr>datagram = buf, index = 4\<rparr>)"
    using extract_ushort_at [of "ReadCursor_new buf" "[]"] extract_ushort_at [of "\<lparr>datagram = buf, index = 2\<rparr>" "[b0, b1]"] buf
    by (simp_all add: ReadCursor_new_def)
  show ?thesis
  proof (cases "take 2 buf = be_bytes ACK")
    case True
    with buf have "from_be_bytes b0 b1 = ACK" by (simp add: from_be_bytes_eq_iff)
    with 1 True buf show ?thesis by (simp add: parse_acknowledge_def ack_packet_def from_be_bytes_inverse)
  next
    case False
    with buf have "from_be_bytes b0 b1 \<noteq> ACK" by (simp add: from_be_bytes_eq_iff)
    with 1 False show ?thesis
      by (auto simp: parse_acknowledge_def split: prod.splits sum.splits)
  qed
qed

lemma oack_attempts_refused:
  assumes "inbox st = skipped @ Arrives (peer_address st) d # later" "4 \<le> length d" "length d \<le> length buf" "64 \<le> length buf"
    and "list_all (ignorable (peer_address st) (length buf) 4) skipped" "take 4 d \<noteq> ack_packet 0" "send_results st = []"
  shows "\<exists>e z buf'. oack_attempts (Suc n) k st t buf = Some (Inl e, st\<lparr>inbox := later,
    outbox := outbox st @ take k buf # (if take 2 d = be_bytes ACK
      then [butlast (error_packet (undefined_error ''Unexpected non-zero ACK'')) @ [z]] else [])\<rparr>, buf')"
proof -
  let ?st = "st\<lparr>outbox := outbox st @ [take k buf]\<rparr>"
  obtain b where b: "length b = length buf" "take (length d) b = d"
    "read_acknowledge ?st buf t = (parse_acknowledge b, ?st\<lparr>inbox := later\<rparr>, b)"
    using read_acknowledge_first [of ?st skipped d later buf t] assms by auto
  from b(2) obtain more where "b = d @ more" by (metis append_take_drop_id)
  then have four: "take 4 b = take 4 d" "take 2 b = take 2 d" "4 \<le> length b" using assms(2) by simp_all
  obtain buf' where f: "fire_error (undefined_error ''Unexpected non-zero ACK'') (?st\<lparr>inbox := later\<rparr>) b
      = Some (?st\<lparr>inbox := later, outbox := outbox ?st @ [butlast (error_packet (undefined_error ''Unexpected non-zero ACK''))
          @ [b ! (error_size (undefined_error ''Unexpected non-zero ACK'') - 1)]]\<rparr>, buf')"
    using fire_error_sends [of "undefined_error ''Unexpected non-zero ACK''" b "?st\<lparr>inbox := later\<rparr>"] short_errors(5) assms(4,7) b(1)
    by auto
  show ?thesis
  proof (cases "take 2 d = be_bytes ACK")
    case True
    with parse_acknowledge_by_opcode [OF four(3)] four assms(6) obtain m where
      "parse_acknowledge b = Inr m" "m \<noteq> 0" by auto
    with b(3) f assms(7) True show ?thesis by (simp add: stream_send_reliable) blast
  next
    case False
    with parse_acknowledge_by_opcode [OF four(3)] four obtain e where "parse_acknowledge b = Inl e" "e \<noteq> RecvTimeout" by auto
    with b(3) assms(7) False show ?thesis by (cases e) (simp_all add: stream_send_reliable)
  qed
qed

lemma send_refused_options:
  assumes "negotiated_oack get_size f opts = (oack, t, b, ws, f')" "has_options oack"
    and "\<forall>n g. get_size f = (Inr n, g) \<longrightarrow> n < usize_modulus"
    and "inbox st = skipped @ Arrives (peer_address st) d # later" "4 \<le> length d" "length d \<le> 65535"
    and "list_all (ignorable (peer_address st) 65535 4) skipped" "take 4 d \<noteq> ack_packet 0" "send_results st = []"
  shows "\<exists>st' z. send dbg read_to get_size f st opts (replicate 65535 0) = Some st' \<and> inbox st' = later
    \<and> outbox st' = outbox st @ oack_packet (oack_options oack) # (if take 2 d = be_bytes ACK
        then [butlast (error_packet (undefined_error ''Unexpected non-zero ACK'')) @ [z]] else [])"
proof -
  let ?p = "oack_packet (oack_options oack)"
  have "length ?p < 65535" using negotiated_oack_size [of get_size f opts] assms(1,3) by fastforce
  from send_oack_starts [OF assms(2) this] obtain b where b: "length b = 65535" "take (length ?p) b = ?p"
    "send_oack_reliably oack st t (replicate 65535 0) = oack_attempts (unat SEND_ATTEMPTS) (length ?p) st t b" by blast
  moreover have "unat SEND_ATTEMPTS = Suc 4" by (simp add: SEND_ATTEMPTS_def)
  ultimately obtain e z buf' where
    "send_oack_reliably oack st t (replicate 65535 0) = Some (Inl e, st\<lparr>inbox := later,
      outbox := outbox st @ ?p # (if take 2 d = be_bytes ACK
        then [butlast (error_packet (undefined_error ''Unexpected non-zero ACK'')) @ [z]] else [])\<rparr>, buf')"
    using oack_attempts_refused [of st skipped d later b 4 "length ?p" t] assms(4-9) by (auto simp del: oack_attempts.simps)
  from failed_negotiation_ends [OF assms(1,2) this] show ?thesis by auto
qed

section \<open>A file that cannot be read\<close>

lemma push_block_error:
  assumes "window_wf w" "\<forall>buf. \<exists>e f' buf'. read_to f buf = Some (Inl e, f', buf')"
  shows "\<exists>e f' w'. push_block read_to w f idx = Some (Inl e, f', w')"
proof -
  define i where "i = unat idx mod length (buffers w)"
  from assms(1) have sl: "slot w idx = Some i" and "i < length (buffers w)"
    by (auto simp: slot_def window_wf_def i_def)
  then have "length (mem (buffers w ! i)) = unat (win_block_size w) + 4" using assms(1) by (simp add: window_wf_def)
  moreover obtain e f' b where "read_to f (drop 4 (mem (buffers w ! i))) = Some (Inl e, f', b)" using assms(2) by blast
  ultimately show ?thesis using sl by (auto simp: push_block_def Window_buffer_def Let_def)
qed

lemma send_unreadable_file:
  assumes "negotiated_oack get_size f opts = (oack, t, b, ws, f')" "\<not> has_options oack"
    and "\<forall>buf. \<exists>e g buf'. read_to f' buf = Some (Inl e, g, buf')" "send_results st = []"
  shows "\<exists>st'. send dbg read_to get_size f st opts (replicate 65535 0) = Some st'
    \<and> outbox st' = outbox st @ [error_packet (undefined_error ''Read file error occurred'')] \<and> inbox st' = inbox st"
proof -
  define w where "w = Window_new (of_nat (Blksize_get_size b)) (of_nat (WindowSize_get_size ws))"
  from assms(1) have bw: "b = or_default Blksize_default (Blksize_find_in opts)"
    "ws = or_default WindowSize_default (WindowSize_find_in opts)" by (auto simp: negotiated_oack_eq)
  note win = negotiated_window [OF w_def [unfolded bw]]
  let ?x = "\<lparr>xf_file = f', xf_window = w, xf_stream = st, xf_buffer = replicate 65535 0, bytes_sent = 0,
      blocks_sent = 0, last_acknowledged_index = 0, last_read_index = 0\<rparr>"
  obtain e g w' where p: "push_block read_to w f' 1 = Some (Inl e, g, w')" using push_block_error [of w read_to f' 1] win(1) assms(3) by blast
  have "0 < Window_size w" using unat_Window_size [OF win(1)] win(1) by (auto simp: window_wf_def word_less_nat_alt)
  with p have "send_file dbg read_to f' st w t (replicate 65535 0) = Some (Inl (undefined_error ''Read file error occurred''),
      ?x\<lparr>last_read_index := 1, xf_file := g, xf_window := w'\<rparr>)"
    by (simp add: send_file_def send_loop.simps [of dbg read_to t ?x] fill_window.simps [of read_to ?x] Let_def)
  moreover obtain buf' where "fire_error (undefined_error ''Read file error occurred'') st (replicate 65535 0)
      = Some (st\<lparr>outbox := outbox st @ [error_packet (undefined_error ''Read file error occurred'')]\<rparr>, buf')"
    using fire_error_zeroed [of "undefined_error ''Read file error occurred''" 65535 st] short_errors assms(4) by fastforce
  ultimately show ?thesis using assms(1,2) by (simp add: send_def negotiate_options_def w_def Let_def)
qed

text \<open>An error of the peer ends the transfer at once, without an answer.\<close>

lemma parse_acknowledge_error:
  assumes "take (error_size e) b = error_packet e" "utf8_valid (snd (TFTPError_parse e))" "0 \<notin> set (snd (TFTPError_parse e))"
  shows "parse_acknowledge b = Inl (RecvClientError (fst (TFTPError_parse e)) (snd (TFTPError_parse e)))"
proof -
  obtain code msg where p: "TFTPError_parse e = (code, msg)" by fastforce
  define rest where "rest = drop (error_size e) b"
  have "b = error_packet e @ rest" using append_take_drop_id [of "error_size e" b] assms(1) by (simp add: rest_def)
  then have b: "b = be_bytes ERROR @ be_bytes code @ msg @ 0 # rest" using p by (simp add: error_packet_def)
  have "extract_ushort (ReadCursor_new b) = (Inr ERROR, \<lparr>datagram = b, index = 2\<rparr>)"
    "extract_ushort \<lparr>datagram = b, index = 2\<rparr> = (Inr code, \<lparr>datagram = b, index = 4\<rparr>)"
    by (simp_all add: b extract_ushort_def ReadCursor_new_def be_bytes_def)
  moreover have "extract_string \<lparr>datagram = b, index = 4\<rparr> = (Inr msg, \<lparr>datagram = b, index = length msg + 5\<rparr>)"
    using extract_string_at [of "\<lparr>datagram = b, index = 4\<rparr>" "be_bytes ERROR @ be_bytes code" msg rest] assms(2,3) p by (simp add: b)
  ultimately show ?thesis using p by (simp add: parse_acknowledge_def ACK_def ERROR_def)
qed

context opened_file begin

lemma send_file_abandoned:
  assumes "healthy f" "window_wf w" "bs = unat (win_block_size w)" "0 < bs"
    and "m = min (length (buffers w)) (block_count (rest f) bs)"
    and "inbox st = Arrives (peer_address st) (error_packet e) # es" "send_results st = []" "error_size e \<le> length buf"
    and "utf8_valid (snd (TFTPError_parse e))" "0 \<notin> set (snd (TFTPError_parse e))"
  shows "\<exists>x' n. send_file dbg read_to f st w t buf = Some (Inr n, x')
    \<and> outbox (xf_stream x') = outbox st @ map (data_packet (rest f) bs) [1..<Suc m] \<and> inbox (xf_stream x') = es"
proof -
  let ?x = "\<lparr>xf_file = f, xf_window = w, xf_stream = st, xf_buffer = buf,
      bytes_sent = 0, blocks_sent = 0, last_acknowledged_index = 0, last_read_index = 0\<rparr>"
  let ?st = "st\<lparr>outbox := outbox st @ map (data_packet (rest f) bs) [1..<Suc m]\<rparr>"
  obtain fin x1 where fw: "fill_window read_to ?x 0 = Some (Inr (of_nat m, fin), x1)"
    and wf1: "window_wf (xf_window x1)" and le: "(of_nat m :: u16) \<le> Window_size (xf_window x1)"
    and wp: "window_packets (xf_window x1) (window_indices 1 (of_nat m)) = map (data_packet (rest f) bs) [1..<Suc m]"
    using first_window [OF assms(1-5) refl] by blast
  note fr = fill_window_frame [OF fw]
  have "4 \<le> length (error_packet e)" by (simp add: error_size_def)
  then obtain b where b: "take (error_size e) b = error_packet e" "read_acknowledge ?st buf t = (parse_acknowledge b, ?st\<lparr>inbox := es\<rparr>, b)"
    using read_acknowledge_first [of ?st "[]" "error_packet e" es buf t] assms(6,8) by auto
  have "0 < unat SEND_ATTEMPTS" by (simp add: SEND_ATTEMPTS_def)
  then obtain k where k: "unat SEND_ATTEMPTS = Suc k" using gr0_implies_Suc by blast
  have "send_reliably (xf_window x1) t (xf_stream x1) (xf_buffer x1) (last_acknowledged_index x1 + 1) (of_nat m)
      = Some (Inl (SendClientError (fst (TFTPError_parse e)) (snd (TFTPError_parse e))), ?st\<lparr>inbox := es\<rparr>, b)"
    using b(2) parse_acknowledge_error [OF b(1) assms(9,10)] send_blocks_reliable [OF wf1 assms(7)] fr wp k
    by (simp add: send_reliably_def del: upt_Suc)
  with fw le fr show ?thesis
    by (simp add: send_file_def send_loop.simps [of dbg read_to t ?x] Let_def del: upt_Suc)
qed

lemma session_abandoned:
  assumes "healthy f" "fresh f" "negotiated_oack get_size f opts = (oack, t, b, ws, f')" "\<not> has_options oack"
    and "m = min (WindowSize_get_size ws) (block_count (rest f) (Blksize_get_size b))"
    and "inbox st = Arrives (peer_address st) (error_packet e) # es" "send_results st = []" "error_size e \<le> n"
    and "utf8_valid (snd (TFTPError_parse e))" "0 \<notin> set (snd (TFTPError_parse e))"
  shows "\<exists>st'. send dbg read_to get_size f st opts (replicate n 0) = Some st'
    \<and> outbox st' = outbox st @ map (data_packet (rest f) (Blksize_get_size b)) [1..<Suc m] \<and> inbox st' = es"
proof -
  define w where "w = Window_new (of_nat (Blksize_get_size b)) (of_nat (WindowSize_get_size ws))"
  from assms(3) have bw: "b = or_default Blksize_default (Blksize_find_in opts)"
    "ws = or_default WindowSize_default (WindowSize_find_in opts)" by (auto simp: negotiated_oack_eq)
  note win = negotiated_window [OF w_def [unfolded bw]] negotiated_sizes [of opts]
  note f' = negotiated_file [OF assms(1-3)]
  have w: "window_wf w" "Blksize_get_size b = unat (win_block_size w)" "0 < Blksize_get_size b"
    "m = min (length (buffers w)) (block_count (rest f') (Blksize_get_size b))"
    using win bw f' assms(5) by auto
  from send_file_abandoned [OF conjunct1 [OF f'] w assms(6,7) _ assms(9,10), of "replicate n 0" dbg t] assms(3,4,8) f'
  show ?thesis by (auto simp: send_def negotiate_options_def w_def Let_def)
qed

end

end
