(* ===== verification/Peer_Traffic.thy ===== *)
theory Peer_Traffic
  imports Peer_Session
begin

text \<open>
  How much a session sends and how long it waits, whatever the peer does, whatever the file returns and whether sends succeed or not:
  \<open>send\<close> of \<open>src/peer_handler/mod.rs\<close> bounded by the number of events at its socket.
\<close>

section \<open>Cost\<close>

text \<open>\<open>costs n s st st'\<close>: from \<open>st\<close> to \<open>st'\<close> at most \<open>n\<close> datagrams were sent and at most \<open>s\<close> seconds
  were waited, and no event was added.\<close>

definition costs :: "nat \<Rightarrow> nat \<Rightarrow> DatagramStream \<Rightarrow> DatagramStream \<Rightarrow> bool" where
  "costs n s st st' \<longleftrightarrow> length (outbox st') \<le> length (outbox st) + n \<and> waited st' \<le> waited st + s
    \<and> length (inbox st') \<le> length (inbox st)"

lemma costs_refl [simp, intro]: "costs n s st st"
  by (simp add: costs_def)

lemma costs_trans: "costs n s st st1 \<Longrightarrow> costs m u st1 st' \<Longrightarrow> costs (n + m) (s + u) st st'"
  by (simp add: costs_def)

lemma costs_mono: "costs n s st st' \<Longrightarrow> n \<le> m \<Longrightarrow> s \<le> u \<Longrightarrow> costs m u st st'"
  by (auto simp: costs_def)

lemma stream_send_costs: "costs (Suc 0) 0 st (snd (stream_send st d))"
  by (auto simp: costs_def stream_send_def send_to_def split: list.splits sum.splits)

lemma fire_error_costs: "fire_error e st buf = Some (st', buf') \<Longrightarrow> costs (Suc 0) 0 st st'"
  by (auto simp: fire_error_def split: bind_splits sum.splits intro: stream_send_costs)

lemma read_acknowledge_costs:
  assumes "read_acknowledge st buf t = (r, st', buf')"
  shows "costs 0 (timeout t) st st'"
proof -
  have "waited st' \<le> waited st + timeout t"
    using assms by (auto simp: read_acknowledge_def recv_timeout_def split: prod.splits sum.splits)
  with read_acknowledge_frame [OF assms] show ?thesis by (simp add: costs_def)
qed

lemma send_blocks_costs:
  "send_blocks w st idxs = Some (r, st') \<Longrightarrow> costs (length idxs) 0 st st'"
proof (induction idxs arbitrary: st)
  case (Cons i idxs)
  then obtain r1 st1 where s: "Window_send w i st = Some (r1, st1)" by (auto split: bind_splits)
  then have "costs (Suc 0) 0 st st1"
    by (auto simp: Window_send_def split: bind_splits) (metis snd_conv stream_send_costs)
  moreover have "costs (length idxs) 0 st1 st'"
    using Cons s by (auto split: sum.splits)
  ultimately show ?case using costs_trans by fastforce
qed auto

text \<open>A window is sent at most once per attempt; an error can follow.\<close>

lemma send_attempts_costs:
  "send_attempts n w t st buf wi count = Some (r, st', buf') \<Longrightarrow>
    costs (n * unat count + (case r of Inr _ \<Rightarrow> 0 | Inl _ \<Rightarrow> 1)) (n * timeout t) st st'"
proof (induction n arbitrary: st buf)
  case (Suc n)
  then obtain r1 st1 where s: "send_blocks w st (window_indices wi count) = Some (r1, st1)"
    by (auto split: bind_splits)
  from send_blocks_costs [OF s] have c1: "costs (unat count) 0 st st1" by (simp add: window_indices_def)
  obtain r2 st2 b2 where a: "read_acknowledge st1 buf t = (r2, st2, b2)" using prod_cases3 by blast
  from costs_trans [OF c1 read_acknowledge_costs [OF a]] have c2: "costs (unat count) (timeout t) st st2" by simp
  show ?case
  proof (cases "r1 = Inr () \<and> r2 = Inl RecvTimeout")
    case True
    with Suc.prems s a have "send_attempts n w t st2 b2 wi count = Some (r, st', buf')" by simp
    from costs_trans [OF c2 Suc.IH [OF this]] show ?thesis by (simp add: add.assoc)
  next
    case False
    have err: "costs (unat count + 1) (timeout t) st st3" if "fire_error e st2 b = Some (st3, b3)" for e b st3 b3
      using costs_trans [OF c2 fire_error_costs [OF that]] by simp
    from False Suc.prems s a have "(r1 \<noteq> Inr () \<and> st' = st1 \<and> isl r) \<or> (r1 = Inr () \<and> st' = st2)
        \<or> (isl r \<and> (\<exists>e b3. fire_error e st2 b2 = Some (st', b3)))"
      by (auto split: sum.splits RecvError.splits if_splits bind_splits)
    with c1 c2 err have "costs (unat count + (if isl r then 1 else 0)) (timeout t) st st'"
      by (auto simp: costs_def)
    then show ?thesis by (rule costs_mono) (auto split: sum.split)
  qed
qed simp

text \<open>The number of blocks sent at once: the window size in a build with debug assertions, and otherwise whatever a \<open>u16\<close> holds.\<close>

definition burst :: "bool \<Rightarrow> Window \<Rightarrow> nat" where
  "burst dbg w = (if dbg then unat (Window_size w) else 65535)"

lemma send_loop_costs:
  "send_loop dbg read_to t x = Some (r, x') \<Longrightarrow> k = Suc (length (inbox (xf_stream x))) \<Longrightarrow>
    costs (k * (5 * burst dbg (xf_window x)) + 1) (k * (5 * timeout t)) (xf_stream x) (xf_stream x')"
proof (induction dbg read_to t x arbitrary: k rule: send_loop.induct)
  case (1 dbg read_to t x)
  let ?u = "last_read_index x - last_acknowledged_index x" and ?B = "burst dbg (xf_window x)"
  from "1.prems"(1) have nd: "\<not> (dbg \<and> \<not> ?u \<le> Window_size (xf_window x))"
    by (auto simp: send_loop.simps [of dbg read_to t x] Let_def split: if_splits)
  with "1.prems"(1) obtain fr x1 where fw: "fill_window read_to x ?u = Some (fr, x1)"
    by (auto simp: send_loop.simps [of dbg read_to t x] Let_def split: option.splits)
  note fr = fill_window_frame [OF fw]
  show ?case
  proof (cases fr)
    case (Inl e)
    with "1.prems"(1) fw nd fr show ?thesis
      by (auto simp: send_loop.simps [of dbg read_to t x] Let_def split: if_splits)
  next
    case (Inr td)
    obtain to_send fin where td: "td = (to_send, fin)" by fastforce
    from "1.prems"(1) fw nd Inr td have nd2: "\<not> (dbg \<and> \<not> to_send \<le> Window_size (xf_window x1))"
      by (auto simp: send_loop.simps [of dbg read_to t x] Let_def split: if_splits)
    with "1.prems"(1) fw nd Inr td obtain r2 st2 b2 where sr:
      "send_reliably (xf_window x1) t (xf_stream x1) (xf_buffer x1) (last_acknowledged_index x1 + 1) to_send
        = Some (r2, st2, b2)"
      by (auto simp: send_loop.simps [of dbg read_to t x] Let_def split: option.splits)
    have "unat to_send \<le> 65535" using unat_u16_less [of to_send] by linarith
    then have "unat to_send \<le> ?B"
      using nd2 fr by (auto simp: burst_def word_le_nat_alt)
    then have B: "5 * unat to_send \<le> 5 * ?B" by simp
    have five: "unat SEND_ATTEMPTS = 5" by (simp add: SEND_ATTEMPTS_def)
    have c: "costs (5 * ?B + (case r2 of Inr _ \<Rightarrow> 0 | Inl _ \<Rightarrow> 1)) (5 * timeout t) (xf_stream x) st2"
      using costs_mono [OF send_attempts_costs [OF sr [unfolded send_reliably_def five]] add_le_mono1 [OF B] order_refl] fr by simp
    have once: "costs (k * (5 * ?B) + 1) (k * (5 * timeout t)) (xf_stream x) st2"
      by (rule costs_mono [OF c]) (use "1.prems"(2) in \<open>auto split: sum.split\<close>)
    show ?thesis
    proof (cases "(\<exists>ack. r2 = Inr ack) \<and> \<not> fin")
      case True
      then obtain ack where ack: "r2 = Inr ack" "\<not> fin" by blast
      let ?x2 = "x1\<lparr>xf_stream := st2, xf_buffer := b2, last_acknowledged_index := ack\<rparr>"
      have rec: "send_loop dbg read_to t ?x2 = Some (r, x')"
        using "1.prems"(1) nd fw Inr td nd2 sr ack by (simp add: send_loop.simps [of dbg read_to t x] Let_def)
      have less: "Suc (length (inbox st2)) \<le> k - 1" "burst dbg (xf_window x1) = ?B"
        using send_reliably_shrinks [OF sr [unfolded ack]] "1.prems"(2) fr by (simp_all add: burst_def)
      have "costs (Suc (length (inbox st2)) * (5 * ?B) + 1) (Suc (length (inbox st2)) * (5 * timeout t)) st2 (xf_stream x')"
        using "1.IH" [OF refl nd fw refl Inr td [symmetric] nd2 sr refl refl refl ack(1) refl ack(2), of "Suc (length (inbox st2))"] rec less
        by simp
      then have "costs ((k - 1) * (5 * ?B) + 1) ((k - 1) * (5 * timeout t)) st2 (xf_stream x')"
        by (rule costs_mono) (use less mult_le_mono1 [OF less(1)] in auto)
      from costs_trans [OF c this] "1.prems"(2) ack show ?thesis by (simp add: add.assoc)
    next
      case False
      with "1.prems"(1) nd fw Inr td nd2 sr have "xf_stream x' = st2"
        by (auto simp: send_loop.simps [of dbg read_to t x] Let_def split: sum.splits SendError.splits if_splits)
      with once show ?thesis by simp
    qed
  qed
qed

section \<open>The whole session\<close>

lemma oack_attempts_costs:
  "oack_attempts n k st t buf = Some (r, st', buf') \<Longrightarrow> costs (n + 1) (n * timeout t) st st'"
proof (induction n arbitrary: st buf)
  case 0
  then show ?case by (auto split: bind_splits dest: fire_error_costs)
next
  case (Suc n)
  obtain r1 st1 where s: "stream_send st (take k buf) = (r1, st1)" by fastforce
  with stream_send_costs [of st "take k buf"] have c1: "costs (Suc 0) 0 st st1" by simp
  obtain r2 st2 b2 where a: "read_acknowledge st1 buf t = (r2, st2, b2)" using prod_cases3 by blast
  from costs_trans [OF c1 read_acknowledge_costs [OF a]] have c2: "costs (Suc 0) (timeout t) st st2" by simp
  show ?case
  proof (cases "(\<exists>u. r1 = Inr u) \<and> r2 = Inl RecvTimeout")
    case True
    with Suc.prems s a have "oack_attempts n k st2 t b2 = Some (r, st', buf')" by auto
    from costs_trans [OF c2 Suc.IH [OF this]] show ?thesis by simp
  next
    case False
    with Suc.prems s a have "st' = st1 \<or> st' = st2 \<or> (\<exists>e b3. fire_error e st2 b2 = Some (st', b3))"
      by (auto split: sum.splits RecvError.splits if_splits bind_splits)
    then have "costs 2 (timeout t) st st'"
      using c1 c2 costs_trans [OF c2 fire_error_costs] by (auto simp: costs_def numeral_2_eq_2)
    then show ?thesis by (rule costs_mono) simp_all
  qed
qed

lemma negotiate_options_costs:
  assumes "negotiate_options get_size st f buf opts = Some (neg, st', f', buf')"
    and "t = or_default AckTimeout_default (AckTimeout_find_in opts)"
  shows "costs 6 (5 * timeout t) st st'"
proof -
  have five: "unat SEND_ATTEMPTS = 5" by (simp add: SEND_ATTEMPTS_def)
  show ?thesis
    using assms
    by (auto simp: negotiate_options_def negotiated_oack_eq send_oack_reliably_def five Let_def
        split: if_splits bind_splits sum.splits dest!: fire_error_costs oack_attempts_costs simp: costs_def)
qed

lemma negotiated_burst:
  assumes "negotiate_options get_size st f buf opts = Some (Some (w, t'), st', f', buf')"
  shows "t' = or_default AckTimeout_default (AckTimeout_find_in opts)"
    and "burst dbg w = (if dbg then WindowSize_get_size (or_default WindowSize_default (WindowSize_find_in opts)) else 65535)"
proof -
  have w: "w = Window_new (of_nat (Blksize_get_size (or_default Blksize_default (Blksize_find_in opts))))
      (of_nat (WindowSize_get_size (or_default WindowSize_default (WindowSize_find_in opts))))"
    and t: "t' = or_default AckTimeout_default (AckTimeout_find_in opts)"
    using assms by (auto simp: negotiate_options_def negotiated_oack_eq Let_def split: if_splits bind_splits sum.splits)
  from t show "t' = or_default AckTimeout_default (AckTimeout_find_in opts)" .
  from negotiated_window [OF w] unat_Window_size show
    "burst dbg w = (if dbg then WindowSize_get_size (or_default WindowSize_default (WindowSize_find_in opts)) else 65535)"
    by (simp add: burst_def)
qed

text \<open>Whatever happens at the socket, a session sends at most \<open>5 * burst\<close> datagrams for each event that happens
  there and once more, plus the options and two errors, and waits accordingly.\<close>

lemma send_costs:
  assumes "send dbg read_to get_size f st opts buf = Some st'"
    and "t = or_default AckTimeout_default (AckTimeout_find_in opts)"
    and "B = (if dbg then WindowSize_get_size (or_default WindowSize_default (WindowSize_find_in opts)) else 65535)"
  shows "costs (5 * B * (length (inbox st) + 1) + 8) (5 * timeout t * (length (inbox st) + 2)) st st'"
proof -
  from assms(1) obtain neg st1 f1 b1 where n: "negotiate_options get_size st f buf opts = Some (neg, st1, f1, b1)"
    by (auto simp: send_def split: bind_splits)
  note c1 = negotiate_options_costs [OF n assms(2)]
  show ?thesis
  proof (cases neg)
    case None
    with assms(1) n have "st' = st1" by (simp add: send_def)
    with c1 show ?thesis by (auto elim: costs_mono)
  next
    case (Some wt)
    obtain w t' where w: "neg = Some (w, t')" using Some by (cases wt) auto
    note b = negotiated_burst [OF n [unfolded w]]
    from assms(1) n w obtain r x where sf: "send_file dbg read_to f1 st1 w t' b1 = Some (r, x)"
      by (auto simp: send_def split: bind_splits)
    let ?k = "Suc (length (inbox st1))" and ?n = "Suc (length (inbox st))"
    have "costs (?k * (5 * B) + 1) (?k * (5 * timeout t)) st1 (xf_stream x)"
      using send_loop_costs [OF sf [unfolded send_file_def] refl] b assms(2,3) by simp
    moreover have "?k \<le> ?n" using c1 by (simp add: costs_def)
    ultimately have c2: "costs (?n * (5 * B) + 1) (?n * (5 * timeout t)) st1 (xf_stream x)"
      by (elim costs_mono) (simp_all del: mult_Suc)
    have "costs 1 0 (xf_stream x) st'"
      using assms(1) n w sf by (auto simp: send_def split: sum.splits dest: fire_error_costs)
    from costs_trans [OF costs_trans [OF c1 c2] this] show ?thesis by (simp add: algebra_simps)
  qed
qed

end
