(* ===== verification/Session_Guarantees.thy ===== *)
theory Session_Guarantees
  imports Example_Setting Peer_Refinement Session_Errors Peer_Traffic
begin

text \<open>
  What one download session guarantees: \<open>send\<close> and \<open>send_file\<close> of \<open>src/peer_handler/mod.rs\<close> over the two kinds of file. The
  lemmas behind are those of the locales \<open>opened_file\<close> and \<open>total_file\<close>, through their interpretations.
\<close>

section \<open>A download\<close>

lemma local_send_delivers:
  assumes "local_healthy f" "local_fresh f" "data = contents (rd f)" "length data < usize_modulus"
    and "negotiated_oack LocalOpenedFile_get_size f opts = (oack, t, b, ws, f')"
    and "N = block_count data (Blksize_get_size b)" "WindowSize_get_size ws = 1 \<or> N < 65536"
    and "if has_options oack then answers (peer_address st) 65535 0 0 hello else hello = []"
    and "delivers (peer_address st) 65535 (WindowSize_get_size ws) N 0 rounds"
    and "inbox st = hello @ concat (map snd rounds) @ later" "send_results st = []"
  shows "\<exists>st' blocks. send dbg LocalOpenedFile_read_to LocalOpenedFile_get_size f st opts (replicate 65535 0) = Some st'
    \<and> outbox st' = outbox st @ (if has_options oack then [oack_packet (oack_options oack)] else []) @ blocks
    \<and> blocks = delivered data (Blksize_get_size b) (WindowSize_get_size ws) N 0 rounds
    \<and> receive 1 blocks = data \<and> inbox st' = later"
proof -
  have "local_rest f = data" using assms(2,3) by (simp add: local_rest_def local_fresh_def)
  moreover have "0 < Blksize_get_size b" "WindowSize_get_size ws < 65536"
    using assms(5) negotiated_sizes [of opts] by (auto simp: negotiated_oack_eq)
  ultimately show ?thesis
    using local_file.session_delivers [OF assms(1,2) _ assms(5), of N st 65535 hello rounds later dbg]
      delivered_is_the_file [of "Blksize_get_size b" "WindowSize_get_size ws" "peer_address st" 65535 data rounds] assms
    by auto
qed

text \<open>
  \<^bold>\<open>C1.\<close> A session for a local file. The file is intact and just opened, the peer answers the option acknowledgement (if there is
  one) at once, and acknowledges every window after at most four timeouts, with any datagrams from elsewhere or runts in between; the
  window size is 1 or the file has fewer than 65536 blocks. Then \<open>send\<close> sends the acknowledgement of the options, every window
  as often as it timed out and once more, and a receiver that keeps the blocks in order has the file, byte for byte.
\<close>

theorem local_session_delivers:
  assumes "local_healthy f" "local_fresh f" "data = contents (rd f)" "length data < usize_modulus"
    and "negotiated_oack LocalOpenedFile_get_size f opts = (oack, t, b, ws, f')"
    and "N = block_count data (Blksize_get_size b)" "WindowSize_get_size ws = 1 \<or> N < 65536"
    and "if has_options oack then answers (peer_address st) 65535 0 0 hello else hello = []"
    and "delivers (peer_address st) 65535 (WindowSize_get_size ws) N 0 rounds"
    and "inbox st = hello @ concat (map snd rounds) @ later" "send_results st = []"
  shows "\<exists>st' blocks. send dbg LocalOpenedFile_read_to LocalOpenedFile_get_size f st opts (replicate 65535 0) = Some st'
    \<and> outbox st' = outbox st @ (if has_options oack then [oack_packet (oack_options oack)] else []) @ blocks
    \<and> blocks = delivered data (Blksize_get_size b) (WindowSize_get_size ws) N 0 rounds
    \<and> receive 1 blocks = data \<and> inbox st' = later"
  by (rule local_send_delivers [OF assms])

theorem local_session_delivers_witness:
  "\<exists>st' blocks. send True LocalOpenedFile_read_to LocalOpenedFile_get_size
      \<lparr>rd = \<lparr>contents = [1, 2, 3, 4, 5, 6, 7, 8, 9], pos = 0, read_plan = [], seek_error = None\<rparr>, lf_display = []\<rparr>
      (DatagramStream_new [Arrives (V4 10 0 0 1, 2000) [0, 4, 0, 0], Arrives (V4 10 0 0 1, 2000) [0, 4, 0, 1],
         Elapses, Arrives (V4 10 0 0 9, 7) [1], Arrives (V4 10 0 0 1, 2000) [0, 4, 0, 2]] [] (V4 10 0 0 1, 2000))
      (map_of [(BLKSIZE, str ''8'')]) (replicate 65535 0) = Some st'
    \<and> outbox st' = [] @ (if has_options \<lparr>oack_options = [(BLKSIZE, str ''8'')]\<rparr>
        then [oack_packet (oack_options \<lparr>oack_options = [(BLKSIZE, str ''8'')]\<rparr>)] else []) @ blocks
    \<and> blocks = delivered [1, 2, 3, 4, 5, 6, 7, 8, 9] 8 1 2 0
        [(0, [Arrives (V4 10 0 0 1, 2000) [0, 4, 0, 1]]),
         (1, [Elapses, Arrives (V4 10 0 0 9, 7) [1], Arrives (V4 10 0 0 1, 2000) [0, 4, 0, 2]])]
    \<and> receive 1 blocks = [1, 2, 3, 4, 5, 6, 7, 8, 9] \<and> inbox st' = []"
proof -
  let ?f = "\<lparr>rd = \<lparr>contents = [1, 2, 3, 4, 5, 6, 7, 8, 9], pos = 0, read_plan = [], seek_error = None\<rparr>, lf_display = []\<rparr>"
  let ?o = "map_of [(BLKSIZE, str ''8'')]"
  have n: "negotiated_oack LocalOpenedFile_get_size ?f ?o
      = (\<lparr>oack_options = [(BLKSIZE, str ''8'')]\<rparr>, \<lparr>timeout = 5\<rparr>, \<lparr>block_size = 8\<rparr>, WindowSize 1, ?f)"
    by (simp add: negotiated_oack_eq option_list_def or_default_def obtained_tsize_def TSize_is_requested_def
        AckTimeout_find_in_def Blksize_find_in_def WindowSize_find_in_def parse_usize_def str_def is_digit_def
        usize_modulus_def BLKSIZE_def TIMEOUT_def WINDOW_SIZE_def TSIZE_def AckTimeout_default_def
        WindowSize_default_def Blksize_as_key_pair_def BLOCK_SIZE_BOTTOM_CAP_def BLOCK_SIZE_UPPER_CAP_def
        usize_to_string.simps digit_byte_def)
  have a: "ack_packet 0 = [0, 4, 0, 0]" "ack_packet 1 = [0, 4, 0, 1]" "ack_packet 2 = [0, 4, 0, 2]"
    by (simp_all add: ack_packet_def be_bytes_def ACK_def)
  let ?st = "DatagramStream_new [Arrives (V4 10 0 0 1, 2000) [0, 4, 0, 0], Arrives (V4 10 0 0 1, 2000) [0, 4, 0, 1],
         Elapses, Arrives (V4 10 0 0 9, 7) [1], Arrives (V4 10 0 0 1, 2000) [0, 4, 0, 2]] [] (V4 10 0 0 1, 2000)"
  let ?rounds = "[(0, [Arrives (V4 10 0 0 1, 2000) [0, 4, 0, 1]]),
         (1, [Elapses, Arrives (V4 10 0 0 9, 7) [1], Arrives (V4 10 0 0 1, 2000) [0, 4, 0, 2]])]"
  have d: "delivers (V4 10 0 0 1, 2000) 65535 1 2 0 ?rounds"
    using a by (simp add: SEND_ATTEMPTS_def)
  have "local_healthy ?f" "local_fresh ?f" "length (contents (rd ?f)) < usize_modulus"
    "2 = block_count (contents (rd ?f)) (Blksize_get_size \<lparr>block_size = 8\<rparr>)"
    by (simp_all add: local_healthy_def local_fresh_def usize_modulus_def block_count_def Blksize_get_size_def)
  from local_session_delivers [OF this(1,2) refl this(3) n this(4), of ?st "[Arrives (V4 10 0 0 1, 2000) [0, 4, 0, 0]]"
      ?rounds "[]" True] a d
  show ?thesis
    by (simp only: Blksize_get_size_def WindowSize_get_size_def) (simp add: DatagramStream_new_def has_options_def del: delivers.simps delivered.simps receive.simps)
qed

lemma remote_send_delivers:
  assumes "remote_healthy lib data f" "remote_fresh f" "length data < usize_modulus"
    and "negotiated_oack FileReader_get_size f opts = (oack, t, b, ws, f')"
    and "N = block_count data (Blksize_get_size b)" "WindowSize_get_size ws = 1 \<or> N < 65536"
    and "if has_options oack then answers (peer_address st) 65535 0 0 hello else hello = []"
    and "delivers (peer_address st) 65535 (WindowSize_get_size ws) N 0 rounds"
    and "inbox st = hello @ concat (map snd rounds) @ later" "send_results st = []"
  shows "\<exists>st' blocks. send dbg (FileReader_read_to lib) FileReader_get_size f st opts (replicate 65535 0) = Some st'
    \<and> outbox st' = outbox st @ (if has_options oack then [oack_packet (oack_options oack)] else []) @ blocks
    \<and> blocks = delivered data (Blksize_get_size b) (WindowSize_get_size ws) N 0 rounds
    \<and> receive 1 blocks = data \<and> inbox st' = later"
proof -
  have "remote_rest data f = data" using assms(2) by (simp add: remote_rest_def remote_fresh_def)
  moreover have "0 < Blksize_get_size b" "WindowSize_get_size ws < 65536"
    using assms(4) negotiated_sizes [of opts] by (auto simp: negotiated_oack_eq)
  ultimately show ?thesis
    using remote_file.session_delivers [OF assms(1,2) _ assms(4), of N st 65535 hello rounds later dbg]
      delivered_is_the_file [of "Blksize_get_size b" "WindowSize_get_size ws" "peer_address st" 65535 data rounds] assms
    by auto
qed

text \<open>
  \<^bold>\<open>C2.\<close> The same for a file on the remote disk, read through libguestfs in chunks of any size, when the library serves the
  file as documented (\<open>serves\<close>).
\<close>

theorem remote_session_delivers:
  assumes "remote_healthy lib data f" "remote_fresh f" "length data < usize_modulus"
    and "negotiated_oack FileReader_get_size f opts = (oack, t, b, ws, f')"
    and "N = block_count data (Blksize_get_size b)" "WindowSize_get_size ws = 1 \<or> N < 65536"
    and "if has_options oack then answers (peer_address st) 65535 0 0 hello else hello = []"
    and "delivers (peer_address st) 65535 (WindowSize_get_size ws) N 0 rounds"
    and "inbox st = hello @ concat (map snd rounds) @ later" "send_results st = []"
  shows "\<exists>st' blocks. send dbg (FileReader_read_to lib) FileReader_get_size f st opts (replicate 65535 0) = Some st'
    \<and> outbox st' = outbox st @ (if has_options oack then [oack_packet (oack_options oack)] else []) @ blocks
    \<and> blocks = delivered data (Blksize_get_size b) (WindowSize_get_size ws) N 0 rounds
    \<and> receive 1 blocks = data \<and> inbox st' = later"
  by (rule remote_send_delivers [OF assms])

theorem remote_session_delivers_witness:
  "\<exists>st' blocks. send False (FileReader_read_to (memory_disk [1, 2, 3, 4, 5])) FileReader_get_size
      \<lparr>fr_handle = \<lparr>gfs_handle = (), events = []\<rparr>, fr_path = str ''/boot/k'', file_size = 5, current_offset = 0,
       fr_chunk = FileChunk_new [1, 2, 3, 4], fr_display = []\<rparr>
      (DatagramStream_new [Arrives (V4 10 0 0 1, 2000) [0, 4, 0, 1]] [] (V4 10 0 0 1, 2000))
      Map.empty (replicate 65535 0) = Some st'
    \<and> outbox st' = [] @ (if has_options \<lparr>oack_options = []\<rparr>
        then [oack_packet (oack_options \<lparr>oack_options = []\<rparr>)] else []) @ blocks
    \<and> blocks = delivered [1, 2, 3, 4, 5] 512 1 1 0 [(0, [Arrives (V4 10 0 0 1, 2000) [0, 4, 0, 1]])]
    \<and> receive 1 blocks = [1, 2, 3, 4, 5] \<and> inbox st' = []"
proof -
  let ?f = "\<lparr>fr_handle = \<lparr>gfs_handle = (), events = []\<rparr>, fr_path = str ''/boot/k'', file_size = 5, current_offset = 0,
       fr_chunk = FileChunk_new [1, 2, 3, 4], fr_display = []\<rparr>"
  have n: "negotiated_oack FileReader_get_size ?f Map.empty
      = (\<lparr>oack_options = []\<rparr>, \<lparr>timeout = 5\<rparr>, \<lparr>block_size = 512\<rparr>, WindowSize 1, ?f)"
    by (simp add: negotiated_oack_eq option_list_def or_default_def obtained_tsize_def TSize_is_requested_def
        AckTimeout_find_in_def Blksize_find_in_def WindowSize_find_in_def AckTimeout_default_def
        Blksize_default_def WindowSize_default_def)
  have h: "remote_healthy (memory_disk [1, 2, 3, 4, 5]) [1, 2, 3, 4, 5] ?f"
    using memory_disk_serves [of "[1, 2, 3, 4, 5]" "str ''/boot/k''"]
    by (simp add: remote_healthy_def FileChunk_new_def remote_rest_def str_def)
  show ?thesis
    using remote_session_delivers [OF h _ _ n, of 1
        "DatagramStream_new [Arrives (V4 10 0 0 1, 2000) [0, 4, 0, 1]] [] (V4 10 0 0 1, 2000)" "[]"
        "[(0, [Arrives (V4 10 0 0 1, 2000) [0, 4, 0, 1]])]" "[]" False]
    by (simp add: remote_fresh_def usize_modulus_def block_count_def Blksize_get_size_def ack_packet_def be_bytes_def ACK_def
        WindowSize_get_size_def has_options_def DatagramStream_new_def SEND_ATTEMPTS_def)
qed

text \<open>
  \<^bold>\<open>C13.\<close> Whatever the peer sends, and whether sends fail or not: every datagram that a transfer sends is a block of the file under
  its own number, or the error for an acknowledgement behind the window.
\<close>

theorem transfer_sends_only_file_blocks:
  assumes "local_healthy f" "window_wf w" "0 < win_block_size w"
  shows "case send_file dbg LocalOpenedFile_read_to f st w t buf of
      None \<Rightarrow> True
    | Some (r, x) \<Rightarrow> \<exists>sent. outbox (xf_stream x) = outbox st @ sent
        \<and> (\<forall>p \<in> set sent. file_packet (local_rest f) (unat (win_block_size w)) p \<or> stale_ack_packet p)"
  using local_file.send_file_packets [OF assms(1,2) refl, of dbg st t buf] assms(3)
  by (auto simp: word_less_nat_alt split: option.splits)

theorem transfer_sends_only_file_blocks_witness:
  "case send_file True LocalOpenedFile_read_to
      \<lparr>rd = \<lparr>contents = [1, 2, 3], pos = 0, read_plan = [], seek_error = None\<rparr>, lf_display = []\<rparr>
      (DatagramStream_new [Arrives (V4 10 0 0 1, 9) [0, 4, 0, 0]] [] (V4 10 0 0 1, 9)) (Window_new 8 3) \<lparr>timeout = 1\<rparr> [] of
      None \<Rightarrow> True
    | Some (r, x) \<Rightarrow> \<exists>sent. outbox (xf_stream x) = outbox (DatagramStream_new [Arrives (V4 10 0 0 1, 9) [0, 4, 0, 0]] [] (V4 10 0 0 1, 9)) @ sent
        \<and> (\<forall>p \<in> set sent. file_packet (local_rest \<lparr>rd = \<lparr>contents = [1, 2, 3], pos = 0, read_plan = [], seek_error = None\<rparr>, lf_display = []\<rparr>)
            (unat (win_block_size (Window_new 8 3))) p \<or> stale_ack_packet p)"
  by (rule transfer_sends_only_file_blocks) (simp_all add: local_healthy_def window_wf_new)


text \<open>
  \<^bold>\<open>C15.\<close> To a peer that never answers, the first window is sent five times; the transfer ends with the error
  \<open>Send timeout occurred\<close> after five timeouts.
\<close>

theorem silent_peer_is_given_up:
  assumes "local_healthy f" "window_wf w" "0 < win_block_size w" "inbox st = []" "send_results st = []"
    and "m = min (length (buffers w)) (block_count (local_rest f) (unat (win_block_size w)))"
  shows "\<exists>x. send_file dbg LocalOpenedFile_read_to f st w t buf
      = Some (Inl (undefined_error ''Send timeout occurred''), x)
    \<and> outbox (xf_stream x) = outbox st
        @ concat (replicate 5 (map (data_packet (local_rest f) (unat (win_block_size w))) [1..<Suc m]))
    \<and> waited (xf_stream x) = waited st + 5 * timeout t"
  using local_file.send_file_silent [OF assms(1,2) refl _ assms(6,4,5), of dbg t buf] assms(3)
  by (simp add: word_less_nat_alt SEND_ATTEMPTS_def del: upt_Suc)

theorem silent_peer_is_given_up_witness:
  "\<exists>x. send_file True LocalOpenedFile_read_to
      \<lparr>rd = \<lparr>contents = [1, 2, 3], pos = 0, read_plan = [], seek_error = None\<rparr>, lf_display = []\<rparr>
      (DatagramStream_new [] [] (V4 10 0 0 1, 9)) (Window_new 8 3) \<lparr>timeout = 2\<rparr> []
      = Some (Inl (undefined_error ''Send timeout occurred''), x)
    \<and> outbox (xf_stream x) = concat (replicate 5 [[0, 3, 0, 1, 1, 2, 3]]) \<and> waited (xf_stream x) = 10"
  using silent_peer_is_given_up [of
      "\<lparr>rd = \<lparr>contents = [1, 2, 3], pos = 0, read_plan = [], seek_error = None\<rparr>, lf_display = []\<rparr>"
      "Window_new 8 3" "DatagramStream_new [] [] (V4 10 0 0 1, 9)" 1 True "\<lparr>timeout = 2\<rparr>" "[]"]
  by (simp add: local_healthy_def window_wf_new DatagramStream_new_def local_rest_def block_count_def
      data_packet_def chunk_def be_bytes_def DATA_def)

text \<open>
  \<^bold>\<open>C16.\<close> In a build without debug assertions no behaviour of the peer, of the network or of the file makes a session for a local
  file panic: \<open>send\<close> returns.
\<close>

theorem local_session_never_panics:
  assumes "length (contents (rd f)) < usize_modulus"
  shows "\<exists>st'. send False LocalOpenedFile_read_to LocalOpenedFile_get_size f st opts (replicate 65535 0) = Some st'"
  by (rule local_total.session_runs) (simp add: local_safe_def assms)

theorem local_session_never_panics_witness:
  "\<exists>st'. send False LocalOpenedFile_read_to LocalOpenedFile_get_size
      \<lparr>rd = \<lparr>contents = [1, 2, 3], pos = 2, read_plan = [Inl (io_kind NotFound)], seek_error = None\<rparr>, lf_display = []\<rparr>
      (DatagramStream_new [Arrives (V4 10 0 0 1, 9) [0, 5, 0, 0]] [Inr 3] (V4 10 0 0 1, 9))
      (map_of [(TSIZE, str ''0'')]) (replicate 65535 0) = Some st'"
  by (rule local_session_never_panics) (simp add: usize_modulus_def)

section \<open>The transfer as an abstract sender\<close>

text \<open>
  \<^bold>\<open>C9.\<close> A transfer of a local file is the abstract \<open>sender\<close>, for every behaviour of the peer and of the network: the blocks cut out of the
  file's bytes and counted by natural numbers, each window offered up to five times. Whenever the abstract sender ends, \<open>send_file\<close> ends with
  the same result, the same datagrams sent and the same events left; when a block is acknowledged that was never sent, which the abstract sender
  excludes, a build with debug assertions panics. The file has fewer than 65536 blocks.
\<close>

theorem local_transfer_refines_sender:
  assumes "local_healthy f" "window_wf w" "bs = unat (win_block_size w)" "0 < bs" "block_count (local_rest f) bs < 65536"
  shows "case sender (local_rest f) bs (length (buffers w)) t 0 st buf of
      Some (r, st', buf') \<Rightarrow>
        \<exists>x. send_file dbg LocalOpenedFile_read_to f st w t buf = Some (r, x) \<and> xf_stream x = st' \<and> xf_buffer x = buf'
    | None \<Rightarrow> dbg \<longrightarrow> send_file dbg LocalOpenedFile_read_to f st w t buf = None"
  by (rule local_file.send_file_refines [OF assms])

theorem local_transfer_refines_sender_witness:
  "case sender [1, 2, 3, 4, 5, 6, 7, 8, 9] 8 2 \<lparr>timeout = 1\<rparr> 0
      (DatagramStream_new [Arrives (V4 10 0 0 1, 9) (ack_packet 2)] [] (V4 10 0 0 1, 9)) [0, 0, 0, 0] of
      Some (r, st', buf') \<Rightarrow>
        \<exists>x. send_file True LocalOpenedFile_read_to (sample_file [1, 2, 3, 4, 5, 6, 7, 8, 9] [])
            (DatagramStream_new [Arrives (V4 10 0 0 1, 9) (ack_packet 2)] [] (V4 10 0 0 1, 9))
            (Window_new 8 2) \<lparr>timeout = 1\<rparr> [0, 0, 0, 0] = Some (r, x) \<and> xf_stream x = st' \<and> xf_buffer x = buf'
    | None \<Rightarrow> send_file True LocalOpenedFile_read_to (sample_file [1, 2, 3, 4, 5, 6, 7, 8, 9] [])
            (DatagramStream_new [Arrives (V4 10 0 0 1, 9) (ack_packet 2)] [] (V4 10 0 0 1, 9))
            (Window_new 8 2) \<lparr>timeout = 1\<rparr> [0, 0, 0, 0] = None"
proof -
  let ?f = "sample_file [1, 2, 3, 4, 5, 6, 7, 8, 9] []"
  have f: "local_healthy ?f" "local_rest ?f = [1, 2, 3, 4, 5, 6, 7, 8, 9]"
    by (simp_all add: sample_file_def local_healthy_def local_rest_def)
  have w: "window_wf (Window_new 8 2)" "8 = unat (win_block_size (Window_new 8 2))" "(0 :: nat) < 8"
    "block_count (local_rest ?f) 8 < 65536" "length (buffers (Window_new 8 2)) = 2"
    unfolding f(2) by (simp_all add: window_wf_new block_count_def)
  show ?thesis
    using local_transfer_refines_sender [OF f(1) w(1-4), where dbg = True and t = "\<lparr>timeout = 1\<rparr>" and buf = "[0, 0, 0, 0]"
        and st = "DatagramStream_new [Arrives (V4 10 0 0 1, 9) (ack_packet 2)] [] (V4 10 0 0 1, 9)"]
    unfolding f(2) w(5) by (simp only: simp_thms)
qed

text \<open>
  \<^bold>\<open>C10.\<close> The same for a file on the remote disk that libguestfs serves as documented, read in chunks of any size.
\<close>

theorem remote_transfer_refines_sender:
  assumes "remote_healthy lib data f" "remote_fresh f" "window_wf w" "bs = unat (win_block_size w)" "0 < bs"
    and "block_count data bs < 65536"
  shows "case sender data bs (length (buffers w)) t 0 st buf of
      Some (r, st', buf') \<Rightarrow>
        \<exists>x. send_file dbg (FileReader_read_to lib) f st w t buf = Some (r, x) \<and> xf_stream x = st' \<and> xf_buffer x = buf'
    | None \<Rightarrow> dbg \<longrightarrow> send_file dbg (FileReader_read_to lib) f st w t buf = None"
proof -
  have "remote_rest data f = data" using assms(2) by (simp add: remote_rest_def remote_fresh_def)
  with remote_file.send_file_refines [OF assms(1,3-5), where t = t and st = st and buf = buf and dbg = dbg] assms(6)
  show ?thesis by (simp only: simp_thms)
qed

theorem remote_transfer_refines_sender_witness:
  "case sender [1, 2, 3, 4, 5] 8 2 \<lparr>timeout = 1\<rparr> 0 (DatagramStream_new [] [] (V4 10 0 0 1, 9)) [0, 0, 0, 0] of
      Some (r, st', buf') \<Rightarrow>
        \<exists>x. send_file True (FileReader_read_to (memory_disk [1, 2, 3, 4, 5])) (sample_reader [1, 2, 3, 4, 5])
            (DatagramStream_new [] [] (V4 10 0 0 1, 9)) (Window_new 8 2) \<lparr>timeout = 1\<rparr> [0, 0, 0, 0] = Some (r, x)
          \<and> xf_stream x = st' \<and> xf_buffer x = buf'
    | None \<Rightarrow> send_file True (FileReader_read_to (memory_disk [1, 2, 3, 4, 5])) (sample_reader [1, 2, 3, 4, 5])
            (DatagramStream_new [] [] (V4 10 0 0 1, 9)) (Window_new 8 2) \<lparr>timeout = 1\<rparr> [0, 0, 0, 0] = None"
proof -
  have w: "window_wf (Window_new 8 2)" "8 = unat (win_block_size (Window_new 8 2))" "(0 :: nat) < 8"
    "block_count [1 :: byte, 2, 3, 4, 5] 8 < 65536" "length (buffers (Window_new 8 2)) = 2"
    by (simp_all add: window_wf_new block_count_def)
  have h: "remote_healthy (memory_disk [1, 2, 3, 4, 5]) [1, 2, 3, 4, 5] (sample_reader [1, 2, 3, 4, 5])"
    by (rule sample_reader_healthy) simp
  show ?thesis
    using remote_transfer_refines_sender [OF h sample_reader_healthy(2) w(1-4), where dbg = True and t = "\<lparr>timeout = 1\<rparr>"
        and buf = "[0, 0, 0, 0]" and st = "DatagramStream_new [] [] (V4 10 0 0 1, 9)"]
    unfolding w(5) by (simp only: simp_thms)
qed



section \<open>Sessions that fail\<close>

text \<open>
  \<^bold>\<open>C17.\<close> In a build without debug assertions a session for a remote file does not panic either, whatever the peer, the network and libguestfs do, as
  long as the path of the file has no NUL, its size fits the machine and the messages of libguestfs are UTF-8.
\<close>

theorem remote_session_never_panics:
  assumes "remote_safe lib f"
  shows "\<exists>st'. send False (FileReader_read_to lib) FileReader_get_size f st opts (replicate 65535 0) = Some st'"
  by (rule remote_total.session_runs [OF assms])

theorem remote_session_never_panics_witness:
  "\<exists>st'. send False (FileReader_read_to ((memory_disk [1, 2, 3])\<lparr>guestfs_pread := (\<lambda>_ _ _ h. (None, [], h))\<rparr>)) FileReader_get_size
      (sample_reader [1, 2, 3]) (DatagramStream_new [Arrives (V4 10 0 0 1, 9) [0, 5, 0, 0]] [Inr 3] (V4 10 0 0 1, 9))
      (map_of [(TSIZE, str ''0'')]) (replicate 65535 0) = Some st'"
  by (rule remote_session_never_panics)
    (simp add: remote_safe_def sample_reader_def FileChunk_new_def memory_disk_def usize_modulus_def str_def)

text \<open>
  \<^bold>\<open>C18.\<close> A peer that never answers the option acknowledgement gets it five times, then the error \<open>Send timeout occurred\<close>, but for its
  terminator; the session ends after five timeouts and no block of the file is sent.
\<close>

theorem unanswered_options_end_the_session:
  assumes "negotiated_oack LocalOpenedFile_get_size f opts = (oack, t, b, ws, f')" "has_options oack"
    and "length (contents (rd f)) < usize_modulus" "inbox st = []" "send_results st = []"
  shows "\<exists>st' z. send dbg LocalOpenedFile_read_to LocalOpenedFile_get_size f st opts (replicate 65535 0) = Some st'
    \<and> outbox st' = outbox st @ replicate 5 (oack_packet (oack_options oack))
        @ [butlast (error_packet (undefined_error ''Send timeout occurred'')) @ [z]]
    \<and> waited st' = waited st + 5 * timeout t"
proof -
  have "\<forall>n g. LocalOpenedFile_get_size f = (Inr n, g) \<longrightarrow> n < usize_modulus"
    using local_total.get_size_safe [of f] assms(3) by (auto simp: local_safe_def)
  from send_unanswered_options [OF assms(1,2) this assms(4,5)] show ?thesis .
qed

theorem unanswered_options_end_the_session_witness:
  "\<exists>st' z. send True LocalOpenedFile_read_to LocalOpenedFile_get_size (sample_file [1, 2, 3] [])
      (DatagramStream_new [] [] (V4 10 0 0 1, 9)) (map_of [(BLKSIZE, str ''8'')]) (replicate 65535 0) = Some st'
    \<and> outbox st' = [] @ replicate 5 (oack_packet [(BLKSIZE, str ''8'')])
        @ [butlast (error_packet (undefined_error ''Send timeout occurred'')) @ [z]]
    \<and> waited st' = 0 + 5 * 5"
proof -
  let ?st = "DatagramStream_new [] [] (V4 10 0 0 1, 9)"
  have st: "inbox ?st = []" "send_results ?st = []" "outbox ?st = []" "waited ?st = 0" by (simp_all add: DatagramStream_new_def)
  have f: "length (contents (rd (sample_file [1, 2, 3] []))) < usize_modulus" by (simp add: sample_file_def usize_modulus_def)
  have o: "has_options \<lparr>oack_options = [(BLKSIZE, str ''8'')]\<rparr>" by (simp add: has_options_def)
  show ?thesis
    using unanswered_options_end_the_session [OF blksize_only o f st(1,2), of True] unfolding st(3,4) by simp
qed

text \<open>
  When the first datagram of the peer after the option acknowledgement is not the acknowledgement of block 0, the session ends there and
  no block of the file is sent; for an acknowledgement of another block the peer gets the error \<open>Unexpected non-zero ACK\<close>, but for its
  terminator.
\<close>

lemma refused_options_end_the_session:
  assumes "negotiated_oack LocalOpenedFile_get_size f opts = (oack, t, b, ws, f')" "has_options oack"
    and "length (contents (rd f)) < usize_modulus" "send_results st = []"
    and "inbox st = skipped @ Arrives (peer_address st) d # later" "4 \<le> length d" "length d \<le> 65535"
    and "list_all (ignorable (peer_address st) 65535 4) skipped" "take 4 d \<noteq> ack_packet 0"
  shows "\<exists>st' z. send dbg LocalOpenedFile_read_to LocalOpenedFile_get_size f st opts (replicate 65535 0) = Some st' \<and> inbox st' = later
    \<and> outbox st' = outbox st @ oack_packet (oack_options oack) # (if take 2 d = be_bytes ACK
        then [butlast (error_packet (undefined_error ''Unexpected non-zero ACK'')) @ [z]] else [])"
proof -
  have "\<forall>n g. LocalOpenedFile_get_size f = (Inr n, g) \<longrightarrow> n < usize_modulus"
    using local_total.get_size_safe [of f] assms(3) by (auto simp: local_safe_def)
  from send_refused_options [OF assms(1,2) this assms(5-9,4)] show ?thesis .
qed

lemma refused_options_end_the_session_witness:
  "\<exists>st' z. send True LocalOpenedFile_read_to LocalOpenedFile_get_size (sample_file [1, 2, 3] [])
      (DatagramStream_new [Arrives (V4 6 6 6 6, 6) [1, 2, 3, 4], Arrives (V4 10 0 0 1, 9) ([0, 5, 0, 8] @ str ''no'' @ [0]), Elapses] []
        (V4 10 0 0 1, 9)) (map_of [(BLKSIZE, str ''8'')]) (replicate 65535 0) = Some st' \<and> inbox st' = [Elapses]
    \<and> outbox st' = [] @ oack_packet [(BLKSIZE, str ''8'')] # []"
proof -
  let ?d = "[0, 5, 0, 8] @ str ''no'' @ [0] :: bytes"
  let ?st = "DatagramStream_new [Arrives (V4 6 6 6 6, 6) [1, 2, 3, 4], Arrives (V4 10 0 0 1, 9) ?d, Elapses] [] (V4 10 0 0 1, 9)"
  have st: "send_results ?st = []" "inbox ?st = [Arrives (V4 6 6 6 6, 6) [1, 2, 3, 4]] @ Arrives (peer_address ?st) ?d # [Elapses]"
    "4 \<le> length ?d" "length ?d \<le> 65535" "list_all (ignorable (peer_address ?st) 65535 4) [Arrives (V4 6 6 6 6, 6) [1, 2, 3, 4]]"
    "take 4 ?d \<noteq> ack_packet 0" "outbox ?st = []" "take 2 ?d \<noteq> be_bytes ACK"
    by (simp_all add: DatagramStream_new_def ack_packet_def)
  have f: "length (contents (rd (sample_file [1, 2, 3] []))) < usize_modulus" by (simp add: sample_file_def usize_modulus_def)
  have o: "has_options \<lparr>oack_options = [(BLKSIZE, str ''8'')]\<rparr>" by (simp add: has_options_def)
  show ?thesis
    using refused_options_end_the_session [OF blksize_only o f st(1-6), of True] st(8) unfolding st(7) by auto
qed

text \<open>
  \<^bold>\<open>C19.\<close> When the first read of the file fails and no option was accepted, the peer gets exactly one datagram, the error
  \<open>Read file error occurred\<close>.
\<close>

theorem unreadable_file_is_reported:
  assumes "read_plan (rd f) = Inl e # plan" "negotiated_oack LocalOpenedFile_get_size f opts = (oack, t, b, ws, f')"
    and "\<not> has_options oack" "send_results st = []"
  shows "\<exists>st'. send dbg LocalOpenedFile_read_to LocalOpenedFile_get_size f st opts (replicate 65535 0) = Some st'
    \<and> outbox st' = outbox st @ [error_packet (undefined_error ''Read file error occurred'')] \<and> inbox st' = inbox st"
proof -
  have "read_plan (rd f') = Inl e # plan"
    using assms(1,2) local_get_size_plan [of f]
    by (auto simp: negotiated_oack_eq TSize_obtain_def split: if_splits sum.splits prod.splits)
  then have "\<forall>buf. \<exists>e g buf'. LocalOpenedFile_read_to f' buf = Some (Inl e, g, buf')"
    by (auto simp: LocalOpenedFile_read_to_def File_read_def Let_def)
  from send_unreadable_file [where read_to = LocalOpenedFile_read_to, OF assms(2,3) this assms(4)] show ?thesis .
qed

theorem unreadable_file_is_reported_witness:
  "\<exists>st'. send True LocalOpenedFile_read_to LocalOpenedFile_get_size (sample_file [1, 2, 3] [Inl (io_kind NotFound)])
      (DatagramStream_new [] [] (V4 10 0 0 1, 9)) Map.empty (replicate 65535 0) = Some st'
    \<and> outbox st' = [] @ [error_packet (undefined_error ''Read file error occurred'')] \<and> inbox st' = []"
proof -
  let ?f = "sample_file [1, 2, 3] [Inl (io_kind NotFound)]" and ?st = "DatagramStream_new [] [] (V4 10 0 0 1, 9)"
  have n: "negotiated_oack LocalOpenedFile_get_size ?f Map.empty
      = (\<lparr>oack_options = []\<rparr>, \<lparr>timeout = 5\<rparr>, \<lparr>block_size = 512\<rparr>, WindowSize 1, ?f)"
    by (rule no_options)
  have f: "read_plan (rd ?f) = Inl (io_kind NotFound) # []" "\<not> has_options \<lparr>oack_options = []\<rparr>"
    by (simp_all add: sample_file_def has_options_def)
  have st: "send_results ?st = []" "outbox ?st = []" "inbox ?st = []" by (simp_all add: DatagramStream_new_def)
  show ?thesis using unreadable_file_is_reported [OF f(1) n f(2) st(1), of True] unfolding st(2,3) .
qed



end
