(* ===== verification/Shared_Sessions.thy ===== *)
theory Shared_Sessions
  imports Session_Guarantees
begin

text \<open>
  Sessions of one peer on one NBD disk. They share the libguestfs handle, and their reads interleave (\<open>Shared_Disk\<close>). A session in such
  company still has a file in the sense of \<open>opened_file\<close>, so that everything proved in that locale holds for it.
\<close>

section \<open>A reader in company\<close>








section \<open>Properties\<close>





text \<open>
  So every session gets its own file: whatever else happens on the shared handle before and after, the reader of an opened file
  returns the bytes of that file in order, as many as were asked for, until the file is exhausted.
\<close>

lemma every_reader_gets_its_file:
  assumes "stable lib files (gfs_handle (cd_handle (rr_disk root)))" "files (path_join (chroot_path root) path) = Some data"
    and "schedule = before @ CallOpen path # later" "list_all (call_path_ok (chroot_path root)) schedule"
  shows "\<exists>replies s i. shared_calls lib schedule \<lparr>sd_root = root, sd_readers = []\<rparr> = Some (replies, s)
    \<and> replies ! length before = Opened i
    \<and> bytes_of_reader i later (drop (Suc (length before)) replies) = take (asked_of_reader i later) data"
  using shared_calls_refine [of lib files "[]" "\<lparr>sd_root = root, sd_readers = []\<rparr>" schedule] assms(1,4)
    table_opened_reader [where files = files and cs = before and ds = later, OF assms(2) refl refl, of "[]"] assms(3)
  by (fastforce simp: shared_inv_def shared_handle_def)

lemma every_reader_gets_its_file_witness:
  "\<exists>replies s i. shared_calls (memory_files [str ''/boot/a'' \<mapsto> [1, 2, 3, 4, 5, 6], str ''/boot/b'' \<mapsto> [7, 8]])
      [CallOpen (str ''b''), CallOpen (str ''a''), CallRead 0 5, CallRead 1 5, CallRead 0 5, CallRead 1 5]
      \<lparr>sd_root = RemoteRoot_new (ConnectedDisk_new \<lparr>gfs_handle = (), events = []\<rparr> (str ''nbd://h/e'')) (str ''/boot''), sd_readers = []\<rparr>
      = Some (replies, s)
    \<and> replies ! 1 = Opened i
    \<and> bytes_of_reader i [CallRead 0 5, CallRead 1 5, CallRead 0 5, CallRead 1 5] (drop 2 replies)
        = take (asked_of_reader i [CallRead 0 5, CallRead 1 5, CallRead 0 5, CallRead 1 5]) [1, 2, 3, 4, 5, 6]"
proof -
  let ?files = "[str ''/boot/a'' \<mapsto> [1, 2, 3, 4, 5, 6], str ''/boot/b'' \<mapsto> [7, 8]] :: rstr \<rightharpoonup> bytes"
  let ?root = "RemoteRoot_new (ConnectedDisk_new \<lparr>gfs_handle = (), events = []\<rparr> (str ''nbd://h/e'')) (str ''/boot'') :: unit RemoteRoot"
  let ?later = "[CallRead 0 5, CallRead 1 5, CallRead 0 5, CallRead 1 5]"
  have "stable (memory_files ?files) ?files ()" by (rule memory_files_stable) (auto simp: ran_def split: if_splits)
  moreover have "?files (path_join (chroot_path ?root) (str ''a'')) = Some [1, 2, 3, 4, 5, 6]" by code_simp
  moreover have "list_all (call_path_ok (chroot_path ?root)) ([CallOpen (str ''b'')] @ CallOpen (str ''a'') # ?later)" by code_simp
  ultimately show ?thesis
    using every_reader_gets_its_file [of "memory_files ?files" ?files ?root "str ''a''" "[1, 2, 3, 4, 5, 6]" _ "[CallOpen (str ''b'')]" ?later]
    by (simp add: numeral_2_eq_2)
qed

end
