(* ===== verification/Departures.thy ===== *)
theory Departures
  imports Example_Setting
begin

text \<open>
  Behaviour of the program that departs from what it means to do: each theorem states what happens and under
  which conditions, and an example shows it on a concrete input.
\<close>

section \<open>The transfer\<close>

text \<open>
  \<open>send_reliably\<close> accepts the acknowledgements that are not smaller than the first block of the window, as numbers:
  nothing bounds them from above, and the acknowledgement of a window that crosses the wrap of the block counter
  is taken for one from the past.
\<close>

lemma acknowledgement_compared_without_wrap:
  assumes "window_wf w" "send_results st = []" "64 \<le> length buf"
    and "inbox st = Arrives (peer_address st) (ack_packet ack) # es"
  shows "\<exists>st' buf'. send_reliably w t st buf wi n
    = Some (if wi \<le> ack then Inr ack else Inl SendACKError, st', buf')"
proof -
  let ?st = "st\<lparr>outbox := outbox st @ window_packets w (window_indices wi n)\<rparr>"
  obtain b where b: "length b = length buf" "read_acknowledge ?st buf t = (Inr ack, ?st\<lparr>inbox := es\<rparr>, b)"
    using read_acknowledge_answers [of ?st buf ack 0 "[Arrives (peer_address st) (ack_packet ack)]" es t] assms(3,4)
    by auto
  obtain st3 b3 where "fire_error (undefined_error ''Received ACK from the past'') (?st\<lparr>inbox := es\<rparr>) b = Some (st3, b3)"
    using fire_error_runs [of "undefined_error ''Received ACK from the past''" b] short_errors(1) b(1) assms(3) by fastforce
  moreover have "0 < unat SEND_ATTEMPTS" by (simp add: SEND_ATTEMPTS_def)
  then obtain k where "unat SEND_ATTEMPTS = Suc k" using gr0_implies_Suc by blast
  ultimately show ?thesis
    using b(2) send_blocks_reliable [OF assms(1,2)] by (simp add: send_reliably_def)
qed

lemma acknowledgement_compared_without_wrap_witness:
  "\<exists>st' buf'. send_reliably (Window_new 8 2) \<lparr>timeout = 1\<rparr>
      (DatagramStream_new [Arrives (V4 10 0 0 1, 9) (ack_packet 0)] [] (V4 10 0 0 1, 9)) (replicate 64 0) 65535 2
    = Some (Inl SendACKError, st', buf')"
  using acknowledgement_compared_without_wrap [of "Window_new 8 2"
      "DatagramStream_new [Arrives (V4 10 0 0 1, 9) (ack_packet 0)] [] (V4 10 0 0 1, 9)" "replicate 64 0" 0 "[]"
      "\<lparr>timeout = 1\<rparr>" 65535 2]
  by (simp add: window_wf_new DatagramStream_new_def)

text \<open>
  When the rest of the file fits the window, the first acknowledgement that is not behind it ends the transfer
  successfully, also one for the first block only: the blocks after it are not sent again.
\<close>

lemma any_acknowledgement_ends_the_last_window:
  assumes "local_healthy f" "window_wf w" "bs = unat (win_block_size w)" "0 < bs"
    and "block_count (local_rest f) bs \<le> length (buffers w)" "1 \<le> ack"
    and "inbox st = Arrives (peer_address st) (ack_packet ack) # es" "send_results st = []" "4 \<le> length buf"
  shows "\<exists>x. send_file dbg LocalOpenedFile_read_to f st w t buf = Some (Inr (length (local_rest f), 0), x)
    \<and> outbox (xf_stream x) = outbox st @ map (data_packet (local_rest f) bs) [1..<Suc (block_count (local_rest f) bs)]
    \<and> inbox (xf_stream x) = es"
  by (rule local_file.send_file_first_ack [OF assms])

lemma any_acknowledgement_ends_the_last_window_witness:
  "\<exists>x. send_file True LocalOpenedFile_read_to
      \<lparr>rd = \<lparr>contents = replicate 20 7, pos = 0, read_plan = [], seek_error = None\<rparr>, lf_display = []\<rparr>
      (DatagramStream_new [Arrives (V4 10 0 0 1, 9) (ack_packet 1), Elapses] [] (V4 10 0 0 1, 9))
      (Window_new 8 3) \<lparr>timeout = 1\<rparr> [0, 0, 0, 0] = Some (Inr (20, 0), x)
    \<and> outbox (xf_stream x) = map (data_packet (replicate 20 7) 8) [1..<Suc 3]
    \<and> inbox (xf_stream x) = [Elapses]"
proof -
  let ?f = "\<lparr>rd = \<lparr>contents = replicate 20 7, pos = 0, read_plan = [], seek_error = None\<rparr>, lf_display = []\<rparr>"
  let ?st = "DatagramStream_new [Arrives (V4 10 0 0 1, 9) (ack_packet 1), Elapses] [] (V4 10 0 0 1, 9)"
  have f: "local_healthy ?f" "local_rest ?f = replicate 20 7" by (simp_all add: local_healthy_def local_rest_def)
  have n: "block_count (replicate 20 7) 8 = 3" by (simp add: block_count_def)
  have "block_count (local_rest ?f) 8 \<le> length (buffers (Window_new 8 3))" unfolding f(2) n by simp
  note le = this
  have w: "window_wf (Window_new 8 3)" "8 = unat (win_block_size (Window_new 8 3))" "(0 :: nat) < 8" "(1 :: u16) \<le> 1"
    by (simp_all add: window_wf_new)
  have st: "inbox ?st = Arrives (peer_address ?st) (ack_packet 1) # [Elapses]" "send_results ?st = []"
    "4 \<le> length [0 :: byte, 0, 0, 0]" "outbox ?st = []"
    by (simp_all add: DatagramStream_new_def)
  have l: "length (replicate 20 (7 :: byte)) = 20" by simp
  from any_acknowledgement_ends_the_last_window [OF f(1) w(1-3) le w(4) st(1-3), of True "\<lparr>timeout = 1\<rparr>"]
  show ?thesis unfolding f(2) n st(4) l append_Nil .
qed

text \<open>An acknowledgement beyond the blocks sent is taken, and the next round starts with a count of unacknowledged blocks that has wrapped
  around.\<close>

lemma future_acknowledgement_is_taken:
  assumes "local_healthy f" "window_wf w" "bs = unat (win_block_size w)" "0 < bs"
    and "length (buffers w) < block_count (local_rest f) bs" "length (buffers w) < unat ack"
    and "inbox st = Arrives (peer_address st) (ack_packet ack) # es" "send_results st = []" "4 \<le> length buf"
  obtains x where "send_file dbg LocalOpenedFile_read_to f st w t buf = send_loop dbg LocalOpenedFile_read_to t x"
    "window_wf (xf_window x)" "Window_size (xf_window x) = Window_size w" "last_acknowledged_index x = ack"
    "length (outbox (xf_stream x)) = length (outbox st) + length (buffers w)" "inbox (xf_stream x) = es" "send_results (xf_stream x) = []"
    "unat (last_read_index x - last_acknowledged_index x) = 65536 + length (buffers w) - unat ack"
    "Window_size w < last_read_index x - last_acknowledged_index x"
proof -
  let ?x = "\<lparr>xf_file = f, xf_window = w, xf_stream = st, xf_buffer = buf,
      bytes_sent = 0, blocks_sent = 0, last_acknowledged_index = 0, last_read_index = 0\<rparr>"
  define L where "L = length (buffers w)"
  have L: "0 < L" "L < 65536" "unat (of_nat L :: u16) = L" using assms(2) by (auto simp: window_wf_def L_def unat_of_nat_u16)
  have m: "L = min (length (buffers w)) (block_count (local_rest f) bs)" using assms(5) by (simp add: L_def)
  obtain x1 where fw: "fill_window LocalOpenedFile_read_to ?x 0 = Some (Inr (of_nat L, False), x1)"
    and inv: "last_read_index x1 = of_nat L" and wf1: "window_wf (xf_window x1)"
    and le: "(of_nat L :: u16) \<le> Window_size (xf_window x1)"
    using local_file.first_window [OF assms(1-4) m refl, of st buf] assms(5) by (auto simp: local_file.xinv_def L_def)
  note fr = fill_window_frame [OF fw]
  let ?st = "st\<lparr>inbox := es, outbox := outbox st @ window_packets (xf_window x1) (window_indices 1 (of_nat L))\<rparr>"
  have "(1 :: u16) \<le> ack" using assms(6) by (auto simp: word_le_nat_alt)
  then obtain buf2 where sr: "send_reliably (xf_window x1) t st buf 1 (of_nat L) = Some (Inr ack, ?st, buf2)"
    unfolding send_reliably_def
    using send_attempts_answers [OF wf1, of st buf 1 ack 0 "unat SEND_ATTEMPTS"
        "[Arrives (peer_address st) (ack_packet ack)]" es t "of_nat L"] assms(7-9)
    by (auto simp: SEND_ATTEMPTS_def)
  let ?x2 = "x1\<lparr>xf_stream := ?st, xf_buffer := buf2, last_acknowledged_index := ack\<rparr>"
  have "(of_nat L :: u16) < ack" using assms(6) L by (simp add: word_less_nat_alt L_def)
  then have u: "unat (of_nat L - ack :: u16) = 65536 + L - unat ack"
    using L by (simp add: unat_sub_if' word_less_nat_alt)
  moreover from u have "unat (Window_size w) < unat (of_nat L - ack :: u16)"
    using unat_u16_less [of ack] unat_Window_size [OF assms(2)] by (simp add: L_def del: unat_u16_less)
  moreover have "send_file dbg LocalOpenedFile_read_to f st w t buf = send_loop dbg LocalOpenedFile_read_to t ?x2"
    using fw sr fr le by (simp add: send_file_def send_loop.simps [of dbg _ t ?x] Let_def)
  ultimately show ?thesis
    using that [of ?x2] fr wf1 inv assms(8) L by (simp add: word_less_nat_alt L_def [symmetric] window_packets_def window_indices_def)
qed

text \<open>
  In a build with debug assertions, an acknowledgement beyond the blocks sent makes the session panic.
\<close>

lemma future_acknowledgement_panics_in_debug:
  assumes "local_healthy f" "window_wf w" "bs = unat (win_block_size w)" "0 < bs"
    and "length (buffers w) < block_count (local_rest f) bs" "length (buffers w) < unat ack"
    and "inbox st = Arrives (peer_address st) (ack_packet ack) # es" "send_results st = []" "4 \<le> length buf"
  shows "send_file True LocalOpenedFile_read_to f st w t buf = None"
proof -
  obtain x where x: "send_file True LocalOpenedFile_read_to f st w t buf = send_loop True LocalOpenedFile_read_to t x"
    "Window_size (xf_window x) = Window_size w" "Window_size w < last_read_index x - last_acknowledged_index x"
    by (rule future_acknowledgement_is_taken [OF assms])
  then have "\<not> last_read_index x - last_acknowledged_index x \<le> Window_size (xf_window x)" by (simp add: not_le)
  with x(1) show ?thesis by (simp add: send_loop.simps [of True _ t x] Let_def)
qed

text \<open>
  \<^bold>\<open>C40.\<close> In a release build the same acknowledgement makes the session flood its peer: it sends the slots of its window \<open>65536 + L - ack\<close> times in
  a row, \<open>L\<close> being the window length, and five times over when the peer stays silent. One datagram of the peer, the acknowledgement of the
  block after the first window, is answered by more than 327000.
\<close>

theorem future_acknowledgement_floods:
  assumes "local_healthy f" "window_wf w" "bs = unat (win_block_size w)" "0 < bs"
    and "length (buffers w) < block_count (local_rest f) bs" "length (buffers w) < unat ack"
    and "inbox st = [Arrives (peer_address st) (ack_packet ack)]" "send_results st = []" "4 \<le> length buf"
  shows "\<exists>x. send_file False LocalOpenedFile_read_to f st w t buf = Some (Inl (undefined_error ''Send timeout occurred''), x)
    \<and> length (outbox (xf_stream x)) = length (outbox st) + length (buffers w) + 5 * (65536 + length (buffers w) - unat ack)"
proof -
  obtain x where x: "send_file False LocalOpenedFile_read_to f st w t buf = send_loop False LocalOpenedFile_read_to t x"
    "window_wf (xf_window x)" "Window_size (xf_window x) = Window_size w"
    "length (outbox (xf_stream x)) = length (outbox st) + length (buffers w)" "inbox (xf_stream x) = []" "send_results (xf_stream x) = []"
    "unat (last_read_index x - last_acknowledged_index x) = 65536 + length (buffers w) - unat ack"
    "Window_size w < last_read_index x - last_acknowledged_index x"
    by (rule future_acknowledgement_is_taken [OF assms])
  define u where "u = last_read_index x - last_acknowledged_index x"
  have full: "fill_window LocalOpenedFile_read_to x u = Some (Inr (u, False), x)"
    using x(3,8) by (intro fill_window_full) (simp add: u_def not_less order.strict_implies_order)
  note silent = send_attempts_silent [OF x(2,6,5), of 5 t "xf_buffer x" "last_acknowledged_index x + 1" u]
  show ?thesis
    using full silent x
    by (simp add: send_loop.simps [of False _ t x] u_def [symmetric] Let_def send_reliably_def SEND_ATTEMPTS_def length_concat
        sum_list_replicate window_packets_def window_indices_def)
qed

theorem future_acknowledgement_floods_witness:
  "\<exists>x. send_file False LocalOpenedFile_read_to
      \<lparr>rd = \<lparr>contents = replicate 20 7, pos = 0, read_plan = [], seek_error = None\<rparr>, lf_display = []\<rparr>
      (DatagramStream_new [Arrives (V4 10 0 0 1, 9) (ack_packet 2)] [] (V4 10 0 0 1, 9))
      (Window_new 8 1) \<lparr>timeout = 1\<rparr> [0, 0, 0, 0] = Some (Inl (undefined_error ''Send timeout occurred''), x)
    \<and> length (outbox (xf_stream x)) = 327676"
proof -
  let ?f = "\<lparr>rd = \<lparr>contents = replicate 20 7, pos = 0, read_plan = [], seek_error = None\<rparr>, lf_display = []\<rparr>"
  let ?st = "DatagramStream_new [Arrives (V4 10 0 0 1, 9) (ack_packet 2)] [] (V4 10 0 0 1, 9)"
  have f: "local_healthy ?f" "local_rest ?f = replicate 20 7" by (simp_all add: local_healthy_def local_rest_def)
  have w: "window_wf (Window_new 8 1)" "8 = unat (win_block_size (Window_new 8 1))" "(0 :: nat) < 8"
    "length (buffers (Window_new 8 1)) < block_count (local_rest ?f) 8" "length (buffers (Window_new 8 1)) < unat (2 :: u16)"
    unfolding f(2) by (simp_all add: window_wf_new block_count_def)
  have st: "inbox ?st = [Arrives (peer_address ?st) (ack_packet 2)]" "send_results ?st = []"
    "4 \<le> length [0 :: byte, 0, 0, 0]" "outbox ?st = []" "length (buffers (Window_new 8 1)) = 1"
    by (simp_all add: DatagramStream_new_def)
  from future_acknowledgement_floods [OF f(1) w st(1-3), of "\<lparr>timeout = 1\<rparr>"] show ?thesis unfolding st(4,5) by simp
qed

lemma future_acknowledgement_panics_in_debug_witness:
  "send_file True LocalOpenedFile_read_to
      \<lparr>rd = \<lparr>contents = replicate 20 7, pos = 0, read_plan = [], seek_error = None\<rparr>, lf_display = []\<rparr>
      (DatagramStream_new [Arrives (V4 10 0 0 1, 9) (ack_packet 5)] [] (V4 10 0 0 1, 9))
      (Window_new 8 1) \<lparr>timeout = 1\<rparr> [0, 0, 0, 0] = None"
proof -
  let ?f = "\<lparr>rd = \<lparr>contents = replicate 20 7, pos = 0, read_plan = [], seek_error = None\<rparr>, lf_display = []\<rparr>"
  let ?st = "DatagramStream_new [Arrives (V4 10 0 0 1, 9) (ack_packet 5)] [] (V4 10 0 0 1, 9)"
  have f: "local_healthy ?f" "local_rest ?f = replicate 20 7" by (simp_all add: local_healthy_def local_rest_def)
  have w: "window_wf (Window_new 8 1)" "8 = unat (win_block_size (Window_new 8 1))" "(0 :: nat) < 8"
    "length (buffers (Window_new 8 1)) < block_count (local_rest ?f) 8" "length (buffers (Window_new 8 1)) < unat (5 :: u16)"
    unfolding f(2) by (simp_all add: window_wf_new block_count_def)
  have st: "inbox ?st = Arrives (peer_address ?st) (ack_packet 5) # []" "send_results ?st = []"
    "4 \<le> length [0 :: byte, 0, 0, 0]"
    by (simp_all add: DatagramStream_new_def)
  show ?thesis by (rule future_acknowledgement_panics_in_debug [OF f(1) w st])
qed

text \<open>
  The slot of a block is its number modulo the window length. For a window length that divides 65535, reading the block
  that follows block 65535 overwrites block 65535: it is then sent in its place.
\<close>

lemma window_slots_collide_at_the_wrap:
  assumes "local_healthy f" "window_wf w" "65535 mod length (buffers w) = 0"
  shows "\<exists>r f' w'. push_block LocalOpenedFile_read_to w f 0 = Some (r, f', w')
    \<and> Window_send w' 65535 st = Some (stream_send st ([0, 3, 0, 0] @ take (unat (win_block_size w)) (local_rest f)))"
proof -
  obtain r f' w' where p: "push_block LocalOpenedFile_read_to w f 0 = Some (r, f', w')"
    and w': "window_wf w'" "slot_content w' 0 = be_bytes DATA @ be_bytes 0 @ take (unat (win_block_size w)) (local_rest f)"
    using local_file.push_block_healthy [OF assms(2,1) refl, of 0 0] by auto
  from push_block_frame [OF p] assms(3) have "unat (65535 :: u16) mod length (buffers w') = 0" by simp
  with p w' Window_send_wf [OF w'(1), of 65535 st] show ?thesis by (simp add: be_bytes_def DATA_def)
qed

lemma window_slots_collide_at_the_wrap_witness:
  "\<exists>r f' w'. push_block LocalOpenedFile_read_to (Window_new 8 3)
      \<lparr>rd = \<lparr>contents = [1, 2], pos = 0, read_plan = [], seek_error = None\<rparr>, lf_display = []\<rparr> 0 = Some (r, f', w')
    \<and> Window_send w' 65535 (DatagramStream_new [] [] (V4 10 0 0 1, 9))
      = Some (stream_send (DatagramStream_new [] [] (V4 10 0 0 1, 9)) [0, 3, 0, 0, 1, 2])"
  using window_slots_collide_at_the_wrap [of
      "\<lparr>rd = \<lparr>contents = [1, 2], pos = 0, read_plan = [], seek_error = None\<rparr>, lf_display = []\<rparr>" "Window_new 8 3"
      "DatagramStream_new [] [] (V4 10 0 0 1, 9)"]
  by (simp add: local_healthy_def window_wf_new local_rest_def)

text \<open>
  The option acknowledgement is repeated from the buffer that receives the answers: after a datagram that is
  ignored, even one of a stranger, its bytes are sent to the peer instead.
\<close>

lemma option_acknowledgement_resent_from_the_receive_buffer:
  assumes "ignorable (peer_address st) (length buf) 4 (Arrives a d)" "send_results st = []" "4 \<le> length buf"
    and "inbox st = [Arrives a d, Elapses, Arrives (peer_address st) (ack_packet 0)]"
  shows "\<exists>st' buf'. oack_attempts (unat SEND_ATTEMPTS) k st t buf = Some (Inr (), st', buf')
    \<and> outbox st' = outbox st @ [take k buf, take k (recv_into buf d)]"
proof -
  have "unat SEND_ATTEMPTS = Suc (Suc 3)" by (simp add: SEND_ATTEMPTS_def)
  then obtain n where n: "unat SEND_ATTEMPTS = Suc (Suc n)" by blast
  let ?ack = "Arrives (peer_address st) (ack_packet 0)" and ?b = "recv_into buf d"
  let ?s1 = "st\<lparr>outbox := outbox st @ [take k buf]\<rparr>"
  let ?s2 = "?s1\<lparr>inbox := [?ack], waited := waited st + timeout t\<rparr>"
  let ?s3 = "?s2\<lparr>outbox := outbox st @ [take k buf, take k ?b]\<rparr>"
  have r1: "read_acknowledge ?s1 buf t = (Inl RecvTimeout, ?s2, ?b)"
    using assms(1,4) by (auto simp: read_acknowledge_def recv_timeout_def Let_def)
  obtain b where r2: "read_acknowledge ?s3 ?b t = (Inr 0, ?s3\<lparr>inbox := []\<rparr>, b)"
    using read_acknowledge_answers [of ?s3 ?b 0 0 "[?ack]" "[]" t] assms(3) by auto
  have "stream_send st (take k buf) = (Inr (), ?s1)" "stream_send ?s2 (take k ?b) = (Inr (), ?s3)"
    using assms(2) by (simp_all add: stream_send_reliable)
  with n r1 r2 show ?thesis by simp
qed

lemma option_acknowledgement_resent_from_the_receive_buffer_witness:
  "\<exists>st' buf'. oack_attempts (unat SEND_ATTEMPTS) 6
      (DatagramStream_new [Arrives (V4 6 6 6 6, 66) (str ''pwned!''), Elapses, Arrives (V4 10 0 0 1, 9) (ack_packet 0)]
        [] (V4 10 0 0 1, 9)) \<lparr>timeout = 1\<rparr> [0, 6, 1, 0, 2, 0, 0, 0] = Some (Inr (), st', buf')
    \<and> outbox st' = [[0, 6, 1, 0, 2, 0], str ''pwned!'']"
  using option_acknowledgement_resent_from_the_receive_buffer [of
      "DatagramStream_new [Arrives (V4 6 6 6 6, 66) (str ''pwned!''), Elapses, Arrives (V4 10 0 0 1, 9) (ack_packet 0)]
        [] (V4 10 0 0 1, 9)" "[0, 6, 1, 0, 2, 0, 0, 0]" "(V4 6 6 6 6, 66)" "str ''pwned!''" 6 "\<lparr>timeout = 1\<rparr>"]
  by (simp add: DatagramStream_new_def recv_into_def)

text \<open>
  \<open>read_acknowledge\<close> parses the whole buffer and not only what was received: an error packet without a message
  takes its message from the option acknowledgement that the buffer held before.
\<close>

lemma acknowledgement_parsed_beyond_the_datagram:
  "fst (read_acknowledge (DatagramStream_new [Arrives (V4 10 0 0 1, 9) [0, 5, 0, 3]] [] (V4 10 0 0 1, 9))
      (oack_packet [(str ''blksize'', str ''8'')] @ [0, 0]) \<lparr>timeout = 1\<rparr>)
    = Inl (RecvClientError 3 (str ''ksize''))"
  by code_simp

section \<open>Handlers and the server\<close>

text \<open>
  When the thread of a handler has crashed, the next request of that peer takes the whole server down.
\<close>

lemma crashed_handler_takes_the_server_down:
  assumes "activity s = Feeding ip port rrq" "peer_handlers s ip = Some h" "phase h = Crashed"
  shows "\<exists>s'. (server_step dbg host t)\<^sup>*\<^sup>* s s' \<and> activity s' = ServerPanicked"
proof -
  let ?s1 = "s\<lparr>peer_handlers := (peer_handlers s)(ip := None), activity := Joining (request_shutdown h) False\<rparr>"
  have "server_step dbg host t s ?s1"
    using assms by (intro srv_fed [of s ip port rrq]) (auto simp: after_feed_def feed_def)
  moreover have "server_step dbg host t ?s1 (?s1\<lparr>activity := ServerPanicked\<rparr>)"
    using assms(3) by (intro srv_joined [of ?s1 "request_shutdown h" False])
      (auto simp: after_join_def join_thread_def request_shutdown_def)
  ultimately show ?thesis
    by (intro exI [where x = "?s1\<lparr>activity := ServerPanicked\<rparr>"])
      (auto intro: converse_rtranclp_into_rtranclp)
qed

lemma crashed_handler_takes_the_server_down_witness:
  "\<exists>s'. (server_step False empty_host 0)\<^sup>*\<^sup>*
      ((TFTPServer_new (V4 10 0 0 2, 69) [] 1 0)\<lparr>peer_handlers := [V4 10 0 0 1 \<mapsto> sample_handler Crashed []],
        activity := Feeding (V4 10 0 0 1) 7 \<lparr>filename = str ''k'', options = Map.empty\<rparr>\<rparr>) s'
    \<and> activity s' = ServerPanicked"
  by (rule crashed_handler_takes_the_server_down [where h = "sample_handler Crashed []"])
    (simp_all add: sample_handler_def)

text \<open>
  A request for a handler that is closing or has closed is lost: the handler is removed and joined, and no other takes
  the request.
\<close>

lemma request_to_closed_handler_is_lost:
  assumes "peer_handlers s ip = Some h" "phase h = Draining \<or> phase h = Closed"
  shows "after_feed ip port rrq s = Some (s\<lparr>peer_handlers := (peer_handlers s)(ip := None),
      activity := Joining (request_shutdown h) False\<rparr>)"
  using assms by (auto simp: after_feed_def feed_def)

lemma request_to_closed_handler_is_lost_witness:
  "after_feed (V4 10 0 0 1) 7 \<lparr>filename = str ''k'', options = Map.empty\<rparr>
      ((TFTPServer_new (V4 10 0 0 2, 69) [] 1 0)\<lparr>peer_handlers := [V4 10 0 0 1 \<mapsto> sample_handler Closed []]\<rparr>)
    = Some ((TFTPServer_new (V4 10 0 0 2, 69) [] 1 0)\<lparr>peer_handlers := Map.empty,
        activity := Joining (request_shutdown (sample_handler Closed [])) False\<rparr>)"
  using request_to_closed_handler_is_lost [of
      "(TFTPServer_new (V4 10 0 0 2, 69) [] 1 0)\<lparr>peer_handlers := [V4 10 0 0 1 \<mapsto> sample_handler Closed []]\<rparr>" "V4 10 0 0 1"
      "sample_handler Closed []" 7 "\<lparr>filename = str ''k'', options = Map.empty\<rparr>"]
  by (simp add: sample_handler_def)

text \<open>
  The session limit is announced and not enforced: a request beyond it gets the error datagram, and its session is started
  nevertheless, on the same socket.
\<close>

lemma session_limit_is_not_enforced:
  assumes "sessions_capacity h \<le> length (retain_unfinished (send_sessions h))"
    and "schedule_task host request (available_roots h) = Some (task, roots)"
    and "bound (local_address h, 0) = Inr (arrivals, [])"
  shows "\<exists>h' s. accept_request host bound h port request = Some h'
    \<and> send_sessions h' = retain_unfinished (send_sessions h) @ [(port, s)] \<and> s_task s = task \<and> \<not> s_finished s
    \<and> outbox (s_stream s) = [error_packet (undefined_error ''Maximum sessions per IP exceeded'')]"
proof -
  let ?e = "undefined_error ''Maximum sessions per IP exceeded''"
  have "error_size ?e < SESSION_BUFFER_SIZE" by (simp add: error_size_def undefined_error_def SESSION_BUFFER_SIZE_def)
  from serialize_zeroed [OF this] obtain b where
    "TFTPError_serialize ?e (replicate SESSION_BUFFER_SIZE 0) = Some (Inr (error_size ?e), b)"
    "take (error_size ?e) b = error_packet ?e" by blast
  with assms show ?thesis
    by (simp add: accept_request_def Let_def fire_error_def stream_send_reliable DatagramStream_new_def)
qed

lemma session_limit_is_not_enforced_witness:
  "\<exists>h' s. accept_request empty_host (\<lambda>_. Inr ([], [])) (sample_handler Serving []) 9 \<lparr>filename = str ''k'', options = Map.empty\<rparr> = Some h'
    \<and> send_sessions h' = [(9, s)] \<and> s_task s = FireError file_not_found \<and> \<not> s_finished s
    \<and> outbox (s_stream s) = [error_packet (undefined_error ''Maximum sessions per IP exceeded'')]"
  using session_limit_is_not_enforced [of "sample_handler Serving []" empty_host "\<lparr>filename = str ''k'', options = Map.empty\<rparr>"
      "FireError file_not_found" "available_roots (sample_handler Serving [])" "\<lambda>_. Inr ([], [])" "[]" 9]
  by (simp add: sample_handler_def retain_unfinished_def open_in_def LocalRoot_open_is_os_open memory_host_def io_kind_def Let_def)

text \<open>
  A request from a port with an entry in the session table is ignored, also when that session has finished.
\<close>

lemma repeated_port_is_ignored:
  assumes "channel h = (port, request) # waiting" "(port, s) \<in> set (send_sessions h)"
  shows "on_request host bound h = h\<lparr>channel := waiting\<rparr>"
proof -
  have "port \<in> fst ` set (send_sessions h)" using assms(2) by force
  with assms(1) show ?thesis by (simp add: on_request_def)
qed

lemma repeated_port_is_ignored_witness:
  "on_request empty_host (\<lambda>_. Inr ([], [])) (sample_handler Serving [(7, sample_session True)])
    = (sample_handler Serving [(7, sample_session True)])\<lparr>channel := []\<rparr>"
  by (rule repeated_port_is_ignored [where port = 7 and s = "sample_session True"]) (simp_all add: sample_handler_def)

section \<open>Roots and disks\<close>

text \<open>
  A request with \<open>..\<close> leaves the root: it passes the check and the system opens the file outside.
\<close>

lemma request_with_dotdot_escapes_the_root:
  "LocalRoot_open (\<lambda>p. if resolve p = [str ''etc'', str ''passwd''] then Inr F else Inl (io_kind NotFound))
      (LocalRoot_new (str ''/srv'')) (str ''../etc/passwd'')
    = Inr \<lparr>rd = F, lf_display = str ''/srv/../etc/passwd''\<rparr>"
  unfolding LocalRoot_open_is_os_open
  by (simp add: LocalRoot_new_def str_def trim_start_matches_def slash_def dot_def path_join_def has_root_def
      resolve_def components_def List.map_filter_simps)

text \<open>
  \<open>LocalRoot::open\<close> is the system's answer for the joined path: its own check that the path starts with the root
  never fails.
\<close>

lemma local_open_asks_the_system:
  "LocalRoot_open open_file root path =
    (let file_path = path_join (lr_path root) (trim_start_matches slash path)
     in map_sum id (\<lambda>f. \<lparr>rd = f, lf_display = file_path\<rparr>) (open_file file_path))"
  by (rule LocalRoot_open_is_os_open)

text \<open>
  \<open>get_size\<close> of a local file returns its size and leaves the file at its start, wherever it was before.
\<close>

lemma get_size_rewinds:
  assumes "seek_error (rd f) = None"
  shows "LocalOpenedFile_get_size f = (Inr (length (contents (rd f))), f\<lparr>rd := (rd f)\<lparr>pos := 0\<rparr>\<rparr>)"
  by (rule LocalOpenedFile_get_size_seekable [OF assms])

lemma get_size_rewinds_witness:
  "LocalOpenedFile_get_size \<lparr>rd = \<lparr>contents = [1, 2, 3], pos = 2, read_plan = [], seek_error = None\<rparr>, lf_display = []\<rparr>
    = (Inr 3, \<lparr>rd = \<lparr>contents = [1, 2, 3], pos = 0, read_plan = [], seek_error = None\<rparr>, lf_display = []\<rparr>)"
  using get_size_rewinds [of "\<lparr>rd = \<lparr>contents = [1, 2, 3], pos = 2, read_plan = [], seek_error = None\<rparr>, lf_display = []\<rparr>"]
  by simp

text \<open>
  A mount of partition 0: \<open>self.partition - 1\<close> panics with overflow checks; without, it wraps around and the
  configuration is refused.
\<close>

lemma partition_zero:
  assumes "mount_partition m = 0" "length available < usize_modulus"
  shows "mount_suitable True lib g m available = None
    \<and> mount_suitable False lib g m available
      = Some (Inl (ConfigError (str ''Can't find a config for partition 0'')), g)"
proof -
  have "\<not> usize_modulus - 1 < length available" using assms(2) by simp
  moreover have "str ''Can't find a config for partition '' @ usize_to_string 0 = str ''Can't find a config for partition 0''"
    by (simp add: usize_to_string.simps digit_byte_def str_def)
  ultimately show ?thesis using assms(1) by (simp add: mount_suitable_def partition_index_def)
qed

lemma partition_zero_witness:
  "mount_suitable True (memory_disk []) \<lparr>gfs_handle = (), events = []\<rparr> \<lparr>mount_partition = 0, mountpoint = str ''/''\<rparr> [\<lparr>device = str ''/dev/sda1''\<rparr>] = None
    \<and> mount_suitable False (memory_disk []) \<lparr>gfs_handle = (), events = []\<rparr> \<lparr>mount_partition = 0, mountpoint = str ''/''\<rparr> [\<lparr>device = str ''/dev/sda1''\<rparr>]
      = Some (Inl (ConfigError (str ''Can't find a config for partition 0'')), \<lparr>gfs_handle = (), events = []\<rparr>)"
  by (rule partition_zero) (simp_all add: usize_modulus_def)

text \<open>
  Configurations are matched by prefix: the file of 10.0.0.10 matches the peer 10.0.0.1.
\<close>

lemma config_of_another_peer_matches:
  "IpAddr_to_string (V4 10 0 0 1) = str ''10.0.0.1''
    \<and> match_ip (str ''/srv/10.0.0.10.nbd'') (IpAddr_to_string (V4 10 0 0 1))"
proof -
  have "IpAddr_to_string (V4 10 0 0 1) = str ''10.0.0.1''"
    by (simp add: ipv4_string_def usize_to_string.simps digit_byte_def str_def dot_def)
  moreover have "match_ip (str ''/srv/10.0.0.10.nbd'') (str ''10.0.0.1'')"
    by (simp add: match_ip_def file_name_def components_def has_root_def str_def slash_def dot_def
        List.map_filter_simps starts_with_def)
  ultimately show ?thesis by simp
qed

end
