(* ===== verification/Download_Client.thy ===== *)
theory Download_Client
  imports Peer_Session
begin

text \<open>
  The peer's side of a download, as \<open>src/peer_handler/tests.rs\<close> has it: \<open>VirtualOpenedFile\<close>, a file in memory, and
  \<open>download_stream\<close>, a client that receives window by window and acknowledges each window. Joined with \<open>send_file\<close> over a network
  that delivers, each side's datagrams being the other's input, client and server finish and the client has the file.
\<close>

section \<open>The file in memory\<close>

record VirtualOpenedFile =
  vf_buffer :: bytes
  vf_offset :: usize

definition VirtualOpenedFile_new :: "bytes \<Rightarrow> VirtualOpenedFile" where
  "VirtualOpenedFile_new b = \<lparr>vf_buffer = b, vf_offset = 0\<rparr>"

definition VirtualOpenedFile_read_to :: "VirtualOpenedFile read_to" where
  "VirtualOpenedFile_read_to f buf =
    (if length (vf_buffer f) < vf_offset f then None
     else let slice_length = min (length buf) (length (vf_buffer f) - vf_offset f) in
       Some (Inr slice_length, f\<lparr>vf_offset := vf_offset f + slice_length\<rparr>,
         slice (vf_buffer f) (vf_offset f) (vf_offset f + slice_length) @ drop slice_length buf))"

definition VirtualOpenedFile_get_size :: "VirtualOpenedFile get_size" where
  "VirtualOpenedFile_get_size f = (Inr (length (vf_buffer f)), f)"

definition virtual_rest :: "VirtualOpenedFile \<Rightarrow> bytes" where
  "virtual_rest f = drop (vf_offset f) (vf_buffer f)"

definition virtual_healthy :: "VirtualOpenedFile \<Rightarrow> bool" where
  "virtual_healthy f \<longleftrightarrow> vf_offset f \<le> length (vf_buffer f)"

definition virtual_fresh :: "VirtualOpenedFile \<Rightarrow> bool" where
  "virtual_fresh f \<longleftrightarrow> vf_offset f = 0"

interpretation virtual_file: opened_file VirtualOpenedFile_read_to VirtualOpenedFile_get_size virtual_rest virtual_healthy virtual_fresh
proof unfold_locales
  show "length buf' = length buf" if "VirtualOpenedFile_read_to f buf = Some (r, f', buf')" for f buf r f' buf'
    using that by (auto simp: VirtualOpenedFile_read_to_def Let_def slice_def split: if_splits)
  show "\<exists>f'. VirtualOpenedFile_read_to f buf = Some (Inr n, f', take n (virtual_rest f) @ drop n buf)
      \<and> virtual_healthy f' \<and> virtual_rest f' = drop n (virtual_rest f)"
    if "virtual_healthy f" "n = min (length buf) (length (virtual_rest f))" for f buf n
    using that
    by (auto simp: VirtualOpenedFile_read_to_def virtual_healthy_def virtual_rest_def slice_def Let_def take_drop add.commute)
  show "\<exists>f'. VirtualOpenedFile_get_size f = (Inr (length (virtual_rest f)), f') \<and> virtual_healthy f' \<and> virtual_fresh f'
      \<and> virtual_rest f' = virtual_rest f"
    if "virtual_healthy f" "virtual_fresh f" for f
    using that by (simp add: VirtualOpenedFile_get_size_def virtual_fresh_def virtual_rest_def)
qed

section \<open>The client\<close>

text \<open>\<open>err_text\<close> is the conversion of an I/O error to a string.\<close>

datatype DownloadError = DownloadError rstr

record download =
  dl_stream :: DatagramStream
  dl_buffer :: bytes
  read_data :: bytes
  last_received_block_index :: u16

text \<open>The inner loop: at most \<open>n\<close> further blocks of the window. The flag is \<open>done\<close>.\<close>

fun download_window :: "(io_error \<Rightarrow> rstr) \<Rightarrow> u16 \<Rightarrow> nat \<Rightarrow> download \<Rightarrow> (DownloadError + bool) \<times> download" where
  "download_window err_text bsize 0 d = (Inr False, d)"
| "download_window err_text bsize (Suc n) d =
    (case recv_timeout \<lparr>timeout = 5\<rparr> (dl_stream d) (dl_buffer d) 4 of
       (Inl _, st, buf) \<Rightarrow> (Inl (DownloadError (str ''timeout'')), d\<lparr>dl_stream := st, dl_buffer := buf\<rparr>)
     | (Inr (Inl e), st, buf) \<Rightarrow> (Inl (DownloadError (err_text e)), d\<lparr>dl_stream := st, dl_buffer := buf\<rparr>)
     | (Inr (Inr received_bytes), st, buf) \<Rightarrow>
        (let d = d\<lparr>dl_stream := st, dl_buffer := buf\<rparr> in
         if from_be_bytes (buf ! 0) (buf ! 1) \<noteq> DATA
         then (Inl (DownloadError (str ''Wrong opcode received: {opcode}'')), d)
         else let d = d\<lparr>last_received_block_index := from_be_bytes (buf ! 2) (buf ! 3),
                  read_data := read_data d @ slice buf 4 received_bytes\<rparr> in
           if received_bytes < unat bsize + 4 then (Inr True, d)
           else download_window err_text bsize n d))"

text \<open>The outer loop. It does not end for an empty window, so not returning is the value \<open>None\<close>.\<close>

partial_function (option) download_loop :: "(io_error \<Rightarrow> rstr) \<Rightarrow> u16 \<Rightarrow> u16 \<Rightarrow> download
    \<Rightarrow> ((DownloadError + bytes) \<times> download) option" where
  "download_loop err_text bsize window_size d =
    (case download_window err_text bsize (unat window_size) d of
       (Inl e, d) \<Rightarrow> Some (Inl e, d)
     | (Inr fin, d) \<Rightarrow>
        (let d = d\<lparr>dl_buffer := be_bytes ACK @ be_bytes (last_received_block_index d) @ drop 4 (dl_buffer d)\<rparr> in
         case stream_send (dl_stream d) (take 4 (dl_buffer d)) of
           (Inl e, st) \<Rightarrow> Some (Inl (DownloadError (err_text e)), d\<lparr>dl_stream := st\<rparr>)
         | (Inr _, st) \<Rightarrow>
             (let d = d\<lparr>dl_stream := st\<rparr> in
              if fin then Some (Inr (read_data d), d) else download_loop err_text bsize window_size d)))"

definition download_stream :: "(io_error \<Rightarrow> rstr) \<Rightarrow> DatagramStream \<Rightarrow> u16 \<Rightarrow> u16
    \<Rightarrow> ((DownloadError + bytes) \<times> download) option" where
  "download_stream err_text st bsize window_size =
    download_loop err_text bsize window_size
      \<lparr>dl_stream = st, dl_buffer = replicate (unat bsize + 4) 0, read_data = [], last_received_block_index = 0\<rparr>"

declare download_loop.simps [code]

section \<open>What the client receives\<close>

lemma recv_block:
  assumes "inbox st = Arrives (peer_address st) p # es" "4 \<le> length p" "length p \<le> length buf"
  shows "recv_timeout t st buf 4 = (Inr (Inr (length p)), st\<lparr>inbox := es\<rparr>, p @ drop (length p) buf)"
  using assms by (simp add: recv_timeout_def recv_into_def Let_def)

lemma length_data_packet:
  assumes "0 < bs" "a < block_count data bs"
  shows "length (data_packet data bs (Suc a)) \<le> bs + 4" "4 \<le> length (data_packet data bs (Suc a))"
    "length (data_packet data bs (Suc a)) < bs + 4 \<longleftrightarrow> block_count data bs = Suc a"
  using last_block_iff [OF assms(1), of a data] assms(2)
  by (auto simp: data_packet_def be_bytes_def chunk_def)

definition block_events :: "SocketAddr \<Rightarrow> bytes \<Rightarrow> nat \<Rightarrow> nat \<Rightarrow> nat \<Rightarrow> net_event list" where
  "block_events peer data bs a n = map (\<lambda>k. Arrives peer (data_packet data bs k)) [Suc a..<Suc n]"

lemma block_events_Cons:
  "a < n \<Longrightarrow> block_events peer data bs a n = Arrives peer (data_packet data bs (Suc a)) # block_events peer data bs (Suc a) n"
  by (simp add: block_events_def upt_conv_Cons del: upt_Suc)

text \<open>One window: the client takes up to \<open>m\<close> blocks and stops early at the last one.\<close>

lemma download_window_blocks:
  assumes "inbox (dl_stream d) = block_events (peer_address (dl_stream d)) data bs a N" "a < N" "N = block_count data bs"
    and "bs = unat bsize" "0 < bs" "length (dl_buffer d) = bs + 4" "0 < m" "e = min (a + m) N"
  shows "\<exists>buf. length buf = bs + 4 \<and> download_window err_text bsize m d = (Inr (N \<le> a + m),
    d\<lparr>dl_stream := (dl_stream d)\<lparr>inbox := block_events (peer_address (dl_stream d)) data bs e N\<rparr>, dl_buffer := buf,
      read_data := read_data d @ concat (map (chunk data bs) [Suc a..<Suc e]), last_received_block_index := of_nat e\<rparr>)"
  using assms
proof (induction m arbitrary: a d)
  case (Suc m)
  let ?p = "data_packet data bs (Suc a)" and ?st = "dl_stream d"
  let ?st' = "?st\<lparr>inbox := block_events (peer_address ?st) data bs (Suc a) N\<rparr>"
  let ?buf = "?p @ drop (length ?p) (dl_buffer d)"
  note len = length_data_packet [OF Suc.prems(5), of a data]
  have rc: "recv_timeout \<lparr>timeout = 5\<rparr> ?st (dl_buffer d) 4 = (Inr (Inr (length ?p)), ?st', ?buf)"
    using Suc.prems len by (intro recv_block) (simp_all add: block_events_Cons)
  have hd: "from_be_bytes (?buf ! 0) (?buf ! 1) = DATA" "from_be_bytes (?buf ! 2) (?buf ! 3) = of_nat (Suc a)"
    "slice ?buf 4 (length ?p) = chunk data bs (Suc a)"
    by (simp_all add: data_packet_def be_bytes_def from_be_bytes_eq_iff slice_def del: of_nat_Suc)
  let ?d = "d\<lparr>dl_stream := ?st', dl_buffer := ?buf, last_received_block_index := of_nat (Suc a),
      read_data := read_data d @ chunk data bs (Suc a)\<rparr>"
  have step: "download_window err_text bsize (Suc m) d
      = (if N = Suc a then (Inr True, ?d) else download_window err_text bsize m ?d)"
    using rc hd len Suc.prems(2-4) by (simp add: Let_def del: of_nat_Suc)
  have lb: "length ?buf = bs + 4" using len Suc.prems(2,3,6) by simp
  show ?case
  proof (cases "N = Suc a \<or> m = 0")
    case True
    then have e: "e = Suc a" and fin: "N \<le> a + Suc m \<longleftrightarrow> N = Suc a" using Suc.prems(2,8) by auto
    from True step show ?thesis
      unfolding fin e by (intro exI [where x = ?buf]) (use lb in \<open>auto simp del: of_nat_Suc\<close>)
  next
    case False
    have "inbox (dl_stream ?d) = block_events (peer_address (dl_stream ?d)) data bs (Suc a) N" "Suc a < N"
      "length (dl_buffer ?d) = bs + 4" "0 < m" "e = min (Suc a + m) N"
      using False Suc.prems(2,8) lb by auto
    from Suc.IH [OF this(1,2) Suc.prems(3-5) this(3-5)] obtain buf where "length buf = bs + 4"
      "download_window err_text bsize m ?d = (Inr (N \<le> Suc a + m), ?d\<lparr>dl_stream :=
        (dl_stream ?d)\<lparr>inbox := block_events (peer_address (dl_stream ?d)) data bs e N\<rparr>, dl_buffer := buf,
        read_data := read_data ?d @ concat (map (chunk data bs) [Suc (Suc a)..<Suc e]), last_received_block_index := of_nat e\<rparr>)"
      by blast
    moreover have "[Suc a..<Suc e] = Suc a # [Suc (Suc a)..<Suc e]"
      using False Suc.prems(2,8) by (intro upt_conv_Cons) auto
    ultimately show ?thesis using step False by (intro exI [where x = buf]) (simp del: upt_Suc of_nat_Suc)
  qed
qed simp

text \<open>The blocks that are acknowledged: the last one of each window.\<close>

function ack_points :: "nat \<Rightarrow> nat \<Rightarrow> nat \<Rightarrow> nat list" where
  "ack_points L n a = (if 0 < L \<and> a < n then min (a + L) n # ack_points L n (min (a + L) n) else [])"
  by pat_completeness auto
termination by (relation "measure (\<lambda>(L, n, a). n - a)") auto

declare ack_points.simps [simp del]

lemma download_loop_blocks:
  assumes "inbox (dl_stream d) = block_events (peer_address (dl_stream d)) data bs a N" "a < N" "N = block_count data bs"
    and "bs = unat bsize" "0 < bs" "length (dl_buffer d) = bs + 4" "L = unat wsize" "0 < L" "send_results (dl_stream d) = []"
  shows "\<exists>d'. download_loop err_text bsize wsize d = Some (Inr (read_data d @ concat (map (chunk data bs) [Suc a..<Suc N])), d')
    \<and> outbox (dl_stream d') = outbox (dl_stream d) @ map (\<lambda>k. ack_packet (of_nat k)) (ack_points L N a) \<and> inbox (dl_stream d') = []"
  using assms
proof (induction "N - a" arbitrary: a d rule: less_induct)
  case less
  define e where "e = min (a + L) N"
  obtain buf where w: "length buf = bs + 4" "download_window err_text bsize L d = (Inr (N \<le> a + L),
    d\<lparr>dl_stream := (dl_stream d)\<lparr>inbox := block_events (peer_address (dl_stream d)) data bs e N\<rparr>, dl_buffer := buf,
      read_data := read_data d @ concat (map (chunk data bs) [Suc a..<Suc e]), last_received_block_index := of_nat e\<rparr>)"
    using download_window_blocks [OF less.prems(1-6,8) e_def] by blast
  let ?buf = "be_bytes ACK @ be_bytes (of_nat e) @ drop 4 buf"
  let ?st = "(dl_stream d)\<lparr>inbox := block_events (peer_address (dl_stream d)) data bs e N\<rparr>"
  let ?d = "d\<lparr>dl_stream := ?st, dl_buffer := buf, read_data := read_data d @ concat (map (chunk data bs) [Suc a..<Suc e]),
      last_received_block_index := of_nat e, dl_buffer := ?buf, dl_stream := ?st\<lparr>outbox := outbox (dl_stream d) @ [ack_packet (of_nat e)]\<rparr>\<rparr>"
  have "take 4 ?buf = ack_packet (of_nat e)" by (simp add: ack_packet_def be_bytes_def)
  with w less.prems(7,9) have step: "download_loop err_text bsize wsize d
      = (if N \<le> a + L then Some (Inr (read_data ?d), ?d) else download_loop err_text bsize wsize ?d)"
    by (subst download_loop.simps) (simp add: stream_send_reliable Let_def del: be_bytes_ACK append_Cons append_Nil upt_Suc)
  have pts: "ack_points L N a = e # ack_points L N e" using less.prems(2,8) by (subst ack_points.simps) (simp add: e_def)
  show ?case
  proof (cases "N \<le> a + L")
    case True
    then have "e = N" by (simp add: e_def)
    then show ?thesis
      using step True pts by (simp add: ack_points.simps [of L N N] block_events_def)
  next
    case False
    then have e: "e = a + L" by (simp add: e_def)
    have "N - e < N - a" "inbox (dl_stream ?d) = block_events (peer_address (dl_stream ?d)) data bs e N" "e < N"
      "length (dl_buffer ?d) = bs + 4" "send_results (dl_stream ?d) = []"
      using False e less.prems(2,8,9) w(1) by (simp_all add: be_bytes_def)
    from less.hyps [OF this(1-3) less.prems(3-5) this(4) less.prems(7,8) this(5)] obtain d' where
      "download_loop err_text bsize wsize ?d = Some (Inr (read_data ?d @ concat (map (chunk data bs) [Suc e..<Suc N])), d')"
      "outbox (dl_stream d') = outbox (dl_stream ?d) @ map (\<lambda>k. ack_packet (of_nat k)) (ack_points L N e)" "inbox (dl_stream d') = []"
      by blast
    moreover have "[Suc a..<Suc N] = [Suc a..<Suc e] @ [Suc e..<Suc N]"
      using e False less.prems(8) upt_add_eq_append [of "Suc a" "Suc e" "N - e"] by (simp del: upt_Suc)
    ultimately show ?thesis using step False pts by (simp del: upt_Suc)
  qed
qed

section \<open>Client and server\<close>

lemma ack_points_deliver:
  assumes "0 < L" "4 \<le> cap" "a \<le> n"
  shows "delivers peer cap L n a (map (\<lambda>k. (0, [Arrives peer (ack_packet (of_nat k))])) (ack_points L n a))
    \<and> delivered data bs L n a (map (\<lambda>k. (0, [Arrives peer (ack_packet (of_nat k))])) (ack_points L n a))
      = map (data_packet data bs) [Suc a..<Suc n]"
  using assms
proof (induction L n a rule: ack_points.induct)
  case (1 L n a)
  show ?case
  proof (cases "a < n")
    case True
    let ?e = "min (a + L) n"
    have "[Suc a..<Suc n] = [Suc a..<Suc ?e] @ [Suc ?e..<Suc n]"
      using True upt_add_eq_append [of "Suc a" "Suc ?e" "n - ?e"] by (simp del: upt_Suc)
    with True 1 show ?thesis
      by (simp add: ack_points.simps [of L n a] SEND_ATTEMPTS_def del: upt_Suc)
  next
    case False
    with 1 have "a = n" by simp
    then show ?thesis by (simp add: ack_points.simps [of L n n])
  qed
qed

context opened_file begin

text \<open>Each side's datagrams are the other side's input.\<close>

lemma joined_download:
  assumes "healthy f" "0 < unat bsize" "0 < unat wsize" "wsize = 1 \<or> block_count (rest f) (unat bsize) < 65536"
    and "outbox st = []" "send_results st = []" "4 \<le> length buf" "outbox cst = []" "send_results cst = []"
  shows "\<exists>acks x d. send_file dbg read_to f (st\<lparr>inbox := map (Arrives (peer_address st)) acks\<rparr>) (Window_new bsize wsize) t buf
      = Some (Inr (length (rest f), 0), x)
    \<and> download_stream err_text (cst\<lparr>inbox := map (Arrives (peer_address cst)) (outbox (xf_stream x))\<rparr>) bsize wsize = Some (Inr (rest f), d)
    \<and> outbox (dl_stream d) = acks \<and> inbox (xf_stream x) = [] \<and> inbox (dl_stream d) = []"
proof -
  let ?bs = "unat bsize" and ?L = "unat wsize" and ?w = "Window_new bsize wsize"
  define N where "N = block_count (rest f) ?bs"
  define acks where "acks = map (\<lambda>k. ack_packet (of_nat k)) (ack_points ?L N 0)"
  let ?rounds = "map (\<lambda>k. (0 :: nat, [Arrives (peer_address st) (ack_packet (of_nat k))])) (ack_points ?L N 0)"
  note net = ack_points_deliver [OF assms(3,7), of 0 N "peer_address st" "rest f" ?bs]
  have inb: "concat (map snd ?rounds) = map (Arrives (peer_address st)) acks" by (simp add: acks_def comp_def concat_map_singleton)
  have w: "window_wf ?w" "?bs = unat (win_block_size ?w)" "?L = length (buffers ?w)"
    using assms(3) by (simp_all add: window_wf_new unat_gt_0 word_gt_0)
  obtain x where x: "send_file dbg read_to f (st\<lparr>inbox := map (Arrives (peer_address st)) acks\<rparr>) ?w t buf = Some (Inr (length (rest f), 0), x)"
    "outbox (xf_stream x) = map (data_packet (rest f) ?bs) [Suc 0..<Suc N]" "inbox (xf_stream x) = []"
    using send_file_delivers [OF assms(1) w(1,2) assms(2) w(3), of "st\<lparr>inbox := map (Arrives (peer_address st)) acks\<rparr>" buf ?rounds "[]" dbg t]
      assms(4-7) net inb by (auto simp: N_def)
  let ?d = "\<lparr>dl_stream = cst\<lparr>inbox := map (Arrives (peer_address cst)) (outbox (xf_stream x))\<rparr>, dl_buffer = replicate (?bs + 4) 0,
      read_data = [], last_received_block_index = 0\<rparr>"
  have "inbox (dl_stream ?d) = block_events (peer_address (dl_stream ?d)) (rest f) ?bs 0 N" "0 < N"
    using x(2) by (simp_all add: block_events_def N_def block_count_def del: upt_Suc)
  from download_loop_blocks [OF this N_def refl assms(2) _ refl assms(3), of err_text] obtain d where
    "download_loop err_text bsize wsize ?d = Some (Inr (concat (map (chunk (rest f) ?bs) [Suc 0..<Suc N])), d)"
    "outbox (dl_stream d) = acks" "inbox (dl_stream d) = []"
    using assms(8,9) by (auto simp: acks_def)
  with x blocks_reassemble [OF assms(2), of "rest f"] show ?thesis
    by (intro exI [where x = acks] exI [where x = x] exI [where x = d]) (simp add: download_stream_def N_def del: upt_Suc)
qed

end

end
