(* ===== verification/Integration_Client.thy ===== *)
theory Integration_Client
  imports Download_Client
begin

text \<open>
  The client of the integration tests, \<open>tests/common/client.rs\<close>: it asks for a file on a socket of its own, takes the address from which
  the first answer comes for the address of its session, and receives the file block by block (\<open>download\<close>) or window by window
  (\<open>download_window\<close>). The states of an exchange are separate types in the source; here they are records over the same socket. The file carries
  copies of the cursors of \<open>cursor/mod.rs\<close> that differ in their error values only; the operations of \<open>Cursor\<close> stand for them.
  \<open>None\<close> is a panic (an \<open>unwrap\<close> of an error) or a loop that does not end.
\<close>

section \<open>Its socket\<close>

text \<open>What happens at the socket, what its sends return, and what it has sent to whom.\<close>

record udp_socket =
  sock_events :: "net_event list"
  sock_results :: "(io_error + usize) list"
  sock_sent :: "(SocketAddr \<times> bytes) list"

definition socket_send_to :: "udp_socket \<Rightarrow> SocketAddr \<Rightarrow> bytes \<Rightarrow> (io_error + usize) \<times> udp_socket" where
  "socket_send_to sock addr d =
    (case sock_results sock of
       [] \<Rightarrow> (Inr (length d), sock\<lparr>sock_sent := sock_sent sock @ [(addr, d)]\<rparr>)
     | Inl e # rs \<Rightarrow> (Inl e, sock\<lparr>sock_results := rs\<rparr>)
     | Inr n # rs \<Rightarrow> (Inr n, sock\<lparr>sock_results := rs, sock_sent := sock_sent sock @ [(addr, d)]\<rparr>))"

text \<open>\<open>recv_from\<close> under a timer.\<close>

fun socket_recv_from :: "net_event list \<Rightarrow> bytes \<Rightarrow> (unit + (io_error + usize \<times> SocketAddr)) \<times> net_event list \<times> bytes" where
  "socket_recv_from [] buf = (Inl (), [], buf)"
| "socket_recv_from (Elapses # es) buf = (Inl (), es, buf)"
| "socket_recv_from (RecvFails error # es) buf = (Inr (Inl error), es, buf)"
| "socket_recv_from (Arrives remote_address d # es) buf =
    (Inr (Inr (min (length buf) (length d), remote_address)), es, recv_into buf d)"

record client_stream =
  cs_socket :: udp_socket
  cs_peer :: SocketAddr

definition ClientStream_send :: "client_stream \<Rightarrow> bytes \<Rightarrow> (io_error + unit) \<times> client_stream" where
  "ClientStream_send cs buf =
    (case socket_send_to (cs_socket cs) (cs_peer cs) buf of
       (Inr n, sock) \<Rightarrow> (if n \<noteq> length buf then Inl (io_kind ConnectionReset) else Inr (), cs\<lparr>cs_socket := sock\<rparr>)
     | (Inl error, sock) \<Rightarrow> (Inl error, cs\<lparr>cs_socket := sock\<rparr>))"

text \<open>\<open>DatagramStream::recv\<close> of the client has a deadline of its own. \<open>read_next\<close> guards it with a second timer of the same length, and
  \<open>outer\<close> tells which of the two is noticed first: \<open>Inl ()\<close> is the outer one.\<close>

definition ClientStream_recv :: "client_stream \<Rightarrow> bytes \<Rightarrow> usize \<Rightarrow> (io_error + usize) \<times> client_stream \<times> bytes" where
  "ClientStream_recv cs buf min_size =
    (case stream_recv (cs_peer cs) (sock_events (cs_socket cs)) buf min_size of
       (r, es, buf) \<Rightarrow> (case r of Inl _ \<Rightarrow> Inl (io_kind TimedOut) | Inr r \<Rightarrow> r,
         cs\<lparr>cs_socket := (cs_socket cs)\<lparr>sock_events := es\<rparr>\<rparr>, buf))"

definition guarded_recv :: "bool \<Rightarrow> client_stream \<Rightarrow> bytes \<Rightarrow> usize
    \<Rightarrow> (unit + (io_error + usize)) \<times> client_stream \<times> bytes" where
  "guarded_recv outer cs buf min_size =
    (case stream_recv (cs_peer cs) (sock_events (cs_socket cs)) buf min_size of
       (Inl _, _) \<Rightarrow>
         (case ClientStream_recv cs buf min_size of (r, rest) \<Rightarrow> (if outer then Inl () else Inr r, rest))
     | (Inr _, _) \<Rightarrow> (case ClientStream_recv cs buf min_size of (r, rest) \<Rightarrow> (Inr r, rest)))"

section \<open>The states of an exchange\<close>

definition CLIENT_BUFFER_SIZE :: usize where "CLIENT_BUFFER_SIZE = 1536"

datatype 't TFTPClientError =
    ClientIO io_error
  | ClientTimeout 't
  | ClientError u16 rstr
  | ClientParseError rstr
  | UnexpectedData bytes
  | UnexpectedPeer IpAddr bytes

record TFTPClient =
  local_socket :: udp_socket
  remote_addr :: SocketAddr
  read_buffer :: bytes
  write_buffer :: bytes

record sent_request = TFTPClient +
  rq_file_name :: rstr
  rq_options :: "(rstr \<times> rstr) list"
  sent_bytes :: usize

text \<open>\<open>OACK\<close>, \<open>Block\<close> and \<open>SentACK\<close> have the same fields; the count is what was received or what was sent last.\<close>

record exchange =
  datagram_stream :: client_stream
  ex_read_buffer :: bytes
  ex_write_buffer :: bytes
  ex_bytes :: usize

definition TFTPClient_new :: "udp_socket \<Rightarrow> SocketAddr \<Rightarrow> TFTPClient" where
  "TFTPClient_new sock addr =
    \<lparr>local_socket = sock, remote_addr = addr, read_buffer = replicate CLIENT_BUFFER_SIZE 0,
     write_buffer = replicate CLIENT_BUFFER_SIZE 0\<rparr>"

text \<open>How the client prints what it cannot interpret: the library's \<open>Debug\<close> and \<open>Display\<close> of an I/O error and \<open>Debug\<close> of a
  socket; \<open>own_address\<close> is the address the socket is bound to, and \<open>outer_timer\<close> settles the race of the two timers.\<close>

record client_env =
  outer_timer :: bool
  debug_io :: "io_error \<Rightarrow> rstr"
  show_io :: "io_error \<Rightarrow> rstr"
  debug_socket :: "udp_socket \<Rightarrow> rstr"
  own_address :: SocketAddr

definition addr_string :: "SocketAddr \<Rightarrow> rstr" where
  "addr_string a = IpAddr_to_string (fst a) @ [colon] @ usize_to_string (unat (snd a))"

text \<open>\<open>Display\<close> of a \<open>SocketAddr\<close> puts the address of version 6 in brackets.\<close>

definition SocketAddr_to_string :: "SocketAddr \<Rightarrow> rstr" where
  "SocketAddr_to_string a =
    (case fst a of
       V4 _ _ _ _ \<Rightarrow> addr_string a
     | V6 _ _ _ _ _ _ _ _ \<Rightarrow> str ''['' @ IpAddr_to_string (fst a) @ str '']'' @ [colon] @ usize_to_string (unat (snd a)))"

definition bytes_debug :: "bytes \<Rightarrow> rstr" where
  "bytes_debug d = str ''['' @ join_with (str '', '') (map (\<lambda>b. usize_to_string (unat b)) d) @ str '']''"

fun TFTPClientError_display :: "client_env \<Rightarrow> ('t \<Rightarrow> rstr) \<Rightarrow> 't TFTPClientError \<Rightarrow> rstr" where
  "TFTPClientError_display env dbg (ClientTimeout t) = str ''Timeout: '' @ dbg t"
| "TFTPClientError_display env dbg (ClientError code msg) =
    str ''ACK: ['' @ usize_to_string (unat code) @ str ''] '' @ msg"
| "TFTPClientError_display env dbg (ClientIO e) = str ''IO: '' @ debug_io env e @ str '' ''"
| "TFTPClientError_display env dbg (ClientParseError e) = str ''ParseError: '' @ e"
| "TFTPClientError_display env dbg (UnexpectedData d) = str ''UnexpectedData: '' @ bytes_debug d"
| "TFTPClientError_display env dbg (UnexpectedPeer ip d) =
    str ''Unexpected peer '' @ IpAddr_to_string ip @ str '': '' @ usize_to_string (length d)"

fun DownloadError_from :: "client_env \<Rightarrow> ('t \<Rightarrow> rstr) \<Rightarrow> 't TFTPClientError \<Rightarrow> DownloadError" where
  "DownloadError_from env dbg (ClientTimeout t) = DownloadError (dbg t)"
| "DownloadError_from env dbg e = DownloadError (TFTPClientError_display env dbg e)"

definition SentPlainReadRequest_debug :: "client_env \<Rightarrow> sent_request \<Rightarrow> rstr" where
  "SentPlainReadRequest_debug env rq =
    debug_socket env (local_socket rq) @ str '' => '' @ SocketAddr_to_string (remote_addr rq) @ str '' '' @ rq_file_name rq"

definition SentReadRequestWithOpts_debug :: "sent_request \<Rightarrow> rstr" where
  "SentReadRequestWithOpts_debug rq = str ''_SentReadRequestWithOpts''"

definition Block_debug :: "exchange \<Rightarrow> rstr" where
  "Block_debug x = str ''Block size ['' @ usize_to_string (ex_bytes x - 2) @ str '']''"

definition OACK_debug :: "exchange \<Rightarrow> rstr" where
  "OACK_debug x = str ''OACK''"

definition SentACK_debug :: "client_env \<Rightarrow> exchange \<Rightarrow> rstr" where
  "SentACK_debug env x =
    str ''<SentACK '' @ addr_string (own_address env) @ str '' <=> '' @ addr_string (cs_peer (datagram_stream x)) @ str '' (''
    @ usize_to_string (ex_bytes x) @ str '')>''"

section \<open>Asking for a file\<close>

text \<open>Every put is unwrapped.\<close>

definition must_put_ushort :: "WriteCursor \<Rightarrow> u16 \<Rightarrow> (usize \<times> WriteCursor) run" where
  "must_put_ushort c v = (case put_ushort c v of (Inr n, c) \<Rightarrow> Some (n, c) | (Inl _, _) \<Rightarrow> None)"

definition must_put_string :: "WriteCursor \<Rightarrow> rstr \<Rightarrow> (usize \<times> WriteCursor) run" where
  "must_put_string c s = (case put_string c s of Some (Inr n, c) \<Rightarrow> Some (n, c) | _ \<Rightarrow> None)"

definition make_read_request :: "bytes \<Rightarrow> rstr \<Rightarrow> (usize \<times> WriteCursor) run" where
  "make_read_request wbuf name = do {
     (_, c) \<leftarrow> must_put_ushort (WriteCursor_new wbuf) RRQ;
     (_, c) \<leftarrow> must_put_string c name;
     must_put_string c (str ''octet'')
   }"

fun put_request_options :: "WriteCursor \<Rightarrow> (rstr \<times> rstr) list \<Rightarrow> usize \<Rightarrow> (usize \<times> WriteCursor) run" where
  "put_request_options c [] buffer_size = Some (buffer_size, c)"
| "put_request_options c ((name, val) # opts) buffer_size = do {
     (_, c) \<leftarrow> must_put_string c name;
     (buffer_size, c) \<leftarrow> must_put_string c val;
     put_request_options c opts buffer_size
   }"

text \<open>The request is sent to the server's address. The options are listed in the order in which the \<open>HashMap\<close> yields them.\<close>

definition send_read_request :: "TFTPClient \<Rightarrow> rstr \<Rightarrow> (rstr \<times> rstr) list
    \<Rightarrow> ((io_error + sent_request) \<times> udp_socket) run" where
  "send_read_request client name opts = do {
     (buffer_size, c) \<leftarrow> make_read_request (write_buffer client) name;
     (buffer_size, c) \<leftarrow> put_request_options c opts buffer_size;
     Some (case socket_send_to (local_socket client) (remote_addr client) (take buffer_size (buffer c)) of
        (Inl e, sock) \<Rightarrow> (Inl e, sock)
      | (Inr _, sock) \<Rightarrow>
          (Inr \<lparr>local_socket = sock, remote_addr = remote_addr client, read_buffer = read_buffer client,
             write_buffer = buffer c, rq_file_name = name, rq_options = opts, sent_bytes = buffer_size\<rparr>, sock))
   }"

definition send_plain_read_request :: "TFTPClient \<Rightarrow> rstr \<Rightarrow> ((io_error + sent_request) \<times> udp_socket) run" where
  "send_plain_read_request client name = send_read_request client name []"

definition send_optioned_read_request :: "TFTPClient \<Rightarrow> rstr \<Rightarrow> (rstr \<times> rstr) list
    \<Rightarrow> ((io_error + sent_request) \<times> udp_socket) run" where
  "send_optioned_read_request client name opts = send_read_request client name opts"

section \<open>Reading the answers\<close>

text \<open>The match on the opcode, which the four reading functions share.\<close>

definition reply_with :: "u16 \<Rightarrow> bytes \<Rightarrow> ('t TFTPClientError + unit) run" where
  "reply_with wanted d =
    (case extract_ushort (ReadCursor_new d) of
       (Inl _, _) \<Rightarrow> Some (Inl (ClientParseError (str ''NotEnoughData'')))
     | (Inr code, c) \<Rightarrow>
        if code = wanted then Some (Inr ())
        else if code = ERROR then
          (case extract_ushort c of
             (Inl _, _) \<Rightarrow> None
           | (Inr error_code, c) \<Rightarrow>
              (case extract_string c of
                 (Inl _, _) \<Rightarrow> None
               | (Inr msg, _) \<Rightarrow> Some (Inl (ClientError error_code msg))))
        else Some (Inl (UnexpectedData d)))"

text \<open>The first answer: only its address of origin is compared, and its port becomes the port of the session.\<close>

definition read_first :: "u16 \<Rightarrow> sent_request \<Rightarrow> ((sent_request TFTPClientError + exchange) \<times> udp_socket) run" where
  "read_first wanted rq =
    (case socket_recv_from (sock_events (local_socket rq)) (read_buffer rq) of
       (r, es, buf) \<Rightarrow>
         (let sock = (local_socket rq)\<lparr>sock_events := es\<rparr> in
          case r of
            Inl _ \<Rightarrow> Some (Inl (ClientTimeout (rq\<lparr>local_socket := sock, read_buffer := buf\<rparr>)), sock)
          | Inr (Inl e) \<Rightarrow> Some (Inl (ClientIO e), sock)
          | Inr (Inr (n, remote_address)) \<Rightarrow>
              if fst remote_address = fst (remote_addr rq) then do {
                reply \<leftarrow> reply_with wanted (take n buf);
                Some (case reply of
                   Inl e \<Rightarrow> Inl e
                 | Inr _ \<Rightarrow> Inr \<lparr>datagram_stream = \<lparr>cs_socket = sock, cs_peer = remote_address\<rparr>, ex_read_buffer = buf,
                     ex_write_buffer = write_buffer rq, ex_bytes = n\<rparr>, sock)
              }
              else Some (Inl (UnexpectedPeer (fst remote_address) (take n buf)), sock)))"

definition SentPlainReadRequest_read_next :: "sent_request
    \<Rightarrow> ((sent_request TFTPClientError + exchange) \<times> udp_socket) run" where
  "SentPlainReadRequest_read_next rq = read_first DATA rq"

definition SentReadRequestWithOpts_read_oack :: "sent_request
    \<Rightarrow> ((sent_request TFTPClientError + exchange) \<times> udp_socket) run" where
  "SentReadRequestWithOpts_read_oack rq = read_first OACK rq"

text \<open>The later ones; \<open>Block::read_next\<close> and \<open>SentACK::read_next\<close> have the same body.\<close>

definition read_block :: "client_env \<Rightarrow> exchange \<Rightarrow> ((exchange TFTPClientError + exchange) \<times> udp_socket) run" where
  "read_block env x =
    (case guarded_recv (outer_timer env) (datagram_stream x) (ex_read_buffer x) 4 of
       (r, cs, buf) \<Rightarrow>
         (let x = x\<lparr>datagram_stream := cs, ex_read_buffer := buf\<rparr> in
          case r of
            Inl _ \<Rightarrow> Some (Inl (ClientTimeout x), cs_socket cs)
          | Inr (Inl e) \<Rightarrow> Some (Inl (ClientIO e), cs_socket cs)
          | Inr (Inr n) \<Rightarrow> do {
              reply \<leftarrow> reply_with DATA (take n buf);
              Some (case reply of Inl e \<Rightarrow> Inl e | Inr _ \<Rightarrow> Inr (x\<lparr>ex_bytes := n\<rparr>), cs_socket cs)
            }))"

definition Block_read_next :: "client_env \<Rightarrow> exchange \<Rightarrow> ((exchange TFTPClientError + exchange) \<times> udp_socket) run" where
  "Block_read_next env x = read_block env x"

definition SentACK_read_next :: "client_env \<Rightarrow> exchange \<Rightarrow> ((exchange TFTPClientError + exchange) \<times> udp_socket) run" where
  "SentACK_read_next env x = read_block env x"

definition Block_data :: "exchange \<Rightarrow> bytes run" where
  "Block_data x = (if ex_bytes x < 4 then None else Some (slice (ex_read_buffer x) 4 (ex_bytes x)))"

text \<open>The loop of \<open>OACK::fields\<close>.\<close>

function oack_fields :: "ReadCursor \<Rightarrow> (rstr \<rightharpoonup> rstr) \<Rightarrow> (rstr \<rightharpoonup> rstr) run" where
  "oack_fields c found =
    (case extract_string c of
       (Inl _, _) \<Rightarrow> Some found
     | (Inr name, c) \<Rightarrow>
        (case extract_string c of
           (Inl _, _) \<Rightarrow> None
         | (Inr val, c) \<Rightarrow> oack_fields c (found(name \<mapsto> val))))"
  by pat_completeness auto
termination
  by (relation "measure (\<lambda>(c, _). length (datagram c) - index c)")
    (auto dest!: extract_string_decreases [OF sym] intro: less_trans)

definition OACK_fields :: "exchange \<Rightarrow> (rstr \<rightharpoonup> rstr) run" where
  "OACK_fields x =
    (if ex_bytes x < 2 then None
     else oack_fields (ReadCursor_new (slice (ex_read_buffer x) 2 (ex_bytes x))) Map.empty)"

section \<open>Acknowledging\<close>

definition send_numbers :: "exchange \<Rightarrow> u16 \<Rightarrow> ((io_error + unit) \<times> exchange) run" where
  "send_numbers x block_num = do {
     (_, c) \<leftarrow> must_put_ushort (WriteCursor_new (ex_write_buffer x)) ACK;
     (buffer_size, c) \<leftarrow> must_put_ushort c block_num;
     case ClientStream_send (datagram_stream x) (take buffer_size (buffer c)) of
       (r, cs) \<Rightarrow> Some (r, x\<lparr>datagram_stream := cs, ex_write_buffer := buffer c, ex_bytes := buffer_size\<rparr>)
   }"

definition OACK_acknowledge :: "exchange \<Rightarrow> (exchange TFTPClientError + exchange) run" where
  "OACK_acknowledge x = do {
     (r, x) \<leftarrow> send_numbers x 0;
     Some (case r of Inl e \<Rightarrow> Inl (ClientIO e) | Inr _ \<Rightarrow> Inr x)
   }"

definition Block_acknowledge :: "exchange \<Rightarrow> exchange run" where
  "Block_acknowledge x = do {
     (r, x) \<leftarrow> send_numbers x (from_be_bytes (ex_read_buffer x ! 2) (ex_read_buffer x ! 3));
     (case r of Inl _ \<Rightarrow> None | Inr _ \<Rightarrow> Some x)
   }"

definition Block_send_error :: "exchange \<Rightarrow> u16 \<Rightarrow> rstr \<Rightarrow> exchange run" where
  "Block_send_error x code msg = do {
     (_, c) \<leftarrow> must_put_ushort (WriteCursor_new (ex_write_buffer x)) ERROR;
     (_, c) \<leftarrow> must_put_ushort c code;
     (buffer_size, c) \<leftarrow> must_put_string c msg;
     case ClientStream_send (datagram_stream x) (take buffer_size (buffer c)) of
       (Inl _, _) \<Rightarrow> None
     | (Inr _, cs) \<Rightarrow> Some (x\<lparr>datagram_stream := cs, ex_write_buffer := buffer c, ex_bytes := buffer_size\<rparr>)
   }"

definition SentError_read_some :: "exchange \<Rightarrow> (io_error + bytes) \<times> exchange" where
  "SentError_read_some x =
    (case ClientStream_recv (datagram_stream x) (ex_read_buffer x) 0 of
       (r, cs, buf) \<Rightarrow> (map_sum id (\<lambda>n. take n buf) r, x\<lparr>datagram_stream := cs, ex_read_buffer := buf\<rparr>))"

section \<open>Downloading\<close>

type_synonym downloaded = "(DownloadError + bytes) \<times> udp_socket"

partial_function (option) download_blocks :: "client_env \<Rightarrow> bytes \<Rightarrow> exchange \<Rightarrow> downloaded option" where
  "download_blocks env acc block = do {
     d \<leftarrow> Block_data block;
     sent_ack \<leftarrow> Block_acknowledge block;
     if length d = 512 then do {
       (r, sock) \<leftarrow> SentACK_read_next env sent_ack;
       (case r of
          Inl e \<Rightarrow> Some (Inl (DownloadError_from env (SentACK_debug env) e), sock)
        | Inr block \<Rightarrow> download_blocks env (acc @ d) block)
     }
     else Some (Inr (acc @ d), cs_socket (datagram_stream sent_ack))
   }"

definition client_download :: "client_env \<Rightarrow> TFTPClient \<Rightarrow> rstr \<Rightarrow> downloaded option" where
  "client_download env client file = do {
     (r, sock) \<leftarrow> send_plain_read_request client file;
     (case r of
        Inl e \<Rightarrow> Some (Inl (DownloadError (show_io env e)), sock)
      | Inr rq \<Rightarrow> do {
          (r, sock) \<leftarrow> SentPlainReadRequest_read_next rq;
          (case r of
             Inl e \<Rightarrow> Some (Inl (DownloadError_from env (SentPlainReadRequest_debug env) e), sock)
           | Inr block \<Rightarrow> download_blocks env [] block)
        })
   }"

definition parse_u16 :: "rstr \<Rightarrow> u16 option" where
  "parse_u16 s = (case parse_usize s of Some n \<Rightarrow> if n < 65536 then Some (of_nat n) else None | None \<Rightarrow> None)"

text \<open>What the next block is read from: the acknowledgement or the block before it.\<close>

datatype position_in_window = AtAck exchange | AtBlock exchange

fun read_at :: "client_env \<Rightarrow> position_in_window \<Rightarrow> ((DownloadError + exchange) \<times> udp_socket) run" where
  "read_at env (AtBlock x) = do {
     (r, sock) \<leftarrow> Block_read_next env x;
     Some (map_sum (DownloadError_from env Block_debug) id r, sock)
   }"
| "read_at env (AtAck x) = do {
     (r, sock) \<leftarrow> SentACK_read_next env x;
     Some (map_sum (DownloadError_from env (SentACK_debug env)) id r, sock)
   }"

fun window_blocks :: "client_env \<Rightarrow> nat \<Rightarrow> position_in_window \<Rightarrow> bytes
    \<Rightarrow> (DownloadError \<times> udp_socket + bool \<times> position_in_window \<times> bytes) run" where
  "window_blocks env 0 at acc = Some (Inr (False, at, acc))"
| "window_blocks env (Suc n) at acc = do {
     (r, sock) \<leftarrow> read_at env at;
     (case r of
        Inl e \<Rightarrow> Some (Inl (e, sock))
      | Inr block \<Rightarrow> do {
          d \<leftarrow> Block_data block;
          if length d < 512 then Some (Inr (True, AtBlock block, acc @ d))
          else window_blocks env n (AtBlock block) (acc @ d)
        })
   }"

partial_function (option) window_loop :: "client_env \<Rightarrow> u16 \<Rightarrow> position_in_window \<Rightarrow> bytes \<Rightarrow> downloaded option" where
  "window_loop env window_size at acc = do {
     r \<leftarrow> window_blocks env (unat window_size) at acc;
     (case r of
        Inl (e, sock) \<Rightarrow> Some (Inl e, sock)
      | Inr (fin, at, acc) \<Rightarrow>
         (case at of
            AtAck _ \<Rightarrow> None
          | AtBlock block \<Rightarrow> do {
              sent_ack \<leftarrow> Block_acknowledge block;
              if fin then Some (Inr acc, cs_socket (datagram_stream sent_ack))
              else window_loop env window_size (AtAck sent_ack) acc
            }))
   }"

definition check_window :: "u16 \<Rightarrow> (rstr \<rightharpoonup> rstr) \<Rightarrow> DownloadError + unit" where
  "check_window window_size found =
    (case found WINDOW_SIZE of
       None \<Rightarrow> Inl (DownloadError (str ''Window size not set''))
     | Some received \<Rightarrow>
        (case parse_u16 received of
           None \<Rightarrow> Inl (DownloadError (str ''Window size not recognized: '' @ received))
         | Some n \<Rightarrow>
             if n \<noteq> window_size
             then Inl (DownloadError (str ''Window size mismatch: Received '' @ usize_to_string (unat n) @ str '', expected ''
               @ usize_to_string (unat window_size)))
             else Inr ()))"

definition client_download_window :: "client_env \<Rightarrow> TFTPClient \<Rightarrow> rstr \<Rightarrow> u16 \<Rightarrow> downloaded option" where
  "client_download_window env client file window_size = do {
     (r, sock) \<leftarrow> send_optioned_read_request client file [(WINDOW_SIZE, usize_to_string (unat window_size))];
     (case r of
        Inl e \<Rightarrow> Some (Inl (DownloadError (show_io env e)), sock)
      | Inr rq \<Rightarrow> do {
          (r, sock) \<leftarrow> SentReadRequestWithOpts_read_oack rq;
          (case r of
             Inl e \<Rightarrow> Some (Inl (DownloadError_from env SentReadRequestWithOpts_debug e), sock)
           | Inr oack \<Rightarrow> do {
               found \<leftarrow> OACK_fields oack;
               (case check_window window_size found of
                  Inl e \<Rightarrow> Some (Inl e, sock)
                | Inr _ \<Rightarrow> do {
                    r \<leftarrow> OACK_acknowledge oack;
                    (case r of
                       Inl e \<Rightarrow> Some (Inl (DownloadError_from env OACK_debug e), sock)
                     | Inr sent_ack \<Rightarrow> window_loop env window_size (AtAck sent_ack) [])
                  })
             })
        })
   }"

declare download_blocks.simps [code] window_loop.simps [code]

section \<open>The request\<close>

lemma clean_must_put:
  assumes "clean c pre n"
  shows "2 \<le> n \<Longrightarrow> \<exists>c'. must_put_ushort c v = Some (length pre + 2, c') \<and> clean c' (pre @ be_bytes v) (n - 2)"
    "length s + 1 < n \<Longrightarrow> \<exists>c'. must_put_string c s = Some (length pre + length s + 1, c')
      \<and> clean c' (pre @ s @ [0]) (n - (length s + 1))"
  using clean_put_ushort [OF assms, of v] clean_put_string [OF assms, of s] by (auto simp: must_put_ushort_def must_put_string_def)

lemma put_request_options_clean:
  assumes "clean c pre n" "length (option_bytes opts) < n" "k = length pre"
  shows "\<exists>c'. put_request_options c opts k = Some (length pre + length (option_bytes opts), c')
    \<and> clean c' (pre @ option_bytes opts) (n - length (option_bytes opts))"
  using assms
proof (induction opts arbitrary: c pre n k)
  case (Cons o1 opts)
  obtain name val where o1: "o1 = (name, val)" by fastforce
  have len: "length name + length val + 2 + length (option_bytes opts) < n"
    using Cons.prems(2) by (simp add: o1 option_bytes_def)
  let ?n1 = "n - (length name + 1)"
  have l1: "length name + 1 < n" "length val + 1 < ?n1" "length (option_bytes opts) < ?n1 - (length val + 1)" using len by simp_all
  obtain c1 where c1: "must_put_string c name = Some (length pre + length name + 1, c1)"
    "clean c1 (pre @ name @ [0]) ?n1"
    using clean_must_put(2) [OF Cons.prems(1) l1(1)] by auto
  obtain c2 where c2: "must_put_string c1 val = Some (length (pre @ name @ [0]) + length val + 1, c2)"
    "clean c2 ((pre @ name @ [0]) @ val @ [0]) (?n1 - (length val + 1))"
    using clean_must_put(2) [OF c1(2) l1(2)] by auto
  have "?n1 - (length val + 1) - length (option_bytes opts) = n - length (option_bytes (o1 # opts))"
    by (simp add: o1 option_bytes_def)
  with Cons.IH [OF c2(2) l1(3) refl] c1(1) c2(1) show ?case by (auto simp: o1 option_bytes_def add.assoc)
qed (simp add: option_bytes_def)

lemma make_read_request_clean:
  assumes "length (rrq_packet name []) < n"
  shows "\<exists>c. make_read_request (replicate n 0) name = Some (length (rrq_packet name []), c)
    \<and> clean c (rrq_packet name []) (n - length (rrq_packet name []))"
proof -
  let ?m = "n - 2 - (length name + 1)" and ?o = "str ''octet''"
  have len: "length (rrq_packet name []) = length name + 9" "length ?o = 5" "length (be_bytes RRQ) = 2"
    by (simp_all add: rrq_packet_def OCTET_def str_def be_bytes_def option_bytes_def)
  then have n: "2 \<le> n" "length name + 1 < n - 2" "length ?o + 1 < ?m" "?m - (length ?o + 1) = n - length (rrq_packet name [])"
    using assms by simp_all
  obtain c1 where c1: "must_put_ushort (WriteCursor_new (replicate n 0)) RRQ = Some (2, c1)" "clean c1 (be_bytes RRQ) (n - 2)"
    using clean_must_put(1) [OF clean_new n(1), of RRQ] by auto
  obtain c2 k2 where c2: "must_put_string c1 name = Some (k2, c2)" "clean c2 (be_bytes RRQ @ name @ [0]) ?m"
    using clean_must_put(2) [OF c1(2) n(2)] by auto
  obtain c3 where c3: "must_put_string c2 ?o = Some (length (be_bytes RRQ @ name @ [0]) + length ?o + 1, c3)"
    "clean c3 ((be_bytes RRQ @ name @ [0]) @ ?o @ [0]) (?m - (length ?o + 1))"
    using clean_must_put(2) [OF c2(2) n(3)] by blast
  have "(be_bytes RRQ @ name @ [0]) @ ?o @ [0] = rrq_packet name []"
    by (simp add: rrq_packet_def OCTET_def option_bytes_def)
  then show ?thesis using c1(1) c2(1) c3 len unfolding n(4) by (simp add: make_read_request_def)
qed

lemma rrq_packet_options: "rrq_packet name opts = rrq_packet name [] @ option_bytes opts"
  by (simp add: rrq_packet_def)

text \<open>The request that leaves the client is the packet of the protocol.\<close>

lemma send_read_request_packet:
  assumes "sock_results sock = []" "length (rrq_packet name opts) < CLIENT_BUFFER_SIZE"
  obtains rq where "send_read_request (TFTPClient_new sock addr) name opts = Some (Inr rq, local_socket rq)"
    "local_socket rq = sock\<lparr>sock_sent := sock_sent sock @ [(addr, rrq_packet name opts)]\<rparr>" "remote_addr rq = addr"
    "length (read_buffer rq) = CLIENT_BUFFER_SIZE" "length (write_buffer rq) = CLIENT_BUFFER_SIZE"
    "write_buffer rq = rrq_packet name opts @ replicate (CLIENT_BUFFER_SIZE - length (rrq_packet name opts)) 0"
proof -
  let ?n = CLIENT_BUFFER_SIZE
  have len: "length (rrq_packet name []) + length (option_bytes opts) < ?n"
    using assms(2) by (simp add: rrq_packet_options [of name opts])
  obtain c1 where c1: "make_read_request (replicate ?n 0) name = Some (length (rrq_packet name []), c1)"
    "clean c1 (rrq_packet name []) (?n - length (rrq_packet name []))"
    using make_read_request_clean [of name ?n] len by auto
  obtain c2 where c2: "put_request_options c1 opts (length (rrq_packet name [])) = Some (length (rrq_packet name opts), c2)"
    "clean c2 (rrq_packet name opts) (?n - length (rrq_packet name opts))"
    using put_request_options_clean [OF c1(2) less_diff_conv [THEN iffD2] refl, of opts] len
    by (auto simp: rrq_packet_options [of name opts] add.commute)
  then have b: "take (length (rrq_packet name opts)) (buffer c2) = rrq_packet name opts" "length (buffer c2) = ?n"
    using assms(2) by (simp_all add: clean_def)
  show ?thesis
    by (rule that [of "\<lparr>local_socket = sock\<lparr>sock_sent := sock_sent sock @ [(addr, rrq_packet name opts)]\<rparr>, remote_addr = addr,
        read_buffer = replicate ?n 0, write_buffer = buffer c2, rq_file_name = name, rq_options = opts,
        sent_bytes = length (rrq_packet name opts)\<rparr>"])
      (use c1(1) c2 b assms(1) in \<open>simp_all add: send_read_request_def TFTPClient_new_def socket_send_to_def clean_def\<close>)
qed

section \<open>Blocks\<close>

definition at_block :: "bytes \<Rightarrow> exchange \<Rightarrow> bool" where
  "at_block p x \<longleftrightarrow> ex_bytes x = length p \<and> take (length p) (ex_read_buffer x) = p"

definition usable :: "exchange \<Rightarrow> bool" where
  "usable x \<longleftrightarrow> length (ex_read_buffer x) = CLIENT_BUFFER_SIZE \<and> length (ex_write_buffer x) = CLIENT_BUFFER_SIZE
    \<and> sock_results (cs_socket (datagram_stream x)) = []"

abbreviation ex_events :: "exchange \<Rightarrow> net_event list" where
  "ex_events x \<equiv> sock_events (cs_socket (datagram_stream x))"

abbreviation ex_sent :: "exchange \<Rightarrow> (SocketAddr \<times> bytes) list" where
  "ex_sent x \<equiv> sock_sent (cs_socket (datagram_stream x))"

abbreviation ex_peer :: "exchange \<Rightarrow> SocketAddr" where
  "ex_peer x \<equiv> cs_peer (datagram_stream x)"

lemma reply_with_wanted:
  assumes "4 \<le> length d" "take 2 d = be_bytes wanted"
  shows "reply_with wanted d = Some (Inr ())"
proof -
  from assms have "from_be_bytes (d ! 0) (d ! 1) = wanted"
    by (cases d; cases "tl d") (auto simp: be_bytes_def)
  with assms(1) show ?thesis by (simp add: reply_with_def extract_ushort_def)
qed

lemma read_block_packet:
  assumes "ex_events x = Arrives (ex_peer x) p # es" "usable x" "4 \<le> length p" "length p \<le> CLIENT_BUFFER_SIZE" "take 2 p = be_bytes DATA"
  obtains x' where "read_block env x = Some (Inr x', cs_socket (datagram_stream x'))" "at_block p x'" "usable x'"
    "ex_events x' = es" "ex_sent x' = ex_sent x" "ex_peer x' = ex_peer x"
proof -
  let ?cs = "(datagram_stream x)\<lparr>cs_socket := (cs_socket (datagram_stream x))\<lparr>sock_events := es\<rparr>\<rparr>"
  let ?buf = "recv_into (ex_read_buffer x) p"
  let ?x = "x\<lparr>datagram_stream := ?cs, ex_read_buffer := ?buf, ex_bytes := length p\<rparr>"
  have p: "take (length p) ?buf = p" using assms(2,4) by (simp add: take_recv_into usable_def)
  have "guarded_recv (outer_timer env) (datagram_stream x) (ex_read_buffer x) 4 = (Inr (Inr (length p)), ?cs, ?buf)"
    using assms(1-4) by (simp add: guarded_recv_def ClientStream_recv_def usable_def Let_def)
  with p have "read_block env x = Some (Inr ?x, cs_socket (datagram_stream ?x))"
    by (simp add: read_block_def reply_with_wanted [OF assms(3,5)] Let_def)
  then show ?thesis by (rule that) (use p assms(2) in \<open>simp_all add: at_block_def usable_def\<close>)
qed

lemma read_first_packet:
  assumes "sock_events (local_socket rq) = Arrives peer p # es" "fst peer = fst (remote_addr rq)" "sock_results (local_socket rq) = []"
    and "length (read_buffer rq) = CLIENT_BUFFER_SIZE" "length (write_buffer rq) = CLIENT_BUFFER_SIZE"
    and "4 \<le> length p" "length p \<le> CLIENT_BUFFER_SIZE" "take 2 p = be_bytes wanted"
  obtains x where "read_first wanted rq = Some (Inr x, cs_socket (datagram_stream x))" "at_block p x" "usable x"
    "ex_events x = es" "ex_sent x = sock_sent (local_socket rq)" "ex_peer x = peer" "ex_write_buffer x = write_buffer rq"
proof -
  let ?buf = "recv_into (read_buffer rq) p"
  let ?x = "\<lparr>datagram_stream = \<lparr>cs_socket = (local_socket rq)\<lparr>sock_events := es\<rparr>, cs_peer = peer\<rparr>, ex_read_buffer = ?buf,
      ex_write_buffer = write_buffer rq, ex_bytes = length p\<rparr>"
  have p: "take (length p) ?buf = p" using assms(4,7) by (simp add: take_recv_into)
  with assms(1,2,4,7) have "read_first wanted rq = Some (Inr ?x, cs_socket (datagram_stream ?x))"
    by (simp add: read_first_def reply_with_wanted [OF assms(6,8)] Let_def)
  then show ?thesis by (rule that) (use p assms(3-5) in \<open>simp_all add: at_block_def usable_def\<close>)
qed

lemma send_numbers_packet:
  assumes "usable x"
  obtains x' where "send_numbers x v = Some (Inr (), x')" "usable x'" "ex_sent x' = ex_sent x @ [(ex_peer x, ack_packet v)]"
    "ex_events x' = ex_events x" "ex_peer x' = ex_peer x"
proof -
  let ?w = "ex_write_buffer x" and ?cs = "datagram_stream x"
  have len: "length ?w = 1536" using assms by (simp add: usable_def CLIENT_BUFFER_SIZE_def)
  let ?w' = "write_at (write_at ?w 0 (be_bytes ACK)) 2 (be_bytes v)"
  let ?cs' = "?cs\<lparr>cs_socket := (cs_socket ?cs)\<lparr>sock_sent := sock_sent (cs_socket ?cs) @ [(cs_peer ?cs, ack_packet v)]\<rparr>\<rparr>"
  have "take 4 ?w' = ack_packet v" "length ?w' = 1536"
    using len by (simp_all add: write_at_def ack_packet_def be_bytes_def)
  then have "send_numbers x v = Some (Inr (), x\<lparr>datagram_stream := ?cs', ex_write_buffer := ?w', ex_bytes := 4\<rparr>)"
    using assms len
    by (simp add: send_numbers_def must_put_ushort_def put_ushort_eq ClientStream_send_def socket_send_to_def usable_def
        numeral_2_eq_2 [symmetric] del: be_bytes_ACK)
  then show ?thesis by (rule that) (use assms \<open>length ?w' = 1536\<close> in \<open>simp_all add: usable_def CLIENT_BUFFER_SIZE_def\<close>)
qed

lemma data_packet_fits:
  assumes "a < N" "N = block_count data 512"
  shows "4 \<le> length (data_packet data 512 (Suc a))" "length (data_packet data 512 (Suc a)) \<le> CLIENT_BUFFER_SIZE"
    "take 2 (data_packet data 512 (Suc a)) = be_bytes DATA" "length (chunk data 512 (Suc a)) < 512 \<longleftrightarrow> N = Suc a"
    "length (chunk data 512 (Suc a)) \<le> 512"
  using length_data_packet [of 512 a data] assms
  by (simp_all add: CLIENT_BUFFER_SIZE_def data_packet_def be_bytes_def chunk_def)

lemma Block_data_at:
  assumes "at_block (data_packet data bs k) x"
  shows "Block_data x = Some (chunk data bs k)"
proof -
  have "slice (ex_read_buffer x) 4 (ex_bytes x) = drop 4 (take (ex_bytes x) (ex_read_buffer x))" by (simp add: slice_def drop_take)
  with assms show ?thesis by (simp add: at_block_def Block_data_def data_packet_def be_bytes_def)
qed

lemma Block_acknowledge_at:
  assumes "at_block (data_packet data bs k) x" "usable x"
  obtains x' where "Block_acknowledge x = Some x'" "usable x'" "ex_sent x' = ex_sent x @ [(ex_peer x, ack_packet (of_nat k))]"
    "ex_events x' = ex_events x" "ex_peer x' = ex_peer x"
proof -
  have "ex_read_buffer x ! i = data_packet data bs k ! i" if "i < 4" for i
    using assms(1) that nth_take [of i "length (data_packet data bs k)" "ex_read_buffer x"]
    by (simp add: at_block_def data_packet_def)
  then have n: "from_be_bytes (ex_read_buffer x ! 2) (ex_read_buffer x ! 3) = of_nat k"
    by (simp add: data_packet_def be_bytes_def from_be_bytes_eq_iff)
  obtain x' where x': "send_numbers x (of_nat k) = Some (Inr (), x')" "usable x'"
    "ex_sent x' = ex_sent x @ [(ex_peer x, ack_packet (of_nat k))]" "ex_events x' = ex_events x" "ex_peer x' = ex_peer x"
    by (rule send_numbers_packet [OF assms(2)])
  then have "Block_acknowledge x = Some x'" by (simp add: Block_acknowledge_def n)
  then show ?thesis by (rule that) (rule x')+
qed

text \<open>A plain download acknowledges block by block.\<close>

lemma download_blocks_file:
  assumes "at_block (data_packet data 512 (Suc a)) x" "usable x" "a < N" "N = block_count data 512"
    and "ex_events x = block_events (ex_peer x) data 512 (Suc a) N"
  shows "\<exists>sock. download_blocks env acc x = Some (Inr (acc @ concat (map (chunk data 512) [Suc a..<Suc N])), sock)
    \<and> sock_sent sock = ex_sent x @ map (\<lambda>k. (ex_peer x, ack_packet (of_nat k))) [Suc a..<Suc N] \<and> sock_events sock = []"
  using assms
proof (induction "N - a" arbitrary: a x acc)
  case (Suc m)
  obtain y where y: "Block_acknowledge x = Some y" "usable y" "ex_sent y = ex_sent x @ [(ex_peer x, ack_packet (of_nat (Suc a)))]"
    "ex_events y = ex_events x" "ex_peer y = ex_peer x"
    by (rule Block_acknowledge_at [OF Suc.prems(1,2)])
  note data = Block_data_at [OF Suc.prems(1)]
  note len = data_packet_fits(4,5) [OF Suc.prems(3,4)]
  show ?case
  proof (cases "N = Suc a")
    case True
    then show ?thesis
      using data len y Suc.prems(5) by (subst download_blocks.simps) (simp add: block_events_def)
  next
    case False
    with Suc.prems(3) have lt: "Suc a < N" by simp
    then have "ex_events y = Arrives (ex_peer y) (data_packet data 512 (Suc (Suc a))) # block_events (ex_peer y) data 512 (Suc (Suc a)) N"
      using y(4,5) Suc.prems(5) by (simp add: block_events_Cons)
    from read_block_packet [OF this y(2) data_packet_fits(1-3) [OF lt Suc.prems(4)], of env] obtain z where
      z: "read_block env y = Some (Inr z, cs_socket (datagram_stream z))" "at_block (data_packet data 512 (Suc (Suc a))) z" "usable z"
      "ex_events z = block_events (ex_peer y) data 512 (Suc (Suc a)) N" "ex_sent z = ex_sent y" "ex_peer z = ex_peer y" by blast
    have "m = N - Suc a" "ex_events z = block_events (ex_peer z) data 512 (Suc (Suc a)) N" using Suc.hyps(2) z(4,6) by simp_all
    from Suc.hyps(1) [OF this(1) z(2,3) lt Suc.prems(4) this(2)] obtain sock where
      "download_blocks env (acc @ chunk data 512 (Suc a)) z
        = Some (Inr ((acc @ chunk data 512 (Suc a)) @ concat (map (chunk data 512) [Suc (Suc a)..<Suc N])), sock)"
      "sock_sent sock = ex_sent z @ map (\<lambda>k. (ex_peer z, ack_packet (of_nat k))) [Suc (Suc a)..<Suc N]" "sock_events sock = []"
      by blast
    moreover have "length (chunk data 512 (Suc a)) = 512" using len False by linarith
    moreover have "[Suc a..<Suc N] = Suc a # [Suc (Suc a)..<Suc N]" using Suc.prems(3) by (simp add: upt_conv_Cons del: upt_Suc)
    ultimately show ?thesis
      using data y z by (subst download_blocks.simps) (simp add: SentACK_read_next_def del: upt_Suc of_nat_Suc)
  qed
qed simp

lemma client_download_file:
  assumes "sock_results sock = []" "length (rrq_packet name []) < CLIENT_BUFFER_SIZE" "fst peer = fst addr" "N = block_count data 512"
    and "sock_events sock = block_events peer data 512 0 N" "sock_sent sock = []"
  shows "\<exists>sock'. client_download env (TFTPClient_new sock addr) name = Some (Inr data, sock')
    \<and> sock_sent sock' = (addr, rrq_packet name []) # map (\<lambda>k. (peer, ack_packet (of_nat k))) [1..<Suc N] \<and> sock_events sock' = []"
proof -
  have N: "0 < N" using assms(4) by (simp add: block_count_def)
  obtain rq where rq: "send_read_request (TFTPClient_new sock addr) name [] = Some (Inr rq, local_socket rq)"
    "local_socket rq = sock\<lparr>sock_sent := sock_sent sock @ [(addr, rrq_packet name [])]\<rparr>" "remote_addr rq = addr"
    "length (read_buffer rq) = CLIENT_BUFFER_SIZE" "length (write_buffer rq) = CLIENT_BUFFER_SIZE"
    by (rule send_read_request_packet [OF assms(1,2)])
  have "sock_events (local_socket rq) = Arrives peer (data_packet data 512 (Suc 0)) # block_events peer data 512 (Suc 0) N"
    "fst peer = fst (remote_addr rq)" "sock_results (local_socket rq) = []"
    using rq(2,3) assms N by (simp_all add: block_events_Cons)
  from read_first_packet [OF this rq(4,5) data_packet_fits(1-3) [OF N assms(4)]] obtain x where
    x: "read_first DATA rq = Some (Inr x, cs_socket (datagram_stream x))" "at_block (data_packet data 512 (Suc 0)) x" "usable x"
    "ex_events x = block_events peer data 512 (Suc 0) N" "ex_sent x = sock_sent (local_socket rq)" "ex_peer x = peer" by blast
  from download_blocks_file [OF x(2,3) N assms(4), of env "[]"] x rq assms(6) blocks_reassemble [of 512 data]
  show ?thesis
    by (auto simp: client_download_def send_plain_read_request_def SentPlainReadRequest_read_next_def assms(4) simp del: upt_Suc)
qed

section \<open>Windows\<close>

fun at_exchange :: "position_in_window \<Rightarrow> exchange" where
  "at_exchange (AtAck x) = x"
| "at_exchange (AtBlock x) = x"

lemma read_at_packet:
  assumes "read_block env (at_exchange at) = Some (Inr x, sock)"
  shows "read_at env at = Some (Inr x, sock)"
  using assms by (cases at) (simp_all add: Block_read_next_def SentACK_read_next_def)

lemma window_blocks_file:
  assumes "usable (at_exchange at)" "a < N" "N = block_count data 512" "0 < m" "e = min (a + m) N"
    and "ex_events (at_exchange at) = block_events (ex_peer (at_exchange at)) data 512 a N"
  shows "\<exists>x. window_blocks env m at acc = Some (Inr (N \<le> a + m, AtBlock x, acc @ concat (map (chunk data 512) [Suc a..<Suc e])))
    \<and> at_block (data_packet data 512 e) x \<and> usable x \<and> ex_sent x = ex_sent (at_exchange at) \<and> ex_peer x = ex_peer (at_exchange at)
    \<and> ex_events x = block_events (ex_peer x) data 512 e N"
  using assms
proof (induction m arbitrary: a at acc)
  case (Suc m)
  let ?y = "at_exchange at"
  have "ex_events ?y = Arrives (ex_peer ?y) (data_packet data 512 (Suc a)) # block_events (ex_peer ?y) data 512 (Suc a) N"
    using Suc.prems(2,6) by (simp add: block_events_Cons)
  from read_block_packet [OF this Suc.prems(1) data_packet_fits(1-3) [OF Suc.prems(2,3)], of env] obtain x where
    x: "read_block env ?y = Some (Inr x, cs_socket (datagram_stream x))" "at_block (data_packet data 512 (Suc a)) x" "usable x"
    "ex_events x = block_events (ex_peer ?y) data 512 (Suc a) N" "ex_sent x = ex_sent ?y" "ex_peer x = ex_peer ?y" by blast
  have step: "window_blocks env (Suc m) at acc = (if N = Suc a then Some (Inr (True, AtBlock x, acc @ chunk data 512 (Suc a)))
      else window_blocks env m (AtBlock x) (acc @ chunk data 512 (Suc a)))"
    using read_at_packet [OF x(1)] Block_data_at [OF x(2)] data_packet_fits(4) [OF Suc.prems(2,3)] by simp
  show ?case
  proof (cases "N = Suc a \<or> m = 0")
    case True
    then have "e = Suc a" "N \<le> a + Suc m \<longleftrightarrow> N = Suc a" using Suc.prems(2,5) by auto
    then show ?thesis using True step x by (auto simp del: of_nat_Suc)
  next
    case False
    have "usable (at_exchange (AtBlock x))" "Suc a < N" "0 < m" "e = min (Suc a + m) N"
      "ex_events (at_exchange (AtBlock x)) = block_events (ex_peer (at_exchange (AtBlock x))) data 512 (Suc a) N"
      using False Suc.prems(2,5) x by auto
    from Suc.IH [OF this(1,2) Suc.prems(3) this(3-5), of "acc @ chunk data 512 (Suc a)"] obtain z where
      "window_blocks env m (AtBlock x) (acc @ chunk data 512 (Suc a)) = Some (Inr (N \<le> Suc a + m, AtBlock z,
        (acc @ chunk data 512 (Suc a)) @ concat (map (chunk data 512) [Suc (Suc a)..<Suc e])))"
      "at_block (data_packet data 512 e) z" "usable z" "ex_sent z = ex_sent x" "ex_peer z = ex_peer x"
      "ex_events z = block_events (ex_peer z) data 512 e N" by auto
    moreover have "[Suc a..<Suc e] = Suc a # [Suc (Suc a)..<Suc e]"
      using False Suc.prems(2,5) by (intro upt_conv_Cons) auto
    ultimately show ?thesis using step False x by (intro exI [where x = z]) (simp del: upt_Suc of_nat_Suc)
  qed
qed simp

lemma window_loop_file:
  assumes "usable x" "a < N" "N = block_count data 512" "L = unat window_size" "0 < L"
    and "ex_events x = block_events (ex_peer x) data 512 a N"
  shows "\<exists>sock. window_loop env window_size (AtAck x) acc = Some (Inr (acc @ concat (map (chunk data 512) [Suc a..<Suc N])), sock)
    \<and> sock_sent sock = ex_sent x @ map (\<lambda>k. (ex_peer x, ack_packet (of_nat k))) (ack_points L N a) \<and> sock_events sock = []"
  using assms
proof (induction "N - a" arbitrary: a x acc rule: less_induct)
  case less
  define e where "e = min (a + L) N"
  obtain y where y: "window_blocks env L (AtAck x) acc
      = Some (Inr (N \<le> a + L, AtBlock y, acc @ concat (map (chunk data 512) [Suc a..<Suc e])))"
    "at_block (data_packet data 512 e) y" "usable y" "ex_sent y = ex_sent x" "ex_peer y = ex_peer x"
    "ex_events y = block_events (ex_peer y) data 512 e N"
    using window_blocks_file [OF _ less.prems(2,3,5) e_def, of "AtAck x" env acc] less.prems(1,6) by auto
  obtain z where z: "Block_acknowledge y = Some z" "usable z" "ex_sent z = ex_sent y @ [(ex_peer y, ack_packet (of_nat e))]"
    "ex_events z = ex_events y" "ex_peer z = ex_peer y" by (rule Block_acknowledge_at [OF y(2,3)])
  have pts: "ack_points L N a = e # ack_points L N e" using less.prems(2,5) by (subst ack_points.simps) (simp add: e_def)
  have step: "window_loop env window_size (AtAck x) acc = (if N \<le> a + L
      then Some (Inr (acc @ concat (map (chunk data 512) [Suc a..<Suc e])), cs_socket (datagram_stream z))
      else window_loop env window_size (AtAck z) (acc @ concat (map (chunk data 512) [Suc a..<Suc e])))"
    using y(1) z(1) less.prems(4) by (subst window_loop.simps) (simp del: upt_Suc)
  show ?case
  proof (cases "N \<le> a + L")
    case True
    then have "e = N" by (simp add: e_def)
    then show ?thesis using step True pts y z by (simp add: ack_points.simps [of L N N] block_events_def del: upt_Suc)
  next
    case False
    then have e: "e = a + L" by (simp add: e_def)
    have "N - e < N - a" "e < N" "ex_events z = block_events (ex_peer z) data 512 e N" using False e less.prems(5) y(6) z(4,5) by simp_all
    from less.hyps [OF this(1) z(2) this(2) less.prems(3-5) this(3)] obtain sock where
      "window_loop env window_size (AtAck z) (acc @ concat (map (chunk data 512) [Suc a..<Suc e]))
        = Some (Inr ((acc @ concat (map (chunk data 512) [Suc a..<Suc e])) @ concat (map (chunk data 512) [Suc e..<Suc N])), sock)"
      "sock_sent sock = ex_sent z @ map (\<lambda>k. (ex_peer z, ack_packet (of_nat k))) (ack_points L N e)" "sock_events sock = []" by blast
    moreover have "[Suc a..<Suc N] = [Suc a..<Suc e] @ [Suc e..<Suc N]"
      using e False less.prems(5) upt_add_eq_append [of "Suc a" "Suc e" "N - e"] by (simp del: upt_Suc)
    ultimately show ?thesis using step False pts y z by (simp del: upt_Suc)
  qed
qed

text \<open>The acknowledgement of the window option is read back.\<close>

lemma oack_fields_option:
  assumes "wf_str name" "wf_str val" "x = \<lparr>datagram = name @ 0 # val @ [0], index = 0\<rparr>"
  shows "oack_fields x found = Some (found(name \<mapsto> val))"
proof -
  have 1: "extract_string x = (Inr name, x\<lparr>index := length name + 1\<rparr>)"
    using extract_string_at [of x "[]" name "val @ [0]"] assms by (simp add: wf_str_def)
  have 2: "extract_string (x\<lparr>index := length name + 1\<rparr>) = (Inr val, x\<lparr>index := length name + length val + 2\<rparr>)"
    using extract_string_at [of "x\<lparr>index := length name + 1\<rparr>" "name @ [0]" val "[]"] assms by (simp add: wf_str_def)
  have 3: "extract_string (x\<lparr>index := length name + length val + 2\<rparr>)
      = (Inl (io_kind UnexpectedEof), x\<lparr>index := length name + length val + 2\<rparr>)"
    using assms(3) by (intro extract_string_eof) simp
  have "oack_fields (x\<lparr>index := length name + length val + 2\<rparr>) g = Some g" for g
    using 3 by (subst oack_fields.simps) simp
  then show ?thesis using 1 2 by (subst oack_fields.simps) simp
qed

lemma check_window_own: "check_window w [WINDOW_SIZE \<mapsto> usize_to_string (unat w)] = Inr ()"
proof -
  have "unat w < 65536" using unsigned_less [of w] by simp
  moreover from this have "unat w < usize_modulus" by (rule less_trans) (simp add: usize_modulus_def)
  ultimately show ?thesis by (simp add: check_window_def parse_u16_def parse_usize_to_string)
qed

lemma client_download_window_file:
  assumes "sock_results sock = []" "opts = [(WINDOW_SIZE, usize_to_string (unat w))]" "length (rrq_packet name opts) < CLIENT_BUFFER_SIZE"
    and "fst peer = fst addr" "N = block_count data 512" "0 < unat w"
    and "sock_events sock = Arrives peer (oack_packet opts) # block_events peer data 512 0 N" "sock_sent sock = []"
  shows "\<exists>sock'. client_download_window env (TFTPClient_new sock addr) name w = Some (Inr data, sock')
    \<and> sock_sent sock' = (addr, rrq_packet name opts) # (peer, ack_packet 0)
        # map (\<lambda>k. (peer, ack_packet (of_nat k))) (ack_points (unat w) N 0) \<and> sock_events sock' = []"
proof -
  have N: "0 < N" using assms(5) by (simp add: block_count_def)
  have fits: "4 \<le> length (oack_packet opts)" "length (oack_packet opts) \<le> CLIENT_BUFFER_SIZE" "take 2 (oack_packet opts) = be_bytes OACK"
    using assms(2,3) by (simp_all add: oack_packet_def rrq_packet_def option_bytes_def be_bytes_def)
  obtain rq where rq: "send_read_request (TFTPClient_new sock addr) name opts = Some (Inr rq, local_socket rq)"
    "local_socket rq = sock\<lparr>sock_sent := sock_sent sock @ [(addr, rrq_packet name opts)]\<rparr>" "remote_addr rq = addr"
    "length (read_buffer rq) = CLIENT_BUFFER_SIZE" "length (write_buffer rq) = CLIENT_BUFFER_SIZE"
    by (rule send_read_request_packet [OF assms(1,3)])
  have "sock_events (local_socket rq) = Arrives peer (oack_packet opts) # block_events peer data 512 0 N"
    "fst peer = fst (remote_addr rq)" "sock_results (local_socket rq) = []"
    using rq(2,3) assms by simp_all
  from read_first_packet [OF this rq(4,5) fits] obtain x where
    x: "read_first OACK rq = Some (Inr x, cs_socket (datagram_stream x))" "at_block (oack_packet opts) x" "usable x"
    "ex_events x = block_events peer data 512 0 N" "ex_sent x = sock_sent (local_socket rq)" "ex_peer x = peer" by blast
  have "slice (ex_read_buffer x) 2 (ex_bytes x) = drop 2 (take (ex_bytes x) (ex_read_buffer x))" by (simp add: slice_def drop_take)
  with x(2) have "ReadCursor_new (slice (ex_read_buffer x) 2 (ex_bytes x))
      = \<lparr>datagram = WINDOW_SIZE @ 0 # usize_to_string (unat w) @ [0], index = 0\<rparr>"
    by (simp add: at_block_def oack_packet_def option_bytes_def assms(2) ReadCursor_new_def be_bytes_def)
  moreover have "wf_str WINDOW_SIZE" by code_simp
  moreover have "wf_str (usize_to_string (unat w))"
    using window_size.echo_wf [of "WindowSize (unat w)"] by (simp add: WindowSize_as_key_pair_def)
  ultimately have found: "OACK_fields x = Some [WINDOW_SIZE \<mapsto> usize_to_string (unat w)]"
    using oack_fields_option x(2) fits(1) by (simp add: OACK_fields_def at_block_def)
  obtain y where y: "send_numbers x 0 = Some (Inr (), y)" "usable y" "ex_sent y = ex_sent x @ [(ex_peer x, ack_packet 0)]"
    "ex_events y = ex_events x" "ex_peer y = ex_peer x" by (rule send_numbers_packet [OF x(3)])
  have "ex_events y = block_events (ex_peer y) data 512 0 N" using x y by simp
  from window_loop_file [OF y(2) N assms(5) refl assms(6) this, of env "[]"] x y rq assms(8) blocks_reassemble [of 512 data]
  show ?thesis
    by (auto simp: client_download_window_def send_optioned_read_request_def SentReadRequestWithOpts_read_oack_def OACK_acknowledge_def
        found check_window_own assms(2) [symmetric] assms(5) simp del: upt_Suc)
qed

text \<open>An error packet instead of the first block.\<close>

lemma client_download_refused:
  assumes "sock_results sock = []" "length (rrq_packet name []) < CLIENT_BUFFER_SIZE" "fst peer = fst addr"
    and "TFTPError_parse e = (code, msg)" "utf8_valid msg" "0 \<notin> set msg" "error_size e \<le> CLIENT_BUFFER_SIZE"
    and "sock_events sock = [Arrives peer (error_packet e)]" "sock_sent sock = []"
  shows "\<exists>sock'. client_download env (TFTPClient_new sock addr) name
      = Some (Inl (DownloadError (str ''ACK: ['' @ usize_to_string (unat code) @ str ''] '' @ msg)), sock')
    \<and> sock_sent sock' = [(addr, rrq_packet name [])] \<and> sock_events sock' = []"
proof -
  obtain rq where rq: "send_read_request (TFTPClient_new sock addr) name [] = Some (Inr rq, local_socket rq)"
    "local_socket rq = sock\<lparr>sock_sent := sock_sent sock @ [(addr, rrq_packet name [])]\<rparr>" "remote_addr rq = addr"
    "length (read_buffer rq) = CLIENT_BUFFER_SIZE"
    by (rule send_read_request_packet [OF assms(1,2)])
  let ?p = "error_packet e"
  have p: "?p = be_bytes ERROR @ be_bytes code @ msg @ [0]" using assms(4) by (simp add: error_packet_def)
  have "extract_ushort (ReadCursor_new ?p) = (Inr ERROR, \<lparr>datagram = ?p, index = 2\<rparr>)"
    "extract_ushort \<lparr>datagram = ?p, index = 2\<rparr> = (Inr code, \<lparr>datagram = ?p, index = 4\<rparr>)"
    by (simp_all add: p extract_ushort_def ReadCursor_new_def be_bytes_def)
  moreover have "extract_string \<lparr>datagram = ?p, index = 4\<rparr> = (Inr msg, \<lparr>datagram = ?p, index = length msg + 5\<rparr>)"
    using extract_string_at [of "\<lparr>datagram = ?p, index = 4\<rparr>" "be_bytes ERROR @ be_bytes code" msg "[]"] assms(5,6) by (simp add: p)
  ultimately have reply: "reply_with DATA ?p = Some (Inl (ClientError code msg))"
    by (simp add: reply_with_def DATA_def ERROR_def)
  have "take (length ?p) (recv_into (read_buffer rq) ?p) = ?p" using assms(7) rq(4) by (intro take_recv_into) simp
  then show ?thesis
    using rq assms(3,7-9)
    by (simp add: client_download_def send_plain_read_request_def SentPlainReadRequest_read_next_def read_first_def reply Let_def)
qed

section \<open>Giving up\<close>

text \<open>The error that the client sends: the copy of \<open>put_string\<close> does not write the terminator either, so the last byte is what the write
  buffer held there, which may be a byte of the request.\<close>

lemma Block_send_error_packet:
  assumes "usable x" "TFTPError_parse e = (code, msg)" "error_size e < CLIENT_BUFFER_SIZE"
  obtains x' where "Block_send_error x code msg = Some x'" "ex_events x' = ex_events x" "ex_peer x' = ex_peer x"
    "ex_sent x' = ex_sent x @ [(ex_peer x, butlast (error_packet e) @ [ex_write_buffer x ! (error_size e - 1)])]"
proof -
  let ?p = "butlast (error_packet e) @ [ex_write_buffer x ! (error_size e - 1)]" and ?cs = "datagram_stream x"
  let ?cs' = "?cs\<lparr>cs_socket := (cs_socket ?cs)\<lparr>sock_sent := sock_sent (cs_socket ?cs) @ [(cs_peer ?cs, ?p)]\<rparr>\<rparr>"
  have "error_size e < length (ex_write_buffer x)" using assms(1,3) by (simp add: usable_def)
  from serialize_success [OF this] obtain buf where buf: "TFTPError_serialize e (ex_write_buffer x) = Some (Inr (error_size e), buf)"
    "take (error_size e) buf = ?p" by blast
  then have len: "length ?p = error_size e" by (simp add: error_size_def)
  from buf(1) assms(2) obtain n1 c1 n2 c2 c3 where
    "put_ushort (WriteCursor_new (ex_write_buffer x)) ERROR = (Inr n1, c1)" "put_ushort c1 code = (Inr n2, c2)"
    "put_string c2 msg = Some (Inr (error_size e), c3)" "buffer c3 = buf"
    by (auto simp: TFTPError_serialize_def Let_def split: prod.splits sum.splits)
  with buf(2) len assms(1) have "Block_send_error x code msg
      = Some (x\<lparr>datagram_stream := ?cs', ex_write_buffer := buf, ex_bytes := error_size e\<rparr>)"
    by (simp add: Block_send_error_def must_put_ushort_def must_put_string_def ClientStream_send_def socket_send_to_def usable_def)
  then show ?thesis by (rule that) simp_all
qed

lemma SentError_read_some_silent: "ex_events x = [] \<Longrightarrow> fst (SentError_read_some x) = Inl (io_kind TimedOut)"
  by (simp add: SentError_read_some_def ClientStream_recv_def)

text \<open>The client takes the first block and gives up with a message that is longer than its request.\<close>

lemma client_gives_up:
  assumes "sock_results sock = []" "length (rrq_packet name []) < error_size e" "error_size e < CLIENT_BUFFER_SIZE" "fst peer = fst addr"
    and "sock_events sock = [Arrives peer (data_packet data 512 1)]" "sock_sent sock = []" "TFTPError_parse e = (code, msg)"
  shows "\<exists>rq block sent_error. send_plain_read_request (TFTPClient_new sock addr) name = Some (Inr rq, local_socket rq)
    \<and> SentPlainReadRequest_read_next rq = Some (Inr block, cs_socket (datagram_stream block))
    \<and> Block_data block = Some (chunk data 512 1) \<and> Block_send_error block code msg = Some sent_error
    \<and> ex_sent sent_error = [(addr, rrq_packet name []), (peer, error_packet e)]
    \<and> fst (SentError_read_some sent_error) = Inl (io_kind TimedOut)"
proof -
  have N: "0 < block_count data 512" by (simp add: block_count_def)
  have "length (rrq_packet name []) < CLIENT_BUFFER_SIZE" using assms(2,3) by simp
  then obtain rq where rq: "send_read_request (TFTPClient_new sock addr) name [] = Some (Inr rq, local_socket rq)"
    "local_socket rq = sock\<lparr>sock_sent := sock_sent sock @ [(addr, rrq_packet name [])]\<rparr>" "remote_addr rq = addr"
    "length (read_buffer rq) = CLIENT_BUFFER_SIZE" "length (write_buffer rq) = CLIENT_BUFFER_SIZE"
    "write_buffer rq = rrq_packet name [] @ replicate (CLIENT_BUFFER_SIZE - length (rrq_packet name [])) 0"
    using send_read_request_packet [OF assms(1)] by blast
  have "sock_events (local_socket rq) = Arrives peer (data_packet data 512 (Suc 0)) # []"
    "fst peer = fst (remote_addr rq)" "sock_results (local_socket rq) = []"
    using rq(2,3) assms(1,4,5) by simp_all
  from read_first_packet [OF this rq(4,5) data_packet_fits(1-3) [OF N refl]] obtain x where
    x: "read_first DATA rq = Some (Inr x, cs_socket (datagram_stream x))" "at_block (data_packet data 512 (Suc 0)) x" "usable x"
    "ex_events x = []" "ex_sent x = sock_sent (local_socket rq)" "ex_peer x = peer" "ex_write_buffer x = write_buffer rq" by blast
  have "ex_write_buffer x ! (error_size e - 1) = 0"
    using rq(6) x(7) assms(2,3) by (simp add: nth_append less_diff_conv2)
  then have "butlast (error_packet e) @ [ex_write_buffer x ! (error_size e - 1)] = error_packet e"
    by (simp add: error_packet_def butlast_append)
  with Block_send_error_packet [OF x(3) assms(7,3)] obtain y where y: "Block_send_error x code msg = Some y" "ex_events y = ex_events x"
    "ex_sent y = ex_sent x @ [(ex_peer x, error_packet e)]" by metis
  then have "fst (SentError_read_some y) = Inl (io_kind TimedOut)" using x(4) by (intro SentError_read_some_silent) simp
  with rq x y Block_data_at [OF x(2)] assms(6) show ?thesis
    by (auto simp: send_plain_read_request_def SentPlainReadRequest_read_next_def)
qed

end
