(* ===== verification/Server_Runs.thy ===== *)
theory Server_Runs
  imports Server
begin

text \<open>
  Runs of the server together with the threads of its handlers: what becomes of a read request from its datagram to the end of
  its session, and that the server can be stopped in every state.
\<close>

section \<open>From a datagram to a session\<close>

text \<open>The steps of a handler are steps of the server that owns it.\<close>

lemma srv_handler_steps:
  assumes "(handler_step dbg host)\<^sup>*\<^sup>* h h'" "peer_handlers s ip = Some h"
  shows "(server_step dbg host t)\<^sup>*\<^sup>* s (s\<lparr>peer_handlers := (peer_handlers s)(ip \<mapsto> h')\<rparr>)"
  using assms
proof (induction rule: rtranclp_induct)
  case base
  then have "(peer_handlers s)(ip \<mapsto> h) = peer_handlers s" by auto
  then show ?case by simp
next
  case (step h1 h2)
  let ?s = "s\<lparr>peer_handlers := (peer_handlers s)(ip \<mapsto> h1)\<rparr>"
  have "server_step dbg host t ?s (?s\<lparr>peer_handlers := (peer_handlers ?s)(ip \<mapsto> h2)\<rparr>)"
    using step.hyps(2) by (intro srv_handler) simp_all
  then have "server_step dbg host t ?s (s\<lparr>peer_handlers := (peer_handlers s)(ip \<mapsto> h2)\<rparr>)" by simp
  with step.IH [OF step.prems] show ?case by (rule rtranclp.rtrancl_into_rtrancl)
qed

lemma srv_leaving_steps:
  assumes "(handler_step dbg host)\<^sup>*\<^sup>* h h'" "activity s = Joining h dropping"
  shows "(server_step dbg host t)\<^sup>*\<^sup>* s (s\<lparr>activity := Joining h' dropping\<rparr>)"
  using assms
proof (induction rule: rtranclp_induct)
  case base
  then have "s\<lparr>activity := Joining h dropping\<rparr> = s" by (cases s) simp
  then show ?case by simp
next
  case (step h1 h2)
  have "server_step dbg host t (s\<lparr>activity := Joining h1 dropping\<rparr>) (s\<lparr>activity := Joining h1 dropping\<rparr>\<lparr>activity := Joining h2 dropping\<rparr>)"
    using step.hyps(2) by (intro srv_leaving) simp_all
  with step.IH [OF step.prems] show ?case by (simp add: rtranclp.rtrancl_into_rtrancl)
qed

text \<open>A new thread opens its roots, takes the request that waits for it and starts the session.\<close>

lemma new_thread_accepts:
  assumes "h = PeerHandler_new ip local_ip tftp_root idle now\<lparr>channel := [(port, rrq)]\<rparr>"
    and "initial_roots dbg host tftp_root ip = Some roots" "schedule_task host rrq roots = Some (task, roots')"
    and "0 < hash_capacity host MAX_SESSIONS_PER_IP"
  shows "\<exists>h'. (handler_step dbg host)\<^sup>*\<^sup>* h h' \<and> phase h' = Serving \<and> send_sessions h' =
    [(port, \<lparr>s_task = task, s_stream = DatagramStream_new arrivals [] (ip, port), s_buffer = replicate SESSION_BUFFER_SIZE 0, s_finished = False\<rparr>)]"
proof -
  let ?h1 = "start_thread dbg host (h\<lparr>clock := clock h + 0\<rparr>)"
  let ?h2 = "on_request host (\<lambda>_. Inr (arrivals, [])) (?h1\<lparr>clock := clock ?h1 + 0\<rparr>)"
  have h1: "phase ?h1 = Serving" "channel ?h1 = [(port, rrq)]" "send_sessions ?h1 = []" "sender_address ?h1 = ip"
    "available_roots ?h1 = roots" "sessions_capacity ?h1 = hash_capacity host MAX_SESSIONS_PER_IP"
    using assms(1,2) by (simp_all add: start_thread_def PeerHandler_new_def)
  have "handler_step dbg host h ?h1" using assms(1) by (intro step_start) (simp add: PeerHandler_new_def)
  moreover have "handler_step dbg host ?h1 ?h2" using h1 by (intro step_request) simp_all
  ultimately have "(handler_step dbg host)\<^sup>*\<^sup>* h ?h2" by (meson converse_rtranclp_into_rtranclp rtranclp.rtrancl_refl)
  moreover have "phase ?h2 = Serving" "send_sessions ?h2 = [(port, \<lparr>s_task = task,
      s_stream = DatagramStream_new arrivals [] (ip, port), s_buffer = replicate SESSION_BUFFER_SIZE 0, s_finished = False\<rparr>)]"
    using h1 assms(3,4) by (simp_all add: on_request_def accept_request_def retain_unfinished_def Let_def)
  ultimately show ?thesis by blast
qed

text \<open>So does the server with the datagram of a request from a peer that has no handler.\<close>

lemma request_starts_its_session:
  assumes "activity s = Selecting" "length (srv_buffer s) = BUFFER_SIZE" "peer_handlers s ip = None"
    and "ReadRequest_parse d = Inr rrq" "length d \<le> BUFFER_SIZE"
    and "initial_roots dbg host (root_dir s) ip = Some roots" "schedule_task host rrq roots = Some (task, roots')"
    and "0 < hash_capacity host MAX_SESSIONS_PER_IP"
  shows "server_step dbg host t s (on_datagram True d (ip, port) s)
    \<and> (\<exists>s' h. (server_step dbg host t)\<^sup>*\<^sup>* (on_datagram True d (ip, port) s) s' \<and> activity s' = Selecting \<and> replies s' = replies s
      \<and> peer_handlers s' = (peer_handlers s)(ip \<mapsto> h) \<and> phase h = Serving \<and> send_sessions h = [(port, \<lparr>s_task = task,
          s_stream = DatagramStream_new arrivals [] (ip, port), s_buffer = replicate SESSION_BUFFER_SIZE 0, s_finished = False\<rparr>)])"
proof -
  let ?s0 = "s\<lparr>srv_buffer := recv_into (srv_buffer s) d\<rparr>"
  let ?s1 = "?s0\<lparr>peer_handlers := (peer_handlers s)(ip \<mapsto> new_handler s ip), activity := Feeding ip port rrq\<rparr>"
  let ?h = "(new_handler s ip)\<lparr>channel := [(port, rrq)]\<rparr>"
  let ?s2 = "?s1\<lparr>peer_handlers := (peer_handlers s)(ip \<mapsto> ?h), activity := Selecting\<rparr>"
  have "take (min (length (srv_buffer s)) (length d)) (recv_into (srv_buffer s) d) = d"
    using assms(2,5) by (simp add: recv_into_def)
  with assms(3,4) have s1: "on_datagram True d (ip, port) s = ?s1"
    by (simp add: on_datagram_def handle_request_def new_handler_def Let_def)
  have "after_feed ip port rrq ?s1 = Some ?s2"
    by (simp add: after_feed_def feed_def new_handler_def PeerHandler_new_def REQUESTS_CHANNEL_SIZE_def)
  then have fed: "server_step dbg host t ?s1 ?s2" by (intro srv_fed) simp_all
  obtain h' where h': "(handler_step dbg host)\<^sup>*\<^sup>* ?h h'" "phase h' = Serving" "send_sessions h' = [(port, \<lparr>s_task = task,
      s_stream = DatagramStream_new arrivals [] (ip, port), s_buffer = replicate SESSION_BUFFER_SIZE 0, s_finished = False\<rparr>)]"
    using new_thread_accepts [OF _ assms(6-8), where h = ?h and local_ip = "fst (socket_addr s)" and idle = "max_idle_time s"
        and now = "srv_clock s" and port = port and arrivals = arrivals] by (auto simp: new_handler_def)
  have "peer_handlers ?s2 ip = Some ?h" by simp
  from srv_handler_steps [OF h'(1) this, of t] fed h'(2,3) srv_datagram [OF assms(1), where d = d and remote = "(ip, port)" and sent = True]
  show ?thesis
    unfolding s1 by (auto intro!: exI [where x = "?s2\<lparr>peer_handlers := (peer_handlers ?s2)(ip \<mapsto> h')\<rparr>"] exI [where x = h']
        intro: converse_rtranclp_into_rtranclp)
qed

text \<open>The request in the datagram \<open>d\<close> is served: the server takes the datagram, and it, the handler's thread and the session can take steps
  after which the server waits again, has answered nothing itself, and has for the peer a handler whose only session has finished. The
  session has run on the socket to which \<open>arrivals\<close> happen, with a buffer of its own.\<close>

definition request_served :: "bool \<Rightarrow> ('h, 'j) env \<Rightarrow> nat \<Rightarrow> 'h TFTPServer \<Rightarrow> bytes \<Rightarrow> SocketAddr \<Rightarrow> net_event list \<Rightarrow> 'h TFTPServer
    \<Rightarrow> 'h session \<Rightarrow> bool" where
  "request_served dbg host t s d remote arrivals s' session \<longleftrightarrow>
    server_step dbg host t s (on_datagram True d remote s)
    \<and> (server_step dbg host t)\<^sup>*\<^sup>* (on_datagram True d remote s) s'
    \<and> activity s' = Selecting \<and> replies s' = replies s
    \<and> (\<exists>h. peer_handlers s' = (peer_handlers s)(fst remote \<mapsto> h) \<and> send_sessions h = [(snd remote, session)])
    \<and> s_finished session \<and> peer_address (s_stream session) = remote
    \<and> run_task dbg host (s_task session) (DatagramStream_new arrivals [] remote) (replicate SESSION_BUFFER_SIZE 0)
        = Some (s_stream session)"

lemma request_reaches_its_session:
  assumes "activity s = Selecting" "length (srv_buffer s) = BUFFER_SIZE" "peer_handlers s ip = None"
    and "ReadRequest_parse d = Inr rrq" "length d \<le> BUFFER_SIZE"
    and "initial_roots dbg host (root_dir s) ip = Some roots" "schedule_task host rrq roots = Some (task, roots')"
    and "0 < hash_capacity host MAX_SESSIONS_PER_IP"
    and "run_task dbg host task (DatagramStream_new arrivals [] (ip, port)) (replicate SESSION_BUFFER_SIZE 0) = Some st"
  shows "\<exists>s'. request_served dbg host t s d (ip, port) arrivals s'
      \<lparr>s_task = task, s_stream = st, s_buffer = replicate SESSION_BUFFER_SIZE 0, s_finished = True\<rparr>"
proof -
  let ?ses = "\<lparr>s_task = task, s_stream = DatagramStream_new arrivals [] (ip, port),
      s_buffer = replicate SESSION_BUFFER_SIZE 0, s_finished = False\<rparr>"
  obtain s1 h where h: "(server_step dbg host t)\<^sup>*\<^sup>* (on_datagram True d (ip, port) s) s1" "activity s1 = Selecting" "replies s1 = replies s"
    "peer_handlers s1 = (peer_handlers s)(ip \<mapsto> h)" "phase h = Serving" "send_sessions h = [(port, ?ses)]"
    and 1: "server_step dbg host t s (on_datagram True d (ip, port) s)"
    using request_starts_its_session [OF assms(1-8)] by blast
  let ?h = "finish_session dbg host port h" and ?s = "s1\<lparr>peer_handlers := (peer_handlers s1)(ip \<mapsto> finish_session dbg host port h)\<rparr>"
  have "handler_step dbg host h ?h" using h(5,6) by (intro step_finish [where s = ?ses]) simp_all
  then have "server_step dbg host t s1 ?s" using h(4) by (intro srv_handler) simp_all
  with h(1) have "(server_step dbg host t)\<^sup>*\<^sup>* (on_datagram True d (ip, port) s) ?s" by (rule rtranclp.rtrancl_into_rtrancl)
  moreover have "send_sessions ?h = [(port, ?ses\<lparr>s_stream := st, s_finished := True\<rparr>)]"
    using h(6) assms(9) by (simp add: finish_session_def finished_session_def)
  moreover have "peer_address st = (ip, port)" using run_task_peer [OF assms(9)] by (simp add: DatagramStream_new_def)
  ultimately show ?thesis
    using 1 h(2-4) assms(9) by (intro exI [where x = ?s]) (auto simp: request_served_def intro: exI [where x = ?h])
qed

text \<open>The task is what the roots of the peer give for the request.\<close>

lemma request_runs_its_task:
  assumes "activity s = Selecting" "length (srv_buffer s) = BUFFER_SIZE" "peer_handlers s ip = None"
    and "wf_str name" "wf_options opts" "length (rrq_packet name opts) \<le> BUFFER_SIZE"
    and "request = \<lparr>filename = name, options = map_of (rev opts)\<rparr>"
    and "initial_roots dbg host (root_dir s) ip = Some roots" "map_option fst (schedule_task host request roots) = Some work"
    and "0 < hash_capacity host MAX_SESSIONS_PER_IP"
    and "run_task dbg host work (DatagramStream_new arrivals [] (ip, port)) (replicate 65535 0) = Some st"
  shows "\<exists>s' session. request_served dbg host t s (rrq_packet name opts) (ip, port) arrivals s' session
    \<and> s_task session = work \<and> s_stream session = st"
proof -
  have task: "run_task dbg host work (DatagramStream_new arrivals [] (ip, port)) (replicate SESSION_BUFFER_SIZE 0) = Some st"
    using assms(11) by (simp add: SESSION_BUFFER_SIZE_def)
  have parsed: "ReadRequest_parse (rrq_packet name opts) = Inr request"
    using ReadRequest_parse_complete [OF assms(4,5)] assms(7) by simp
  obtain roots' where "schedule_task host request roots = Some (work, roots')" using assms(9) by auto
  from request_reaches_its_session [OF assms(1-3) parsed assms(6,8) this assms(10) task, of t] show ?thesis by fastforce
qed

section \<open>Running sessions\<close>

text \<open>The sessions of the server, by the address of their peer: those of its handlers, and those of the handler that is being joined.\<close>

definition held_sessions :: "'h TFTPServer \<Rightarrow> (SocketAddr \<times> 'h session) set" where
  "held_sessions s =
    {((ip, port), ses) |ip h port ses. peer_handlers s ip = Some h \<and> (port, ses) \<in> set (send_sessions h)}
    \<union> (case activity s of
         Joining h _ \<Rightarrow> {((sender_address h, port), ses) |port ses. (port, ses) \<in> set (send_sessions h)}
       | _ \<Rightarrow> {})"

lemma held_by_handler:
  "peer_handlers s ip = Some h \<Longrightarrow> (port, ses) \<in> set (send_sessions h) \<Longrightarrow> ((ip, port), ses) \<in> held_sessions s"
  by (auto simp: held_sessions_def)

lemma held_by_leaving:
  "activity s = Joining h dropping \<Longrightarrow> (port, ses) \<in> set (send_sessions h) \<Longrightarrow> ((sender_address h, port), ses) \<in> held_sessions s"
  by (auto simp: held_sessions_def)

lemma held_sessionsE:
  assumes "((ip, port), ses) \<in> held_sessions s"
  obtains (handler) h where "peer_handlers s ip = Some h" "(port, ses) \<in> set (send_sessions h)"
  | (leaving) h dropping where "activity s = Joining h dropping" "ip = sender_address h" "(port, ses) \<in> set (send_sessions h)"
  using assms by (auto simp: held_sessions_def split: activity.splits)

text \<open>The server forgets a handler only at its end, and then no session of it runs.\<close>

lemma finished_handler_idle:
  "handler_inv h \<Longrightarrow> is_finished h \<Longrightarrow> (port, ses) \<in> set (send_sessions h) \<Longrightarrow> s_finished ses"
  by (auto simp: handler_inv_def is_finished_def list_all_iff)

lemma handler_session_kept:
  assumes "server_step dbg host t s s'" "server_inv s" "peer_handlers s ip = Some h" "(port, ses) \<in> set (send_sessions h)" "\<not> s_finished ses"
  shows "((ip, port), ses) \<in> held_sessions s' \<or> ((ip, port), finished_session dbg host ses) \<in> held_sessions s'"
  using assms(1)
proof (cases rule: server_step.cases)
  case srv_turn
  have "handler_inv h" using assms(2,3) by (simp add: server_inv_def)
  with assms(4,5) finished_handler_idle [of h port ses] have "\<not> is_finished h" by blast
  with srv_turn assms(3,4) show ?thesis by (auto simp: on_turn_def held_sessions_def)
next
  case (srv_event q event q')
  have "sender_address h = ip" using assms(2,3) by (simp add: server_inv_def)
  with srv_event assms(3,4) show ?thesis
    by (auto simp: on_event_def held_sessions_def request_shutdown_def Let_def split: option.splits)
next
  case (srv_datagram sent d remote)
  have "peer_handlers (on_datagram sent d remote s) ip = Some h"
    using assms(3) by (auto simp: on_datagram_def handle_request_def Let_def split: sum.splits option.splits)
  with srv_datagram assms(4) show ?thesis by (auto intro: held_by_handler)
next
  case (srv_fed ip' port' rrq)
  have "sender_address h = ip" using assms(2,3) by (simp add: server_inv_def)
  with srv_fed assms(3,4) show ?thesis
    by (auto simp: after_feed_def feed_def held_sessions_def request_shutdown_def split: option.splits if_splits)
next
  case (srv_joined h' dropping)
  with assms(3,4) show ?thesis
    by (auto simp: after_join_def split: option.splits intro: held_by_handler)
next
  case (srv_drop ip' h')
  have "sender_address h = ip" using assms(2,3) by (simp add: server_inv_def)
  with srv_drop assms(3,4) show ?thesis by (auto simp: held_sessions_def request_shutdown_def)
next
  case (srv_handler ip' h1 h2)
  with assms(3-5) session_kept [OF srv_handler(3), of port ses] show ?thesis
    by (cases "ip' = ip") (auto simp: held_sessions_def)
qed (use assms(3,4) in \<open>auto intro: held_by_handler\<close>)

lemma leaving_session_kept:
  assumes "server_step dbg host t s s'" "server_inv s" "activity s = Joining h dropping" "(port, ses) \<in> set (send_sessions h)" "\<not> s_finished ses"
  shows "((sender_address h, port), ses) \<in> held_sessions s' \<or> ((sender_address h, port), finished_session dbg host ses) \<in> held_sessions s'"
  using assms(1)
proof (cases rule: server_step.cases)
  case (srv_joined h' dropping')
  have "handler_inv h" using assms(2,3) by (simp add: server_inv_def)
  from finished_handler_idle [OF this _ assms(4)] assms(3,5) srv_joined show ?thesis
    by (auto simp: after_join_def join_thread_def is_finished_def split: option.splits phase.splits)
next
  case (srv_leaving h1 dropping' h2)
  have "handler_inv h" using assms(2,3) by (simp add: server_inv_def)
  with srv_leaving assms(3-5) session_kept [OF srv_leaving(3), of port ses] handler_inv_step [OF srv_leaving(3)] show ?thesis
    by (auto simp: held_sessions_def)
qed (use assms(3,4) in \<open>auto simp: held_sessions_def\<close>)

lemma running_session_step:
  assumes "server_step dbg host t s s'" "server_inv s" "(remote, ses) \<in> held_sessions s" "\<not> s_finished ses"
  shows "(remote, ses) \<in> held_sessions s' \<or> (remote, finished_session dbg host ses) \<in> held_sessions s'"
proof -
  obtain ip port where r: "remote = (ip, port)" by fastforce
  from assms(3) [unfolded r] show ?thesis
    by (cases rule: held_sessionsE)
      (use assms(4) r handler_session_kept [OF assms(1,2)] leaving_session_kept [OF assms(1,2)] in blast)+
qed

lemma running_session_run:
  assumes "(server_step dbg host t)\<^sup>*\<^sup>* s s'" "server_inv s" "(remote, ses) \<in> held_sessions s" "\<not> s_finished ses"
  shows "(remote, ses) \<in> held_sessions s'
    \<or> (\<exists>s1. (server_step dbg host t)\<^sup>*\<^sup>* s s1 \<and> (server_step dbg host t)\<^sup>*\<^sup>* s1 s' \<and> (remote, finished_session dbg host ses) \<in> held_sessions s1)"
  using assms
proof (induction rule: rtranclp_induct)
  case (step s1 s2)
  have inv: "server_inv s1" using step.hyps(1) step.prems(1) by (induction rule: rtranclp_induct) (auto intro: server_inv_step)
  from step.IH [OF step.prems] show ?case
  proof (elim disjE)
    assume "(remote, ses) \<in> held_sessions s1"
    from running_session_step [OF step.hyps(2) inv this step.prems(3)] step.hyps show ?case
      by (blast intro: rtranclp.rtrancl_into_rtrancl)
  qed (use step.hyps(2) in \<open>blast intro: rtranclp.rtrancl_into_rtrancl\<close>)
qed simp

text \<open>A server that is gone holds no session.\<close>

definition gone_empty :: "'h TFTPServer \<Rightarrow> bool" where
  "gone_empty s \<longleftrightarrow> (activity s = Gone \<longrightarrow> peer_handlers s = Map.empty)"

lemma gone_empty_step:
  assumes "server_step dbg host t s s'" "gone_empty s"
  shows "gone_empty s'"
  using assms
  by (cases rule: server_step.cases)
    (auto simp: gone_empty_def on_turn_def on_event_def on_datagram_def handle_request_def after_feed_def after_join_def Let_def
      split: option.splits if_splits sum.splits bool.splits)

lemma gone_server_holds_nothing:
  "server_run dbg host t s \<Longrightarrow> activity s = Gone \<Longrightarrow> held_sessions s = {}"
proof -
  assume "server_run dbg host t s"
  then have "gone_empty s"
  proof (induction rule: server_run.induct)
    case (srv_started pf args printed s)
    obtain local_addr w where
      "s = (TFTPServer_new local_addr (args_root_dir args) (args_idle_timeout args) (start_time pf))\<lparr>watch := w\<rparr>"
      by (rule started_server [OF srv_started.hyps])
    then show ?case by (simp add: TFTPServer_new_def gone_empty_def)
  qed (rule gone_empty_step)
  then show "activity s = Gone \<Longrightarrow> held_sessions s = {}" by (simp add: gone_empty_def held_sessions_def)
qed

section \<open>Stopping the server\<close>

text \<open>When no search for a disk panics, no thread crashes and no request panics the server.\<close>

definition roots_open :: "bool \<Rightarrow> ('h, 'j) env \<Rightarrow> bool" where
  "roots_open dbg host \<longleftrightarrow> (\<forall>tftp_root ip. initial_roots dbg host tftp_root ip \<noteq> None)"

definition server_sound :: "'h TFTPServer \<Rightarrow> bool" where
  "server_sound s \<longleftrightarrow> finite (dom (peer_handlers s)) \<and> (\<forall>h \<in> ran (peer_handlers s). phase h \<noteq> Crashed)
    \<and> (case activity s of Joining h _ \<Rightarrow> phase h \<noteq> Crashed | ServerPanicked \<Rightarrow> False | _ \<Rightarrow> True)"

lemma ran_upd_subset: "ran (m(k \<mapsto> v)) \<subseteq> insert v (ran m)" and ran_del_subset: "ran (m(k := None)) \<subseteq> ran m"
  by (auto simp: ran_def split: if_splits)

lemma handler_step_no_crash:
  assumes "handler_step dbg host h h'" "phase h \<noteq> Crashed" "roots_open dbg host"
  shows "phase h' \<noteq> Crashed"
  using assms(1)
  by (cases rule: handler_step_cases)
    (use assms(2,3) in \<open>auto simp: start_thread_def close_handler_def roots_open_def finish_session_def on_elapsed_def Let_def split: option.splits if_splits\<close>)

lemma new_handler_starts [simp]: "phase (new_handler s ip) = Starting"
  by (simp add: new_handler_def PeerHandler_new_def)

lemma feed_phase: "feed h port rrq = Some (ok, h') \<Longrightarrow> phase h' = phase h"
  by (auto simp: feed_def split: if_splits)

lemma handle_request_sound:
  assumes "server_sound s" "activity s = Selecting" "length (srv_buffer s) = BUFFER_SIZE"
  shows "server_sound (handle_request sent n remote s)"
proof (cases "ReadRequest_parse (take n (srv_buffer s))")
  case (Inr rrq)
  with assms ran_upd_subset [of "peer_handlers s" "fst remote" "new_handler s (fst remote)"] show ?thesis
    by (auto simp: handle_request_def server_sound_def Let_def split: option.splits)
next
  case (Inl e)
  from handle_request_malformed [OF Inl assms(3), of sent remote] assms show ?thesis
    by (auto simp: server_sound_def)
qed

lemma server_sound_step:
  assumes "server_step dbg host t s s'" "server_sound s" "server_inv s" "roots_open dbg host"
  shows "server_sound s'"
  using assms(1)
proof (cases rule: server_step.cases)
  case srv_turn
  have "dom (peer_handlers (on_turn s)) \<subseteq> dom (peer_handlers s)" "ran (peer_handlers (on_turn s)) \<subseteq> ran (peer_handlers s)"
    by (auto simp: on_turn_def ran_def split: option.splits if_splits)
  with srv_turn assms(2) show ?thesis by (auto simp: server_sound_def on_turn_def intro: finite_subset)
next
  case (srv_event q event q')
  with assms(2) ran_upd_subset [of "peer_handlers s"] show ?thesis
    by (fastforce simp: server_sound_def on_event_def Let_def new_handler_def request_shutdown_def PeerHandler_new_def
        intro: ranI split: option.splits if_splits)
next
  case (srv_datagram sent d remote)
  have "server_sound (s\<lparr>srv_buffer := recv_into (srv_buffer s) d\<rparr>)" "length (recv_into (srv_buffer s) d) = BUFFER_SIZE"
    using assms(2,3) by (simp_all add: server_sound_def server_inv_def)
  with srv_datagram show ?thesis by (simp add: on_datagram_def handle_request_sound)
next
  case (srv_fed ip port rrq)
  then obtain h ok h' where h: "peer_handlers s ip = Some h" "feed h port rrq = Some (ok, h')"
    by (auto simp: after_feed_def split: option.splits)
  with assms(2) feed_phase [OF h(2)] have "phase h' \<noteq> Crashed" by (auto simp: server_sound_def intro: ranI)
  with h assms(2) srv_fed ran_upd_subset [of "peer_handlers s" ip h'] ran_del_subset [of "peer_handlers s" ip] show ?thesis
    by (cases ok) (auto simp: server_sound_def after_feed_def request_shutdown_def split: if_splits)
next
  case (srv_joined h dropping)
  with assms(2) show ?thesis
    by (auto simp: server_sound_def after_join_def join_thread_def split: option.splits phase.splits)
next
  case (srv_drop ip h)
  with assms(2) ran_del_subset [of "peer_handlers s" ip] show ?thesis
    by (auto simp: server_sound_def request_shutdown_def intro: ranI)
next
  case (srv_handler ip h h')
  with assms(2) have "phase h' \<noteq> Crashed"
    using handler_step_no_crash [OF srv_handler(3) _ assms(4)] by (auto simp: server_sound_def intro: ranI)
  with srv_handler assms(2) ran_upd_subset [of "peer_handlers s" ip h'] show ?thesis
    by (auto simp: server_sound_def split: activity.splits)
next
  case (srv_leaving h dropping h')
  with assms(2) handler_step_no_crash [OF srv_leaving(3) _ assms(4)] show ?thesis
    by (auto simp: server_sound_def)
qed (use assms(2) in \<open>auto simp: server_sound_def split: activity.splits\<close>)

lemma server_sound_run:
  "server_run dbg host t s \<Longrightarrow> roots_open dbg host \<Longrightarrow> server_sound s"
proof (induction rule: server_run.induct)
  case (srv_started pf args printed s)
  obtain local_addr w where
    "s = (TFTPServer_new local_addr (args_root_dir args) (args_idle_timeout args) (start_time pf))\<lparr>watch := w\<rparr>"
    by (rule started_server [OF srv_started.hyps])
  then show ?case by (simp add: TFTPServer_new_def server_sound_def)
next
  case (srv_stepped s s')
  then show ?case using server_sound_step server_inv_run by blast
qed

text \<open>A handler that was asked to shut down can be joined.\<close>

lemma joining_ends:
  assumes "activity s = Joining h dropping" "sender_dropped h" "phase h \<noteq> Crashed"
    and "roots_open dbg host"
  shows "(server_step dbg host t)\<^sup>*\<^sup>* s (s\<lparr>activity := if dropping then Dropping else Selecting\<rparr>)"
proof -
  obtain h' where h': "(handler_step dbg host)\<^sup>*\<^sup>* h h'" "is_finished h'"
    using shutdown_reaches_end [OF assms(2)] by blast
  from h'(1) have "phase h' \<noteq> Crashed"
    by induction (use assms(3,4) handler_step_no_crash in blast)+
  with h'(2) have "join_thread h' = Some (Some ())" by (simp add: is_finished_def join_thread_def)
  then have "server_step dbg host t (s\<lparr>activity := Joining h' dropping\<rparr>) (s\<lparr>activity := if dropping then Dropping else Selecting\<rparr>)"
    by (intro srv_joined) (auto simp: after_join_def)
  with srv_leaving_steps [OF h'(1) assms(1), of t] show ?thesis by (rule rtranclp.rtrancl_into_rtrancl)
qed

lemma dropping_ends:
  assumes "activity s = Dropping" "finite (dom (peer_handlers s))" "\<forall>h \<in> ran (peer_handlers s). phase h \<noteq> Crashed"
    and "roots_open dbg host"
  shows "\<exists>s'. (server_step dbg host t)\<^sup>*\<^sup>* s s' \<and> activity s' = Gone"
  using assms(1-3)
proof (induction "card (dom (peer_handlers s))" arbitrary: s)
  case 0
  then have "peer_handlers s = Map.empty" by simp
  with 0 have "server_step dbg host t s (s\<lparr>activity := Gone\<rparr>)" by (intro srv_dropped)
  then show ?case by (intro exI [where x = "s\<lparr>activity := Gone\<rparr>"]) auto
next
  case (Suc n)
  then obtain ip h where ip: "peer_handlers s ip = Some h" by (metis card.empty dom_eq_empty_conv nat.distinct(1) not_Some_eq ext)
  let ?s1 = "s\<lparr>peer_handlers := (peer_handlers s)(ip := None), activity := Joining (request_shutdown h) True\<rparr>"
  let ?s2 = "?s1\<lparr>activity := Dropping\<rparr>"
  have "server_step dbg host t s ?s1" using Suc.prems(1) ip by (rule srv_drop)
  moreover have "phase (request_shutdown h) \<noteq> Crashed"
    using Suc.prems(3) ip by (auto simp: request_shutdown_def intro: ranI)
  then have "(server_step dbg host t)\<^sup>*\<^sup>* ?s1 ?s2"
    using joining_ends [of ?s1 "request_shutdown h" True dbg host t] assms(4) by (simp add: request_shutdown_def)
  moreover have "n = card (dom (peer_handlers ?s2))" "finite (dom (peer_handlers ?s2))"
    "\<forall>h \<in> ran (peer_handlers ?s2). phase h \<noteq> Crashed"
    using Suc.hyps(2) Suc.prems(2,3) ip ran_del_subset [of "peer_handlers s" ip] by (auto simp: domI)
  then have "\<exists>s'. (server_step dbg host t)\<^sup>*\<^sup>* ?s2 s' \<and> activity s' = Gone" by (intro Suc.hyps(1)) simp_all
  ultimately show ?case by (meson converse_rtranclp_into_rtranclp rtranclp_trans)
qed

lemma server_reaches_dropping:
  assumes "server_sound s" "server_inv s" "activity s \<noteq> Gone" "roots_open dbg host"
  shows "(server_step dbg host t)\<^sup>*\<^sup>* s (s\<lparr>activity := Dropping\<rparr>)"
proof (cases "activity s")
  case (Joining h dropping)
  then have h: "(server_step dbg host t)\<^sup>*\<^sup>* s (s\<lparr>activity := if dropping then Dropping else Selecting\<rparr>)"
    using joining_ends [OF Joining _ _ assms(4)] assms(1,2) by (auto simp: server_sound_def server_inv_def)
  moreover have "server_step dbg host t (s\<lparr>activity := Selecting\<rparr>) (s\<lparr>activity := Dropping\<rparr>)"
    using srv_interrupt [of "s\<lparr>activity := Selecting\<rparr>"] by simp
  ultimately show ?thesis by (cases dropping) (simp_all add: rtranclp.rtrancl_into_rtrancl)
next
  case Dropping
  then have "s\<lparr>activity := Dropping\<rparr> = s" by (cases s) simp
  then show ?thesis by simp
next
  case ServerPanicked
  with assms(1) show ?thesis by (simp add: server_sound_def)
qed (use assms(3) in \<open>auto intro!: r_into_rtranclp srv_interrupt\<close>)

lemma server_stops:
  assumes "server_run dbg host t s" "roots_open dbg host"
  shows "activity s \<noteq> ServerPanicked \<and> (\<exists>s'. (server_step dbg host t)\<^sup>*\<^sup>* s s' \<and> activity s' = Gone)"
proof (cases "activity s = Gone")
  case False
  have sound: "server_sound s" and inv: "server_inv s"
    using server_sound_run [OF assms] server_inv_run [OF assms(1)] by blast+
  obtain s' where "(server_step dbg host t)\<^sup>*\<^sup>* (s\<lparr>activity := Dropping\<rparr>) s'" "activity s' = Gone"
    using dropping_ends [of "s\<lparr>activity := Dropping\<rparr>", OF _ _ _ assms(2)] sound by (auto simp: server_sound_def)
  with server_reaches_dropping [OF sound inv False assms(2), of t] sound show ?thesis
    by (auto simp: server_sound_def intro: rtranclp_trans)
qed auto

end
