(* ===== verification/Whole_Downloads.thy ===== *)
theory Whole_Downloads
  imports Integration_Client Server_Runs Session_Guarantees
begin

text \<open>
  The whole program and the client of its integration tests together, as \<open>tests/test_server.rs\<close> runs them: the client's request goes to
  the server's socket, the session answers from a socket of its own, and the datagrams of each side are what the other side receives.
\<close>

section \<open>The two sides\<close>

text \<open>What the roots of the peer give for a request that can be served: an intact file, just opened, of a directory or of the disk.\<close>

fun opened_for :: "('h, 'j) env \<Rightarrow> bytes \<Rightarrow> (rstr \<rightharpoonup> rstr) \<Rightarrow> 'h task \<Rightarrow> bool" where
  "opened_for host data opts (SendLocal f os) \<longleftrightarrow> os = opts \<and> local_healthy f \<and> local_fresh f \<and> contents (rd f) = data"
| "opened_for host data opts (SendRemote f os) \<longleftrightarrow> os = opts \<and> remote_healthy (guestfs_lib host) data f \<and> remote_fresh f"
| "opened_for host data opts (FireError e) \<longleftrightarrow> False"

text \<open>The client's socket: a new one, to which these datagrams of the session come. The session has a socket with the address of the server and
  a port of its own.\<close>

definition client_socket :: "SocketAddr \<Rightarrow> bytes list \<Rightarrow> udp_socket" where
  "client_socket tid ps = \<lparr>sock_events = map (Arrives tid) ps, sock_results = [], sock_sent = []\<rparr>"

lemma client_socket_sel [simp]:
  "sock_events (client_socket tid ps) = map (Arrives tid) ps" "sock_results (client_socket tid ps) = []"
  "sock_sent (client_socket tid ps) = []"
  by (simp_all add: client_socket_def)

text \<open>What is negotiated without asking for the size does not depend on the file.\<close>

lemma negotiated_without_size:
  assumes "\<not> TSize_is_requested opts" "negotiated_oack (\<lambda>u. (Inr 0, u)) () opts = (oack, t, b, ws, ())"
  shows "negotiated_oack get_size f opts = (oack, t, b, ws, f)"
  using assms by (auto simp: negotiated_oack_eq obtained_tsize_def)

lemma window_only:
  assumes "0 < unat (w :: u16)" "opts = [(WINDOW_SIZE, usize_to_string (unat w))]"
  shows "negotiated_oack get_size f (map_of opts)
    = (\<lparr>oack_options = opts\<rparr>, \<lparr>timeout = 5\<rparr>, \<lparr>block_size = 512\<rparr>, WindowSize (unat w), f)"
proof -
  have "unat w < 65536" by simp
  then have "unat w \<le> 65535" by linarith
  moreover from this have "unat w < usize_modulus" by (rule le_less_trans) (simp add: usize_modulus_def)
  then have "parse_usize (usize_to_string (unat w)) = Some (unat w)" by (rule parse_usize_to_string)
  ultimately have "WindowSize_find_in (map_of opts) = Some (WindowSize (unat w))"
    using assms by (simp add: WindowSize_find_in_def WINDOW_SIZE_BOTTOM_CAP_def WINDOW_SIZE_UPPER_CAP_def)
  then show ?thesis
    using assms(2) option_names_distinct
    by (auto simp: negotiated_oack_eq option_list_def or_default_def obtained_tsize_def TSize_is_requested_def
        AckTimeout_find_in_def Blksize_find_in_def AckTimeout_default_def Blksize_default_def WindowSize_as_key_pair_def)
qed

lemma ack_points_one: "a \<le> n \<Longrightarrow> ack_points 1 n a = [Suc a..<Suc n]"
proof (induction "n - a" arbitrary: a)
  case 0
  then show ?case by (subst ack_points.simps) simp
next
  case (Suc m)
  then have "ack_points 1 n (Suc a) = [Suc (Suc a)..<Suc n]" by simp
  with Suc.hyps(2) show ?case by (subst ack_points.simps) (simp add: upt_conv_Cons del: upt_Suc)
qed

text \<open>A session whose peer acknowledges every window once sends every block once.\<close>

lemma task_meets_client:
  assumes "opened_for host data opts work" "length data < usize_modulus" "\<not> TSize_is_requested opts"
    and "negotiated_oack (\<lambda>u. (Inr 0, u)) () opts = (oack, t, b, ws, ())"
    and "N = block_count data (Blksize_get_size b)" "WindowSize_get_size ws = 1 \<or> N < 65536"
    and "acks = (if has_options oack then [ack_packet 0] else []) @ map (\<lambda>k. ack_packet (of_nat k)) (ack_points (WindowSize_get_size ws) N 0)"
  obtains st where
    "run_task dbg host work (DatagramStream_new (map (Arrives peer) acks) [] peer) (replicate 65535 0) = Some st"
    "outbox st = (if has_options oack then [oack_packet (oack_options oack)] else []) @ map (data_packet data (Blksize_get_size b)) [1..<Suc N]"
    "inbox st = []"
proof -
  let ?L = "WindowSize_get_size ws" and ?bs = "Blksize_get_size b" and ?st = "DatagramStream_new (map (Arrives peer) acks) [] peer"
  let ?rounds = "map (\<lambda>k. (0 :: nat, [Arrives peer (ack_packet (of_nat k))])) (ack_points ?L N 0)"
  let ?hello = "if has_options oack then [Arrives peer (ack_packet 0)] else []"
  have L: "0 < ?L" using assms(4) negotiated_sizes(3) [of opts] by (auto simp: negotiated_oack_eq)
  have net: "delivers (peer_address ?st) 65535 ?L N 0 ?rounds"
    "delivered data ?bs ?L N 0 ?rounds = map (data_packet data ?bs) [1..<Suc N]"
    using ack_points_deliver [OF L, of 65535 0 N peer data ?bs] by (simp_all add: DatagramStream_new_def del: upt_Suc)
  have st: "inbox ?st = ?hello @ concat (map snd ?rounds) @ []" "send_results ?st = []" "outbox ?st = []"
    "if has_options oack then answers (peer_address ?st) 65535 0 0 ?hello else ?hello = []"
    using assms(7) by (simp_all add: DatagramStream_new_def comp_def concat_map_singleton)
  note neg = negotiated_without_size [OF assms(3,4)]
  show ?thesis
  proof (cases work)
    case (SendLocal f os)
    with assms(1) have f: "local_healthy f" "local_fresh f" "data = contents (rd f)" "os = opts" by auto
    from local_send_delivers [OF f(1-3) assms(2) neg assms(5,6) st(4) net(1) st(1,2), of dbg] st(3) net(2) that
    show ?thesis by (auto simp: SendLocal f(4) run_task_def)
  next
    case (SendRemote f os)
    with assms(1) have f: "remote_healthy (guestfs_lib host) data f" "remote_fresh f" "os = opts" by auto
    from remote_send_delivers [OF f(1,2) assms(2) neg assms(5,6) st(4) net(1) st(1,2), of dbg] st(3) net(2) that
    show ?thesis by (auto simp: SendRemote f(3) run_task_def)
  qed (use assms(1) in simp)
qed

text \<open>How the client prints the error packet, and what it needs of the message.\<close>

definition client_text :: "TFTPError \<Rightarrow> rstr" where
  "client_text e = str ''ACK: ['' @ usize_to_string (unat (fst (TFTPError_parse e))) @ str ''] '' @ snd (TFTPError_parse e)"

definition printable :: "TFTPError \<Rightarrow> bool" where
  "printable e \<longleftrightarrow> length (snd (TFTPError_parse e)) < 64 \<and> utf8_valid (snd (TFTPError_parse e)) \<and> 0 \<notin> set (snd (TFTPError_parse e))"

text \<open>An error of the roots is sent in a packet of its own.\<close>

lemma task_refuses:
  assumes "printable e"
  obtains st where "run_task dbg host (FireError e) (DatagramStream_new [] [] peer) (replicate 65535 0) = Some st"
    "outbox st = [error_packet e]" "inbox st = []"
proof -
  have "error_size e < 65535" using assms by (simp add: printable_def error_size_def)
  from serialize_zeroed [OF this] obtain buf where
    "TFTPError_serialize e (replicate 65535 0) = Some (Inr (error_size e), buf)" "take (error_size e) buf = error_packet e" by blast
  then have "run_task dbg host (FireError e) (DatagramStream_new [] [] peer) (replicate 65535 0)
      = Some ((DatagramStream_new [] [] peer)\<lparr>outbox := [error_packet e]\<rparr>)"
    by (simp add: run_task_def fire_error_def stream_send_reliable DatagramStream_new_def)
  then show ?thesis by (rule that) (simp_all add: DatagramStream_new_def)
qed

lemma root_errors:
  "printable file_not_found" "client_text file_not_found = str ''ACK: [1] File not found''"
  "printable access_violation" "client_text access_violation = str ''ACK: [2] Access violation''"
  "printable (undefined_error ''Server Error'')" "client_text (undefined_error ''Server Error'') = str ''ACK: [0] Server Error''"
  by code_simp+

lemma schedule_task_fails:
  assumes "list_all (refuses host request) before" "open_root host request root = Some (Inl err, root')" "kind err \<noteq> NotFound"
  shows "map_option fst (schedule_task host request (before @ root # others))
    = Some (FireError (if kind err = PermissionDenied then access_violation else undefined_error ''Server Error''))"
  using schedule_task_skips [OF assms(1), of "root # others"] assms(2,3) by (cases "kind err") simp_all

text \<open>The disk gives an intact file when the library serves it.\<close>

lemma remote_root_opens:
  assumes "path = path_join (chroot_path root) (trim_start_matches slash (filename request))" "0 \<notin> set path"
    and "guestfs_stat_of (guestfs_lib host) path (gfs_handle (cd_handle (rr_disk root))) = (Some info, msgs, h1)"
    and "unat (st_size info) = length data"
    and "guestfs_pread (guestfs_lib host) path CHUNK_SIZE 0 h1 = (Some (take n data), msgs2, h2)" "serves (guestfs_lib host) path data h2"
  shows "\<exists>work root'. open_root host request (RemoteKind root) = Some (Inr work, root') \<and> opened_for host data (options request) work"
proof -
  obtain f d' where "ConnectedDisk_open (guestfs_lib host) (rr_disk root) path = Some (Inr f, d')"
    "remote_healthy (guestfs_lib host) data f" "remote_fresh f"
    using ConnectedDisk_open_served [OF assms(3-6,2)] by blast
  then show ?thesis
    using assms(1) by (simp add: open_in_def RemoteRoot_open_def yield_options_def)
qed

lemma client_request_fits:
  assumes "length (rrq_packet name opts) < CLIENT_BUFFER_SIZE"
  shows "length (rrq_packet name opts) \<le> BUFFER_SIZE"
  using assms by (simp add: CLIENT_BUFFER_SIZE_def BUFFER_SIZE_def)

section \<open>What a client does\<close>

text \<open>The contract of a download: the client asks with the options \<open>opts\<close>, which the server accepts as a window of \<open>L\<close> blocks of the
  default size. When the acknowledgement of the options and every block arrive once and in order, the client returns the file and has sent, after its request,
  the acknowledgement of the options and that of the last block of every window.\<close>

locale downloader =
  fixes opts :: "(rstr \<times> rstr) list" and L :: nat
    and run :: "client_env \<Rightarrow> TFTPClient \<Rightarrow> rstr \<Rightarrow> downloaded option"
  assumes wf: "wf_options opts"
    and no_size: "\<not> TSize_is_requested (map_of (rev opts))"
    and accepted: "0 < L \<Longrightarrow>
      negotiated_oack (\<lambda>u. (Inr 0, u)) () (map_of (rev opts)) = (\<lparr>oack_options = opts\<rparr>, \<lparr>timeout = 5\<rparr>, \<lparr>block_size = 512\<rparr>, WindowSize L, ())"
    and receives: "0 < L \<Longrightarrow> length (rrq_packet name opts) < CLIENT_BUFFER_SIZE \<Longrightarrow> fst tid = fst addr \<Longrightarrow> N = block_count data 512 \<Longrightarrow>
      \<exists>sock. run env (TFTPClient_new (client_socket tid ((if opts \<noteq> [] then [oack_packet opts] else []) @ map (data_packet data 512) [1..<Suc N])) addr) name
          = Some (Inr data, sock)
        \<and> sock_sent sock = (addr, rrq_packet name opts)
            # map (Pair tid) ((if opts \<noteq> [] then [ack_packet 0] else []) @ map (\<lambda>k. ack_packet (of_nat k)) (ack_points L N 0))
        \<and> sock_events sock = []"
begin

text \<open>So every such client, joined with the whole server, has the file in the end.\<close>

lemma from_the_server:
  assumes "activity s = Selecting" "length (srv_buffer s) = BUFFER_SIZE" "peer_handlers s ip = None"
    and "wf_str name" "length (rrq_packet name opts) < CLIENT_BUFFER_SIZE" "request = \<lparr>filename = name, options = map_of (rev opts)\<rparr>"
    and "initial_roots dbg host (root_dir s) ip = Some (before @ root # others)" "list_all (refuses host request) before"
    and "open_root host request root = Some (Inr work, root')" "opened_for host data (map_of (rev opts)) work" "length data < usize_modulus"
    and "0 < hash_capacity host MAX_SESSIONS_PER_IP" "tid = (fst (socket_addr s), session_port)"
    and "0 < L" "L = 1 \<or> block_count data 512 < 65536"
  shows "\<exists>acks s' session sock.
    request_served dbg host t s (rrq_packet name opts) (ip, port) (map (Arrives (ip, port)) acks) s' session
    \<and> run env (TFTPClient_new (client_socket tid (outbox (s_stream session))) (socket_addr s)) name = Some (Inr data, sock)
    \<and> sock_sent sock = (socket_addr s, rrq_packet name opts) # map (Pair tid) acks
    \<and> inbox (s_stream session) = [] \<and> sock_events sock = []"
proof -
  define N where "N = block_count data 512"
  define acks where "acks = (if opts \<noteq> [] then [ack_packet 0] else []) @ map (\<lambda>k. ack_packet (of_nat k)) (ack_points L N 0)"
  let ?oack = "\<lparr>oack_options = opts\<rparr>" and ?b = "\<lparr>block_size = 512\<rparr> :: Blksize"
  have sizes: "N = block_count data (Blksize_get_size ?b)" "WindowSize_get_size (WindowSize L) = 1 \<or> N < 65536"
    "acks = (if has_options ?oack then [ack_packet 0] else []) @ map (\<lambda>k. ack_packet (of_nat k)) (ack_points (WindowSize_get_size (WindowSize L)) N 0)"
    using assms(15) by (simp_all add: N_def acks_def has_options_def Blksize_get_size_def WindowSize_get_size_def)
  obtain st where run_st: "run_task dbg host work (DatagramStream_new (map (Arrives (ip, port)) acks) [] (ip, port)) (replicate 65535 0) = Some st"
    and out: "outbox st = (if has_options ?oack then [oack_packet (oack_options ?oack)] else []) @ map (data_packet data (Blksize_get_size ?b)) [1..<Suc N]"
    and empty: "inbox st = []"
    by (rule task_meets_client [OF assms(10,11) no_size accepted [OF assms(14)] sizes, of dbg "(ip, port)"])
  have out': "outbox st = (if opts \<noteq> [] then [oack_packet opts] else []) @ map (data_packet data 512) [1..<Suc N]"
    using out by (simp add: has_options_def Blksize_get_size_def del: upt_Suc)
  obtain s' session where s': "request_served dbg host t s (rrq_packet name opts) (ip, port) (map (Arrives (ip, port)) acks) s' session"
    "s_stream session = st"
    using request_runs_its_task [OF assms(1-4) wf client_request_fits [OF assms(5)] assms(6,7) schedule_task_first [OF assms(8,9)] assms(12) run_st, of t]
    by blast
  have "fst tid = fst (socket_addr s)" using assms(13) by simp
  from receives [OF assms(14,5) this N_def] s' out' empty show ?thesis unfolding acks_def by metis
qed

end

text \<open>The two clients of the integration tests keep it.\<close>

interpretation plain: downloader "[]" 1 client_download
proof unfold_locales
  fix name :: rstr and tid addr :: SocketAddr and N :: nat and data :: bytes and env
  assume "length (rrq_packet name []) < CLIENT_BUFFER_SIZE" "fst tid = fst addr" and N: "N = block_count data 512"
  moreover have "sock_events (client_socket tid (map (data_packet data 512) [1..<Suc N])) = block_events tid data 512 0 N"
    by (simp add: block_events_def comp_def del: upt_Suc)
  ultimately show "\<exists>sock. client_download env (TFTPClient_new (client_socket tid ((if [] \<noteq> [] then [oack_packet []] else [])
        @ map (data_packet data 512) [1..<Suc N])) addr) name = Some (Inr data, sock)
      \<and> sock_sent sock = (addr, rrq_packet name [])
          # map (Pair tid) ((if [] \<noteq> [] then [ack_packet 0] else []) @ map (\<lambda>k. ack_packet (of_nat k)) (ack_points 1 N 0))
      \<and> sock_events sock = []"
    using client_download_file [of "client_socket tid (map (data_packet data 512) [1..<Suc N])" name tid addr N data env]
      ack_points_one [of 0 N] by (simp add: comp_def del: upt_Suc)
qed (simp_all add: wf_options_def TSize_is_requested_def no_options)

interpretation windowed: downloader "[(WINDOW_SIZE, usize_to_string (unat w))]" "unat w" "\<lambda>env client name. client_download_window env client name w"
  for w :: u16
proof unfold_locales
  let ?opts = "[(WINDOW_SIZE, usize_to_string (unat w))]"
  have "wf_str WINDOW_SIZE" by code_simp
  moreover have "wf_str (usize_to_string (unat w))"
    using window_size.echo_wf [of "WindowSize (unat w)"] by (simp add: WindowSize_as_key_pair_def)
  ultimately show "wf_options ?opts" by (simp add: wf_options_def)
  show "\<not> TSize_is_requested (map_of (rev ?opts))" using option_names_distinct by (auto simp: TSize_is_requested_def)
  show "0 < unat w \<Longrightarrow> negotiated_oack (\<lambda>u. (Inr 0, u)) () (map_of (rev ?opts))
      = (\<lparr>oack_options = ?opts\<rparr>, \<lparr>timeout = 5\<rparr>, \<lparr>block_size = 512\<rparr>, WindowSize (unat w), ())"
    using window_only [OF _ refl, of w "\<lambda>u. (Inr 0, u)" "()"] by simp
  fix name :: rstr and tid addr :: SocketAddr and N :: nat and data :: bytes and env
  assume "0 < unat w" "length (rrq_packet name ?opts) < CLIENT_BUFFER_SIZE" "fst tid = fst addr" "N = block_count data 512"
  moreover have "sock_events (client_socket tid (oack_packet ?opts # map (data_packet data 512) [1..<Suc N]))
      = Arrives tid (oack_packet ?opts) # block_events tid data 512 0 N"
    by (simp add: block_events_def comp_def del: upt_Suc)
  ultimately show "\<exists>sock. client_download_window env (TFTPClient_new (client_socket tid ((if ?opts \<noteq> [] then [oack_packet ?opts] else [])
        @ map (data_packet data 512) [1..<Suc N])) addr) name w = Some (Inr data, sock)
      \<and> sock_sent sock = (addr, rrq_packet name ?opts)
          # map (Pair tid) ((if ?opts \<noteq> [] then [ack_packet 0] else []) @ map (\<lambda>k. ack_packet (of_nat k)) (ack_points (unat w) N 0))
      \<and> sock_events sock = []"
    using client_download_window_file [of "client_socket tid (oack_packet ?opts # map (data_packet data 512) [1..<Suc N])" ?opts w name tid addr N data env]
    by (simp add: comp_def del: upt_Suc)
qed

text \<open>For the examples: the surroundings of a client, and a file name.\<close>

definition sample_client :: client_env where
  "sample_client = \<lparr>outer_timer = True, debug_io = detail, show_io = detail, debug_socket = (\<lambda>_. []), own_address = (V4 10 0 0 1, 2000)\<rparr>"

lemma sample_name: "wf_str (str ''k'')" "length (rrq_packet (str ''k'') []) < CLIENT_BUFFER_SIZE"
  by (simp_all add: wf_str_def rrq_packet_def OCTET_def CLIENT_BUFFER_SIZE_def str_def option_bytes_def)

section \<open>Downloads\<close>

text \<open>
  \<^bold>\<open>C6.\<close> A plain download from the whole server. The server waits, the peer has no handler yet, its roots can be opened, and the first
  of them that has the file gives it intact. Then the client's \<open>download\<close> returns the file byte for byte. The server reaches the end of the session
  from the client's request; what the session has sent is what arrived at the client, what the client has sent after the request is what arrived at
  the session, and nothing is left in flight on either side. There is no bound on the size of the file beyond that of \<open>usize\<close>.
\<close>

theorem plain_download_from_the_server:
  assumes "activity s = Selecting" "length (srv_buffer s) = BUFFER_SIZE" "peer_handlers s ip = None"
    and "wf_str name" "length (rrq_packet name []) < CLIENT_BUFFER_SIZE" "request = \<lparr>filename = name, options = Map.empty\<rparr>"
    and "initial_roots dbg host (root_dir s) ip = Some (before @ root # others)" "list_all (refuses host request) before"
    and "open_root host request root = Some (Inr work, root')" "opened_for host data Map.empty work" "length data < usize_modulus"
    and "0 < hash_capacity host MAX_SESSIONS_PER_IP" "tid = (fst (socket_addr s), session_port)"
  shows "\<exists>acks s' session sock.
    request_served dbg host t s (rrq_packet name []) (ip, port) (map (Arrives (ip, port)) acks) s' session
    \<and> client_download env (TFTPClient_new (client_socket tid (outbox (s_stream session))) (socket_addr s)) name = Some (Inr data, sock)
    \<and> sock_sent sock = (socket_addr s, rrq_packet name []) # map (Pair tid) acks
    \<and> inbox (s_stream session) = [] \<and> sock_events sock = []"
  using plain.from_the_server [OF assms(1-5) _ assms(7-9) _ assms(11-13), of t port env] assms(6,10) by simp

theorem plain_download_from_the_server_witness:
  "\<exists>acks s' session sock. request_served False empty_host 0 (TFTPServer_new (V4 10 0 0 2, 69) (str ''/srv'') 1 0)
      (rrq_packet (str ''k'') []) (V4 10 0 0 1, 2000) (map (Arrives (V4 10 0 0 1, 2000)) acks) s' session
    \<and> client_download sample_client (TFTPClient_new (client_socket (V4 10 0 0 2, 5000) (outbox (s_stream session))) (V4 10 0 0 2, 69)) (str ''k'')
      = Some (Inr [1, 2, 3], sock)
    \<and> sock_sent sock = ((V4 10 0 0 2, 69), rrq_packet (str ''k'') []) # map (Pair (V4 10 0 0 2, 5000)) acks
    \<and> inbox (s_stream session) = [] \<and> sock_events sock = []"
proof -
  let ?s = "TFTPServer_new (V4 10 0 0 2, 69) (str ''/srv'') 1 0 :: unit TFTPServer" and ?rq = "\<lparr>filename = str ''k'', options = Map.empty\<rparr>"
  let ?root = "RemoteRoot_new (ConnectedDisk_new \<lparr>gfs_handle = (), events = []\<rparr> (str ''nbd://h/e'')) (str ''/boot'')"
  have roots: "initial_roots False empty_host (root_dir ?s) (V4 10 0 0 1) = Some ([LocalKind (LocalRoot_new (str ''/srv/10.0.0.1''))]
      @ RemoteKind ?root # [LocalKind (LocalRoot_new (str ''/srv/default''))])"
    unfolding new_server(4) memory_host_roots by simp
  have refused: "list_all (refuses empty_host ?rq) [LocalKind (LocalRoot_new (str ''/srv/10.0.0.1''))]"
    by (simp add: refuses_def open_in_def LocalRoot_open_is_os_open memory_host_def io_kind_def Let_def)
  obtain work root' where work: "open_root empty_host ?rq (RemoteKind ?root) = Some (Inr work, root')" "opened_for empty_host [1, 2, 3] Map.empty work"
    using remote_root_opens [OF refl, where host = empty_host and request = ?rq and root = ?root and data = "[1, 2, 3]" and n = 3
        and info = "\<lparr>st_size = 3\<rparr>" and msgs = "[]" and ?h1.0 = "()" and ?msgs2.0 = "[]" and ?h2.0 = "()"] memory_disk_serves [of "[1, 2, 3]"]
    by (auto simp: memory_host_def memory_disk_def RemoteRoot_new_def str_def path_join_def slash_def has_root_def trim_start_matches_def)
  have "length [1 :: byte, 2, 3] < usize_modulus" "0 < hash_capacity empty_host MAX_SESSIONS_PER_IP"
    "(V4 10 0 0 2, 5000) = (fst (socket_addr ?s), 5000)" "socket_addr ?s = (V4 10 0 0 2, 69)"
    by (simp_all add: usize_modulus_def memory_host_def MAX_SESSIONS_PER_IP_def TFTPServer_new_def)
  from plain_download_from_the_server [OF new_server(1-3) sample_name refl roots refused work this(1-3), of 0 2000 sample_client] this(4)
  show ?thesis by simp
qed

text \<open>
  \<^bold>\<open>C7.\<close> A download by windows from the whole server. The same for \<open>download_window\<close> with a window of \<open>w\<close> blocks, for a
  window of one block or a file of fewer than 65536 blocks: the server acknowledges the window option, the client checks the acknowledged value, answers it,
  and acknowledges the last block of every window; it returns the file.
\<close>

theorem window_download_from_the_server:
  assumes "activity s = Selecting" "length (srv_buffer s) = BUFFER_SIZE" "peer_handlers s ip = None"
    and "wf_str name" "opts = [(WINDOW_SIZE, usize_to_string (unat w))]" "0 < unat w" "length (rrq_packet name opts) < CLIENT_BUFFER_SIZE"
    and "request = \<lparr>filename = name, options = map_of opts\<rparr>"
    and "initial_roots dbg host (root_dir s) ip = Some (before @ root # others)" "list_all (refuses host request) before"
    and "open_root host request root = Some (Inr work, root')" "opened_for host data (map_of opts) work" "length data < usize_modulus"
    and "w = 1 \<or> block_count data 512 < 65536"
    and "0 < hash_capacity host MAX_SESSIONS_PER_IP" "tid = (fst (socket_addr s), session_port)"
  shows "\<exists>acks s' session sock.
    request_served dbg host t s (rrq_packet name opts) (ip, port) (map (Arrives (ip, port)) acks) s' session
    \<and> client_download_window env (TFTPClient_new (client_socket tid (outbox (s_stream session))) (socket_addr s)) name w = Some (Inr data, sock)
    \<and> sock_sent sock = (socket_addr s, rrq_packet name opts) # map (Pair tid) acks
    \<and> inbox (s_stream session) = [] \<and> sock_events sock = []"
proof -
  have small: "unat w = 1 \<or> block_count data 512 < 65536" using assms(14) by auto
  have "map_of opts = map_of (rev opts)" using assms(5) by simp
  then show ?thesis
    using windowed.from_the_server [where w = w, folded assms(5), OF assms(1-4,7) _ assms(9-11) _ assms(13,15,16,6) small, of t port env] assms(8,12) by simp
qed

theorem window_download_from_the_server_witness:
  "\<exists>acks s' session sock. request_served True (bare_host (\<lambda>_. Inr (rd (sample_file [1, 2, 3] [])))) 0 (TFTPServer_new (V4 10 0 0 2, 69) (str ''/srv'') 1 0)
      (rrq_packet (str ''k'') [(WINDOW_SIZE, str ''2'')]) (V4 10 0 0 1, 2000) (map (Arrives (V4 10 0 0 1, 2000)) acks) s' session
    \<and> client_download_window sample_client (TFTPClient_new (client_socket (V4 10 0 0 2, 5000) (outbox (s_stream session))) (V4 10 0 0 2, 69)) (str ''k'') 2
      = Some (Inr [1, 2, 3], sock)
    \<and> sock_sent sock = ((V4 10 0 0 2, 69), rrq_packet (str ''k'') [(WINDOW_SIZE, str ''2'')]) # map (Pair (V4 10 0 0 2, 5000)) acks
    \<and> inbox (s_stream session) = [] \<and> sock_events sock = []"
proof -
  let ?host = "bare_host (\<lambda>_. Inr (rd (sample_file [1, 2, 3] [])))" and ?opts = "[(WINDOW_SIZE, str ''2'')]"
  let ?s = "TFTPServer_new (V4 10 0 0 2, 69) (str ''/srv'') 1 0 :: unit TFTPServer" and ?rq = "\<lparr>filename = str ''k'', options = map_of ?opts\<rparr>"
  let ?root = "LocalRoot_new (path_join (str ''/srv'') (IpAddr_to_string (V4 10 0 0 1)))"
  have roots: "initial_roots True ?host (root_dir ?s) (V4 10 0 0 1)
      = Some ([] @ LocalKind ?root # [LocalKind (LocalRoot_new (path_join (str ''/srv'') (str ''default'')))])"
    unfolding new_server(4) by (simp add: bare_host_roots)
  have opts: "?opts = [(WINDOW_SIZE, usize_to_string (unat (2 :: u16)))]" "0 < unat (2 :: u16)" "length (rrq_packet (str ''k'') ?opts) < CLIENT_BUFFER_SIZE"
    by (simp_all add: usize_to_string.simps digit_byte_def str_def rrq_packet_def OCTET_def CLIENT_BUFFER_SIZE_def option_bytes_def WINDOW_SIZE_def)
  obtain work where work: "open_root ?host ?rq (LocalKind ?root) = Some (Inr work, LocalKind ?root)" "opened_for ?host [1, 2, 3] (map_of ?opts) work"
    by (simp add: open_in_def LocalRoot_open_is_os_open bare_host_def memory_host_def yield_options_def sample_file_def local_healthy_def local_fresh_def)
  have "length [1 :: byte, 2, 3] < usize_modulus" "(2 :: u16) = 1 \<or> block_count [1 :: byte, 2, 3] 512 < 65536"
    "0 < hash_capacity ?host MAX_SESSIONS_PER_IP" "(V4 10 0 0 2, 5000) = (fst (socket_addr ?s), 5000)" "socket_addr ?s = (V4 10 0 0 2, 69)"
    by (simp_all add: usize_modulus_def bare_host_def memory_host_def MAX_SESSIONS_PER_IP_def TFTPServer_new_def block_count_def)
  from window_download_from_the_server [OF new_server(1-3) sample_name(1) opts refl roots _ work this(1-4), of 0 2000 sample_client] this(5)
  show ?thesis by simp
qed

text \<open>
  \<^bold>\<open>C8.\<close> A request that cannot be served, from the roots to the client. When every root answers that there is no such file, the client's
  \<open>download\<close> returns the error 1, \<open>File not found\<close>. When the roots before it do and one fails otherwise, the later roots do not matter: the
  client gets the error 2, \<open>Access violation\<close>, for a refused access and the error 0, \<open>Server Error\<close>, for any other failure. The session has
  sent a single packet, and the client acknowledges nothing.
\<close>

theorem failed_download_from_the_server:
  assumes "activity s = Selecting" "length (srv_buffer s) = BUFFER_SIZE" "peer_handlers s ip = None"
    and "wf_str name" "length (rrq_packet name []) < CLIENT_BUFFER_SIZE" "request = \<lparr>filename = name, options = Map.empty\<rparr>"
    and "initial_roots dbg host (root_dir s) ip = Some roots" "0 < hash_capacity host MAX_SESSIONS_PER_IP"
    and "tid = (fst (socket_addr s), session_port)"
    and "list_all (refuses host request) roots \<and> e = file_not_found \<and> answer = ''ACK: [1] File not found''
      \<or> (\<exists>before root others err root'. roots = before @ root # others \<and> list_all (refuses host request) before
          \<and> open_root host request root = Some (Inl err, root') \<and> kind err \<noteq> NotFound
          \<and> (if kind err = PermissionDenied then e = access_violation \<and> answer = ''ACK: [2] Access violation''
             else e = undefined_error ''Server Error'' \<and> answer = ''ACK: [0] Server Error''))"
  shows "\<exists>s' session sock. request_served dbg host t s (rrq_packet name []) (ip, port) [] s' session
    \<and> outbox (s_stream session) = [error_packet e]
    \<and> client_download env (TFTPClient_new (client_socket tid (outbox (s_stream session))) (socket_addr s)) name
        = Some (Inl (DownloadError (str answer)), sock)
    \<and> sock_sent sock = [(socket_addr s, rrq_packet name [])] \<and> sock_events sock = []"
proof -
  have e: "map_option fst (schedule_task host request roots) = Some (FireError e)" "printable e" "str answer = client_text e"
    using assms(10) schedule_task_fails [of host request] root_errors schedule_task_nowhere [of host request] by (fastforce split: if_splits)+
  obtain st where st: "run_task dbg host (FireError e) (DatagramStream_new [] [] (ip, port)) (replicate 65535 0) = Some st"
    "outbox st = [error_packet e]" "inbox st = []"
    by (rule task_refuses [OF e(2)])
  have req: "wf_options []" "length (rrq_packet name []) \<le> BUFFER_SIZE" "request = \<lparr>filename = name, options = map_of (rev [])\<rparr>"
    using assms(6) client_request_fits [OF assms(5)] by (simp_all add: wf_options_def)
  obtain s' session where s': "request_served dbg host t s (rrq_packet name []) (ip, port) [] s' session" "s_stream session = st"
    using request_runs_its_task [OF assms(1-4) req assms(7) e(1) assms(8) st(1), of t] by blast
  have "error_size e \<le> CLIENT_BUFFER_SIZE" "utf8_valid (snd (TFTPError_parse e))" "0 \<notin> set (snd (TFTPError_parse e))"
    using e(2) by (simp_all add: printable_def error_size_def CLIENT_BUFFER_SIZE_def)
  from client_download_refused [OF _ assms(5) _ prod.collapse [symmetric] this(2,3,1), of "client_socket tid (outbox st)" tid "socket_addr s" env]
    assms(9) s' st(2) e(3)
  show ?thesis by (fastforce simp: client_text_def)
qed

theorem failed_download_from_the_server_witness:
  "\<exists>s' session sock. request_served False (bare_host (\<lambda>_. Inl (io_kind PermissionDenied))) 0 (TFTPServer_new (V4 10 0 0 2, 69) (str ''/srv'') 1 0)
      (rrq_packet (str ''k'') []) (V4 10 0 0 1, 2000) [] s' session
    \<and> outbox (s_stream session) = [error_packet access_violation]
    \<and> client_download sample_client (TFTPClient_new (client_socket (V4 10 0 0 2, 5000) (outbox (s_stream session))) (V4 10 0 0 2, 69)) (str ''k'')
      = Some (Inl (DownloadError (str ''ACK: [2] Access violation'')), sock)
    \<and> sock_sent sock = [((V4 10 0 0 2, 69), rrq_packet (str ''k'') [])] \<and> sock_events sock = []"
proof -
  let ?s = "TFTPServer_new (V4 10 0 0 2, 69) (str ''/srv'') 1 0 :: unit TFTPServer" and ?rq = "\<lparr>filename = str ''k'', options = Map.empty\<rparr>"
  let ?host = "bare_host (\<lambda>_. Inl (io_kind PermissionDenied))"
  let ?root = "LocalRoot_new (path_join (str ''/srv'') (IpAddr_to_string (V4 10 0 0 1)))"
  have roots: "initial_roots False ?host (root_dir ?s) (V4 10 0 0 1)
      = Some [LocalKind ?root, LocalKind (LocalRoot_new (path_join (str ''/srv'') (str ''default'')))]"
    unfolding new_server(4) by (simp add: bare_host_roots)
  have "open_root ?host ?rq (LocalKind ?root) = Some (Inl (io_kind PermissionDenied), LocalKind ?root)" "kind (io_kind PermissionDenied) = PermissionDenied"
    by (simp_all add: open_in_def LocalRoot_open_is_os_open bare_host_def memory_host_def io_kind_def)
  then have refused: "list_all (refuses ?host ?rq) [] \<and> kind (io_kind PermissionDenied) \<noteq> NotFound
      \<and> open_root ?host ?rq (LocalKind ?root) = Some (Inl (io_kind PermissionDenied), LocalKind ?root)
      \<and> kind (io_kind PermissionDenied) = PermissionDenied" by simp
  have "0 < hash_capacity ?host MAX_SESSIONS_PER_IP" "(V4 10 0 0 2, 5000) = (fst (socket_addr ?s), 5000)" "socket_addr ?s = (V4 10 0 0 2, 69)"
    by (simp_all add: bare_host_def memory_host_def MAX_SESSIONS_PER_IP_def TFTPServer_new_def)
  from failed_download_from_the_server [OF new_server(1-3) sample_name refl roots this(1,2) disjI2, of access_violation
      "''ACK: [2] Access violation''" 0 2000 sample_client] this(3) refused
  show ?thesis by fastforce
qed

section \<open>A download that is given up\<close>

lemma task_abandoned:
  assumes "opened_for host data Map.empty work" "printable e"
  obtains st where "run_task dbg host work (DatagramStream_new [Arrives peer (error_packet e)] [] peer) (replicate 65535 0) = Some st"
    "outbox st = [data_packet data 512 1]" "inbox st = []"
proof -
  let ?st = "DatagramStream_new [Arrives peer (error_packet e)] [] peer"
  have st: "inbox ?st = Arrives (peer_address ?st) (error_packet e) # []" "send_results ?st = []" "outbox ?st = []" "error_size e \<le> 65535"
    "utf8_valid (snd (TFTPError_parse e))" "0 \<notin> set (snd (TFTPError_parse e))"
    using assms(2) by (simp_all add: DatagramStream_new_def printable_def error_size_def)
  have o: "\<not> has_options \<lparr>oack_options = []\<rparr>" by (simp add: has_options_def)
  have m: "1 = min (WindowSize_get_size (WindowSize 1)) (block_count d (Blksize_get_size \<lparr>block_size = 512\<rparr>))" for d :: bytes
    by (simp add: WindowSize_get_size_def block_count_def)
  show ?thesis
  proof (cases work)
    case (SendLocal f os)
    with assms(1) have f: "local_healthy f" "local_fresh f" "local_rest f = data" "os = Map.empty" by (auto simp: local_rest_def local_fresh_def)
    from local_file.session_abandoned [OF f(1,2) no_options o m st(1,2,4-6), of dbg] st(3) f that
    show ?thesis by (auto simp: SendLocal run_task_def Blksize_get_size_def)
  next
    case (SendRemote f os)
    with assms(1) have f: "remote_healthy (guestfs_lib host) data f" "remote_fresh f" "remote_rest data f = data" "os = Map.empty"
      by (auto simp: remote_rest_def remote_fresh_def)
    from remote_file.session_abandoned [OF f(1,2) no_options o m st(1,2,4-6), of dbg] st(3) f that
    show ?thesis by (auto simp: SendRemote run_task_def Blksize_get_size_def)
  qed (use assms(1) in simp)
qed

text \<open>The test \<open>early_terminate\<close>: the client takes the first block and answers it with an error. The session ends, having sent that block and nothing
  after it, and the client waits for more in vain. The message of the error is longer than the request, so that its terminator is there.\<close>

lemma early_terminate:
  assumes "activity s = Selecting" "length (srv_buffer s) = BUFFER_SIZE" "peer_handlers s ip = None"
    and "wf_str name" "length (rrq_packet name []) < error_size e" "printable e" "TFTPError_parse e = (code, msg)"
    and "request = \<lparr>filename = name, options = Map.empty\<rparr>"
    and "initial_roots dbg host (root_dir s) ip = Some (before @ root # others)" "list_all (refuses host request) before"
    and "open_root host request root = Some (Inr work, root')" "opened_for host data Map.empty work"
    and "0 < hash_capacity host MAX_SESSIONS_PER_IP" "tid = (fst (socket_addr s), session_port)"
  shows "\<exists>s' session rq block sent_error.
    request_served dbg host t s (rrq_packet name []) (ip, port) [Arrives (ip, port) (error_packet e)] s' session
    \<and> outbox (s_stream session) = [data_packet data 512 1]
    \<and> send_plain_read_request (TFTPClient_new (client_socket tid (outbox (s_stream session))) (socket_addr s)) name = Some (Inr rq, local_socket rq)
    \<and> SentPlainReadRequest_read_next rq = Some (Inr block, cs_socket (datagram_stream block))
    \<and> Block_data block = Some (chunk data 512 1) \<and> Block_send_error block code msg = Some sent_error
    \<and> ex_sent sent_error = [(socket_addr s, rrq_packet name []), (tid, error_packet e)]
    \<and> fst (SentError_read_some sent_error) = Inl (io_kind TimedOut)"
proof -
  obtain st where st: "run_task dbg host work (DatagramStream_new [Arrives (ip, port) (error_packet e)] [] (ip, port)) (replicate 65535 0) = Some st"
    "outbox st = [data_packet data 512 1]" "inbox st = []"
    by (rule task_abandoned [OF assms(12,6)])
  have size: "error_size e < CLIENT_BUFFER_SIZE" using assms(6) by (simp add: printable_def error_size_def CLIENT_BUFFER_SIZE_def)
  have req: "wf_options []" "length (rrq_packet name []) \<le> BUFFER_SIZE" "request = \<lparr>filename = name, options = map_of (rev [])\<rparr>"
    using assms(5,8) size client_request_fits [of name "[]"] by (simp_all add: wf_options_def)
  obtain s' session where s': "request_served dbg host t s (rrq_packet name []) (ip, port) [Arrives (ip, port) (error_packet e)] s' session"
    "s_stream session = st"
    using request_runs_its_task [OF assms(1-4) req assms(9) schedule_task_first [OF assms(10,11)] assms(13) st(1), of t] by blast
  have "sock_events (client_socket tid (outbox st)) = [Arrives tid (data_packet data 512 1)]" using st(2) by simp
  from client_gives_up [OF _ assms(5) size _ this _ assms(7), of "socket_addr s"] assms(14) s' st(2) show ?thesis by fastforce
qed

end
