(* ===== verification/Nbd_Calls.thy ===== *)
theory Nbd_Calls
  imports Nbd_Disk "HOL-Library.Sublist"
begin

text \<open>
  What the program asks of libguestfs, call by call. \<open>traced lib\<close> is the library \<open>lib\<close> with a record of the calls that change or read
  the disk; as the library is a parameter of the model, its methods run on a traced library as on any other. The calls of a
  successful \<open>NBDConfig::connect\<close> (\<open>src/nbd_disk/mod.rs\<close>) are determined by the configuration and the partitions found;
  the error of a failed launch by the messages of the appliance.
\<close>

section \<open>A library that records its calls\<close>

datatype guestfs_call =
    CallAddDrive bytes bool
  | CallConfig bytes bytes
  | CallLaunch
  | CallListPartitions
  | CallMountRo bytes bytes
  | CallSetAppend bytes
  | CallClose
  | CallStat bytes
  | CallPread bytes int "64 word"

type_synonym 'h traced_handle = "'h \<times> guestfs_call list"

definition tracing :: "guestfs_call \<Rightarrow> ('r, 'h) foreign \<Rightarrow> ('r, 'h traced_handle) foreign" where
  "tracing c f ht = (case f (fst ht) of (r, msgs, h) \<Rightarrow> (r, msgs, h, snd ht @ [c]))"

definition untraced :: "('r, 'h) foreign \<Rightarrow> ('r, 'h traced_handle) foreign" where
  "untraced f ht = (case f (fst ht) of (r, msgs, h) \<Rightarrow> (r, msgs, h, snd ht))"

definition traced :: "'h libguestfs \<Rightarrow> 'h traced_handle libguestfs" where
  "traced lib =
    \<lparr>guestfs_create = (guestfs_create lib, []), guestfs_close = (\<lambda>ht. (guestfs_close lib (fst ht), snd ht @ [CallClose])),
     guestfs_last_error = (\<lambda>ht. guestfs_last_error lib (fst ht)),
     guestfs_add_drive_opts = (\<lambda>path ro. tracing (CallAddDrive path ro) (guestfs_add_drive_opts lib path ro)),
     guestfs_config = (\<lambda>key val. tracing (CallConfig key val) (guestfs_config lib key val)),
     guestfs_launch = tracing CallLaunch (guestfs_launch lib),
     guestfs_list_partitions = tracing CallListPartitions (guestfs_list_partitions lib),
     guestfs_mount_ro = (\<lambda>dev mp. tracing (CallMountRo dev mp) (guestfs_mount_ro lib dev mp)),
     guestfs_set_append = (\<lambda>s. tracing (CallSetAppend s) (guestfs_set_append lib s)),
     guestfs_stat_of = (\<lambda>path. tracing (CallStat path) (guestfs_stat_of lib path)),
     guestfs_set_pgroup = (\<lambda>k. untraced (guestfs_set_pgroup lib k)),
     guestfs_pread = (\<lambda>path n ofs. tracing (CallPread path n ofs) (guestfs_pread lib path n ofs)),
     guestfs_set_event_callback = (\<lambda>m. untraced (guestfs_set_event_callback lib m)),
     guestfs_set_error_handler = (\<lambda>ht. (guestfs_set_error_handler lib (fst ht), snd ht)),
     handle_pointer = (\<lambda>ht. handle_pointer lib (fst ht))\<rparr>"

abbreviation calls :: "'h traced_handle GuestFS \<Rightarrow> guestfs_call list" where
  "calls g \<equiv> snd (gfs_handle g)"

section \<open>The calls of the methods\<close>

lemma traced_calls:
  "snd (gfs_handle (snd (foreign_call (guestfs_add_drive_opts (traced lib) path ro) g))) = calls g @ [CallAddDrive path ro]"
  "snd (gfs_handle (snd (foreign_call (guestfs_config (traced lib) key val) g))) = calls g @ [CallConfig key val]"
  "snd (gfs_handle (snd (foreign_call (guestfs_launch (traced lib)) g))) = calls g @ [CallLaunch]"
  "snd (gfs_handle (snd (foreign_call (guestfs_list_partitions (traced lib)) g))) = calls g @ [CallListPartitions]"
  "snd (gfs_handle (snd (foreign_call (guestfs_mount_ro (traced lib) dev mp) g))) = calls g @ [CallMountRo dev mp]"
  "snd (gfs_handle (snd (foreign_call (guestfs_set_append (traced lib) s) g))) = calls g @ [CallSetAppend s]"
  "snd (gfs_handle (snd (foreign_call (guestfs_set_pgroup (traced lib) k) g))) = calls g"
  "snd (gfs_handle (snd (foreign_call (guestfs_set_event_callback (traced lib) m) g))) = calls g"
  by (simp_all add: traced_def tracing_def untraced_def foreign_call_def split: prod.splits)

lemma check_zero_handle: "check_zero lib x = Some (r, g') \<Longrightarrow> g' = snd x"
  by (auto simp: check_zero_def split: prod.splits if_splits)

lemma CString_same: "CString s = Some c \<Longrightarrow> c = s"
  by (simp add: CString_def split: if_splits)

lemma GuestFS_drop_calls: "calls (GuestFS_drop (traced lib) g) = calls g @ [CallClose]"
  by (simp add: GuestFS_drop_def traced_def)

text \<open>Every method records its one call, whether it succeeds or not.\<close>

lemma method_calls:
  "add_qemu_option (traced lib) g key val = Some (r, g') \<Longrightarrow> calls g' = calls g @ [CallConfig key val]"
  "launch (traced lib) g = Some (r, g') \<Longrightarrow> calls g' = calls g @ [CallLaunch]"
  "mount_ro (traced lib) g dev mp = Some (r, g') \<Longrightarrow> calls g' = calls g @ [CallMountRo dev mp]"
  "set_append (traced lib) g text = Some (r, g') \<Longrightarrow> calls g' = calls g @ [CallSetAppend text]"
  "disable_signals_propagation (traced lib) g = Some (r, g') \<Longrightarrow> calls g' = calls g"
  by (auto simp: add_qemu_option_def launch_def mount_ro_def set_append_def disable_signals_propagation_def traced_calls
      split: bind_splits dest!: check_zero_handle CString_same)

lemma add_disk_calls:
  "add_disk (traced lib) g path ro = Some (r, g') \<Longrightarrow> calls g' = calls g @ [CallAddDrive path ro]"
  using traced_calls(1) [of lib path ro g]
  by (auto simp: add_disk_def Let_def split: bind_splits prod.splits if_splits GuestFSError.splits dest!: CString_same)

lemma list_partitions_calls:
  "list_partitions (traced lib) g = Some (r, g') \<Longrightarrow> calls g' = calls g @ [CallListPartitions]
    \<and> (\<forall>ps. r = Inr ps \<longrightarrow> length ps \<le> 100)"
  using traced_calls(4) [of lib g]
  by (auto simp: list_partitions_def split: prod.splits option.splits if_splits)

lemma GuestFS_new_calls: "GuestFS_new (traced lib) = Some g \<Longrightarrow> calls g = []"
  using traced_calls(8) [of lib GUEST_FS_EVENT_APPLIANCE
      "\<lparr>gfs_handle = guestfs_set_error_handler (traced lib) (guestfs_create (traced lib)), events = []\<rparr>"]
  by (auto simp: GuestFS_new_def Let_def split: prod.splits if_splits bind_splits sum.splits dest!: method_calls(5))
    (simp add: traced_def)

section \<open>Recording changes nothing\<close>

definition erase :: "'h traced_handle GuestFS \<Rightarrow> 'h GuestFS" where
  "erase g = \<lparr>gfs_handle = fst (gfs_handle g), events = events g\<rparr>"

abbreviation erased :: "('r \<times> 'h traced_handle GuestFS) run \<Rightarrow> ('r \<times> 'h GuestFS) run" where
  "erased x \<equiv> map_option (map_prod id erase) x"

lemma erase_simps [simp]:
  "gfs_handle (erase g) = fst (gfs_handle g)" "events (erase g) = events g" "erase (g\<lparr>events := es\<rparr>) = (erase g)\<lparr>events := es\<rparr>"
  by (simp_all add: erase_def)

lemma foreign_call_traced:
  "foreign_call (guestfs_add_drive_opts lib path ro) (erase g) = map_prod id erase (foreign_call (guestfs_add_drive_opts (traced lib) path ro) g)"
  "foreign_call (guestfs_config lib key val) (erase g) = map_prod id erase (foreign_call (guestfs_config (traced lib) key val) g)"
  "foreign_call (guestfs_launch lib) (erase g) = map_prod id erase (foreign_call (guestfs_launch (traced lib)) g)"
  "foreign_call (guestfs_list_partitions lib) (erase g) = map_prod id erase (foreign_call (guestfs_list_partitions (traced lib)) g)"
  "foreign_call (guestfs_mount_ro lib dev mp) (erase g) = map_prod id erase (foreign_call (guestfs_mount_ro (traced lib) dev mp) g)"
  "foreign_call (guestfs_set_append lib text) (erase g) = map_prod id erase (foreign_call (guestfs_set_append (traced lib) text) g)"
  "foreign_call (guestfs_set_pgroup lib k) (erase g) = map_prod id erase (foreign_call (guestfs_set_pgroup (traced lib) k) g)"
  "foreign_call (guestfs_set_event_callback lib m) (erase g) = map_prod id erase (foreign_call (guestfs_set_event_callback (traced lib) m) g)"
  by (simp_all add: traced_def tracing_def untraced_def foreign_call_def erase_def split: prod.splits)

lemma get_last_error_traced [simp]: "get_last_error (traced lib) h = get_last_error lib (fst h)"
  by (simp add: get_last_error_def traced_def)

lemma check_zero_traced: "check_zero lib (map_prod id erase x) = erased (check_zero (traced lib) x)"
  by (cases x) (auto simp: check_zero_def option.map_comp comp_def)

lemma method_traced:
  "add_qemu_option lib (erase g) key val = erased (add_qemu_option (traced lib) g key val)"
  "launch lib (erase g) = erased (launch (traced lib) g)"
  "mount_ro lib (erase g) dev mp = erased (mount_ro (traced lib) g dev mp)"
  "set_append lib (erase g) text = erased (set_append (traced lib) g text)"
  "disable_signals_propagation lib (erase g) = erased (disable_signals_propagation (traced lib) g)"
  by (simp_all add: add_qemu_option_def launch_def mount_ro_def set_append_def disable_signals_propagation_def
      foreign_call_traced check_zero_traced CString_def)

lemma add_disk_traced: "add_disk lib (erase g) path ro = erased (add_disk (traced lib) g path ro)"
  by (cases "foreign_call (guestfs_add_drive_opts (traced lib) path ro) g")
    (auto simp: add_disk_def foreign_call_traced CString_def Let_def split: bind_splits GuestFSError.splits)

lemma GuestFS_drop_traced: "GuestFS_drop lib (erase g) = erase (GuestFS_drop (traced lib) g)"
  by (simp add: GuestFS_drop_def traced_def erase_def)

lemma list_partitions_traced: "list_partitions lib (erase g) = erased (list_partitions (traced lib) g)"
  by (cases "foreign_call (guestfs_list_partitions (traced lib)) g")
    (auto simp: list_partitions_def foreign_call_traced option.map_comp comp_def split: option.splits)

lemma and_then_traced:
  assumes "m = erased m'" "\<And>a g. k a (erase g) = map_option (map_prod (map_sum id f) erase) (k' a g)"
  shows "and_then m k = map_option (map_prod (map_sum id f) erase) (and_then m' k')"
  using assms by (cases m') (auto simp: and_then_def split: sum.splits)

lemma drop_on_error_traced:
  assumes "m = map_option (map_prod (map_sum id f) erase) m'"
  shows "(do { (r, g) \<leftarrow> m; Some (r, case r of Inl _ \<Rightarrow> GuestFS_drop lib g | Inr _ \<Rightarrow> g) })
    = map_option (map_prod (map_sum id f) erase)
        (do { (r, g) \<leftarrow> m'; Some (r, case r of Inl _ \<Rightarrow> GuestFS_drop (traced lib) g | Inr _ \<Rightarrow> g) })"
  using assms by (cases m') (auto simp: GuestFS_drop_traced split: sum.splits)

lemma GuestFS_new_traced: "GuestFS_new lib = map_option erase (GuestFS_new (traced lib))"
proof -
  let ?g = "\<lparr>gfs_handle = guestfs_set_error_handler (traced lib) (guestfs_create (traced lib)), events = []\<rparr>"
  have "erase ?g = \<lparr>gfs_handle = guestfs_set_error_handler lib (guestfs_create lib), events = []\<rparr>"
    by (simp add: erase_def traced_def)
  with foreign_call_traced(8) [of lib GUEST_FS_EVENT_APPLIANCE ?g] show ?thesis
    by (cases "foreign_call (guestfs_set_event_callback (traced lib) GUEST_FS_EVENT_APPLIANCE) ?g")
      (auto simp: GuestFS_new_def method_traced Let_def split: bind_splits sum.splits)
qed

lemma mount_suitable_traced: "mount_suitable dbg lib (erase g) m parts = erased (mount_suitable dbg (traced lib) g m parts)"
  by (auto simp: mount_suitable_def partition_index_def Partition_mount_ro_def method_traced split: bind_splits sum.splits)

lemma mount_all_traced: "mount_all dbg lib (erase g) ms parts = erased (mount_all dbg (traced lib) g ms parts)"
  by (induction ms arbitrary: g)
    (simp_all add: and_then_traced [OF mount_suitable_traced, where f = id, unfolded sum.map_id0])

definition erase_disk :: "'h traced_handle ConnectedDisk \<Rightarrow> 'h ConnectedDisk" where
  "erase_disk d = \<lparr>cd_handle = erase (cd_handle d), cd_url = cd_url d\<rparr>"

lemma erase_disk_simps [simp]:
  "cd_handle (erase_disk d) = erase (cd_handle d)" "(erase_disk d)\<lparr>cd_handle := erase g\<rparr> = erase_disk (d\<lparr>cd_handle := g\<rparr>)"
  by (simp_all add: erase_disk_def)

definition erase_root :: "'h traced_handle RemoteRoot \<Rightarrow> 'h RemoteRoot" where
  "erase_root root = \<lparr>rr_disk = erase_disk (rr_disk root), chroot_path = chroot_path root\<rparr>"

lemma attach_nbd_disk_traced:
  "attach_nbd_disk lib url = map_option (map_prod (map_sum id erase_disk) erase) (attach_nbd_disk (traced lib) url)"
proof (cases "GuestFS_new (traced lib)")
  case (Some g)
  have dev: "add_nbd_device_read_only lib (erase g) url = erased (add_nbd_device_read_only (traced lib) g url)" for g
    unfolding add_nbd_device_read_only_def
    by (rule and_then_traced [where f = id, unfolded sum.map_id0]) (simp_all add: method_traced)
  have last: "(do { (r, g) \<leftarrow> launch lib (erase g); let (messages, g) = retrieve_appliance_stderr g;
      case r of Inl _ \<Rightarrow> Some (Inl (launch_error url [] messages), g) | Inr _ \<Rightarrow> Some (Inr (ConnectedDisk_new g url), g) })
    = map_option (map_prod (map_sum id erase_disk) erase) (do { (r, g) \<leftarrow> launch (traced lib) g; let (messages, g) = retrieve_appliance_stderr g;
      case r of Inl _ \<Rightarrow> Some (Inl (launch_error url [] messages), g) | Inr _ \<Rightarrow> Some (Inr (ConnectedDisk_new g url), g) })" for g
    unfolding method_traced(2)
    by (cases "launch (traced lib) g")
      (auto simp: retrieve_appliance_stderr_def ConnectedDisk_new_def erase_disk_def Let_def split: sum.splits)
  from Some show ?thesis
    unfolding attach_nbd_disk_def GuestFS_new_traced [of lib] disable_appliance_log_color_def add_stub_disk_def
    by (simp del: Let_def)
      (intro drop_on_error_traced and_then_traced method_traced add_disk_traced dev last [unfolded Let_def])
qed (simp add: attach_nbd_disk_def GuestFS_new_traced [of lib])

lemma ConnectedDisk_list_partitions_traced:
  "ConnectedDisk_list_partitions lib (erase_disk d) = map_option (map_prod id erase_disk) (ConnectedDisk_list_partitions (traced lib) d)"
  by (cases "list_partitions (traced lib) (cd_handle d)")
    (auto simp: ConnectedDisk_list_partitions_def erase_disk_def list_partitions_traced retrieve_appliance_stderr_def Let_def
      split: sum.splits)

lemma NBDConfig_connect_traced:
  "NBDConfig_connect dbg lib config
    = map_option (map_prod (map_sum id erase_root) (map_option erase)) (NBDConfig_connect dbg (traced lib) config)"
  unfolding NBDConfig_connect_def attach_nbd_disk_traced [of lib]
  by (auto simp: ConnectedDisk_list_partitions_traced mount_all_traced GuestFS_drop_traced erase_root_def RemoteRoot_new_def
      split: bind_splits sum.splits)

section \<open>Connecting a disk\<close>

definition attach_calls :: "rstr \<Rightarrow> guestfs_call list" where
  "attach_calls url =
    [CallSetAppend (str ''SYSTEMD_COLORS=0''), CallAddDrive (str ''/dev/null'') True,
     CallConfig (str ''-device'') (str ''scsi-hd,drive=nbd0''), CallConfig (str ''-drive'') (nbd_drive_option url), CallLaunch]"

definition mount_calls :: "rstr list \<Rightarrow> Mount list \<Rightarrow> guestfs_call list" where
  "mount_calls devices ms = map (\<lambda>m. CallMountRo (devices ! (mount_partition m - 1)) (mountpoint m)) ms"

lemma attach_nbd_disk_calls:
  assumes "attach_nbd_disk (traced lib) url = Some (r, g)"
  shows "case r of
      Inr disk \<Rightarrow> calls (cd_handle disk) = attach_calls url \<and> cd_url disk = url
    | Inl _ \<Rightarrow> \<exists>cs. calls g = cs @ [CallClose] \<and> prefix cs (attach_calls url)"
  using assms
  by (auto simp: attach_nbd_disk_def and_then_def disable_appliance_log_color_def add_stub_disk_def add_nbd_device_read_only_def
      retrieve_appliance_stderr_def attach_calls_def ConnectedDisk_new_def GuestFS_drop_calls Let_def
      split: bind_splits sum.splits dest!: GuestFS_new_calls method_calls add_disk_calls)

lemma mount_suitable_calls:
  assumes "mount_suitable dbg (traced lib) g m parts = Some (r, g')" "length parts < usize_modulus"
  shows "(calls g' = calls g \<and> r \<noteq> Inr ()) \<or>
    (calls g' = calls g @ mount_calls (map device parts) [m] \<and> 1 \<le> mount_partition m \<and> mount_partition m \<le> length parts)"
  using assms
  by (auto simp: mount_suitable_def partition_index_def Partition_mount_ro_def mount_calls_def
      split: if_splits bind_splits sum.splits dest!: method_calls)

lemma mount_all_calls:
  "mount_all dbg (traced lib) g ms parts = Some (r, g') \<Longrightarrow> length parts < usize_modulus \<Longrightarrow>
    \<exists>done. prefix done ms \<and> calls g' = calls g @ mount_calls (map device parts) done
    \<and> (r = Inr () \<longrightarrow> done = ms \<and> list_all (\<lambda>m. 1 \<le> mount_partition m \<and> mount_partition m \<le> length parts) ms)"
proof (induction ms arbitrary: g)
  case (Cons m ms)
  then obtain r1 g1 where m: "mount_suitable dbg (traced lib) g m parts = Some (r1, g1)"
    by (auto simp: and_then_def split: bind_splits)
  note one = mount_suitable_calls [OF m Cons.prems(2)]
  show ?case
  proof (cases r1)
    case (Inl e)
    with Cons.prems(1) m have "r = Inl e" "g' = g1" by (auto simp: and_then_def)
    with one show ?thesis by (auto intro: exI [of _ "[]"] exI [of _ "[m]"] simp: mount_calls_def)
  next
    case (Inr u)
    with Cons.prems(1) m have "mount_all dbg (traced lib) g1 ms parts = Some (r, g')" by (simp add: and_then_def)
    from Cons.IH [OF this Cons.prems(2)] one Inr show ?thesis
      by (auto simp: mount_calls_def intro: exI [of _ "m # _"])
  qed
qed (simp add: mount_calls_def)

text \<open>A connection that succeeds, and one that fails: the handle that a failed one leaves behind is closed, and nothing else was asked.\<close>

lemma connect_calls:
  assumes "NBDConfig_connect dbg (traced lib) config = Some (r, closed)"
  shows "case r of
      Inr root \<Rightarrow> closed = None \<and> (\<exists>devices.
        calls (cd_handle (rr_disk root)) = attach_calls (nbd_url config) @ CallListPartitions # mount_calls devices (mounts config)
        \<and> list_all (\<lambda>m. 1 \<le> mount_partition m \<and> mount_partition m \<le> length devices) (mounts config))
        \<and> chroot_path root = nbd_tftp_root config \<and> starts_with (nbd_url config) (str ''nbd://'')
    | Inl _ \<Rightarrow> (case closed of
        None \<Rightarrow> \<not> starts_with (nbd_url config) (str ''nbd://'')
      | Some g \<Rightarrow> \<exists>devices cs. calls g = cs @ [CallClose]
          \<and> prefix cs (attach_calls (nbd_url config) @ CallListPartitions # mount_calls devices (mounts config)))"
proof (cases "starts_with (nbd_url config) (str ''nbd://'')")
  case url: True
  obtain r1 g1 where a: "attach_nbd_disk (traced lib) (nbd_url config) = Some (r1, g1)"
    using assms url by (auto simp: NBDConfig_connect_def split: bind_splits)
  note attached = attach_nbd_disk_calls [OF a]
  show ?thesis
  proof (cases r1)
    case (Inl e)
    with assms url a attached show ?thesis by (auto simp: NBDConfig_connect_def intro: prefix_append)
  next
    case (Inr disk0)
    with assms url a obtain r2 disk where l: "ConnectedDisk_list_partitions (traced lib) disk0 = Some (r2, disk)"
      by (auto simp: NBDConfig_connect_def split: bind_splits)
    then have listed: "calls (cd_handle disk) = attach_calls (nbd_url config) @ [CallListPartitions]"
      "\<And>parts. r2 = Inr parts \<Longrightarrow> length parts \<le> 100"
      using attached Inr
      by (auto simp: ConnectedDisk_list_partitions_def retrieve_appliance_stderr_def Let_def
          split: bind_splits sum.splits dest!: list_partitions_calls)
    show ?thesis
    proof (cases r2)
      case (Inl e)
      with assms url a Inr l listed(1) show ?thesis
        by (auto simp: NBDConfig_connect_def GuestFS_drop_calls intro!: exI [of _ "attach_calls _ @ [CallListPartitions]"])
    next
      case parts: (Inr parts)
      with assms url a Inr l obtain r3 g where m: "mount_all dbg (traced lib) (cd_handle disk) (mounts config) parts = Some (r3, g)"
        by (auto simp: NBDConfig_connect_def split: bind_splits)
      have "length parts < usize_modulus" using listed(2) [OF parts] by (simp add: usize_modulus_def)
      define devices where "devices = map device parts"
      from mount_all_calls [OF m \<open>length parts < usize_modulus\<close>] obtain ms where ms: "prefix ms (mounts config)"
        "calls g = calls (cd_handle disk) @ mount_calls devices ms"
        "r3 = Inr () \<Longrightarrow> ms = mounts config
          \<and> list_all (\<lambda>m. 1 \<le> mount_partition m \<and> mount_partition m \<le> length devices) (mounts config)"
        by (auto simp: devices_def)
      have "prefix (mount_calls devices ms) (mount_calls devices (mounts config))"
        unfolding mount_calls_def using ms(1) by (rule map_mono_prefix)
      with assms url a Inr l listed(1) parts m ms(2,3) show ?thesis
        by (cases r3) (auto simp: NBDConfig_connect_def GuestFS_drop_calls RemoteRoot_new_def)
    qed
  qed
qed (use assms in \<open>auto simp: NBDConfig_connect_def\<close>)

section \<open>Why a launch failed\<close>

text \<open>Why a launch failed: the first message of the appliance that is recognised decides, and without one all messages are reported.\<close>

definition refused_message :: "rstr \<Rightarrow> bool" where
  "refused_message m \<longleftrightarrow> contains m (str ''Failed to connect to'') \<and> contains m (str ''Connection refused'')"

definition missing_export_message :: "rstr \<Rightarrow> bool" where
  "missing_export_message m \<longleftrightarrow> contains m (str ''server reported: export '') \<and> contains m (str ''not present'')"

lemma launch_error_skips:
  "list_all (\<lambda>m. \<not> refused_message m \<and> \<not> missing_export_message m) skipped \<Longrightarrow>
    launch_error url acc (skipped @ errors) = launch_error url (acc @ skipped) errors"
  by (induction skipped arbitrary: acc) (auto simp: refused_message_def missing_export_message_def)

lemma launch_error_unrecognised:
  assumes "list_all (\<lambda>m. \<not> refused_message m \<and> \<not> missing_export_message m) errors"
  shows "launch_error url [] errors = Generic (join_with [10] errors)"
  using launch_error_skips [OF assms, of url "[]" "[]"] by simp

lemma launch_error_recognised:
  assumes "list_all (\<lambda>m. \<not> refused_message m \<and> \<not> missing_export_message m) skipped"
    and "refused_message m \<or> missing_export_message m"
  shows "launch_error url [] (skipped @ m # errors)
    = (if refused_message m then ConnectionRefused url else ShareNotFound (str ''Share is not found on server: '' @ url))"
  using launch_error_skips [OF assms(1), of url "[]" "m # errors"] assms(2)
  by (auto simp: refused_message_def missing_export_message_def)

end
