(* ===== verification/Unit_Tests.thy ===== *)
theory Unit_Tests
  imports Example_Setting Download_Client
begin

text \<open>
  The unit tests of the repository, restated over the model: every assertion of the tests of \<open>cursor\<close>, \<open>options\<close>, \<open>messages\<close> and
  \<open>async_channel\<close>, those of \<open>local_fs\<close> and \<open>guestfs\<close> that do not depend on the machine, and the helpers of \<open>src/tests_common.rs\<close> that
  read a file through its reader. They check the model against the behaviour that the authors wrote down.
\<close>

section \<open>Cursors\<close>

lemma test_extract_ushort: "fst (extract_ushort (ReadCursor_new [0x00, 0x0A, 0x00, 0x00, 0x00, 0xab, 0xcd, 0xef])) = Inr 0x0A"
  by code_simp

lemma test_extract_ushort_not_enough_data:
  "map_sum kind id (fst (extract_ushort (snd (extract_ushort (ReadCursor_new [0x00, 0x0A, 0xFF]))))) = Inl UnexpectedEof"
  by code_simp

lemma test_extract_string:
  "fst (extract_string (ReadCursor_new (str ''Arbitrary_string'' @ [0, 0x0A]))) = Inr (str ''Arbitrary_string'')"
  by code_simp

lemma test_extract_string_not_enough_data:
  "map_sum kind id (fst (extract_string (snd (extract_string (ReadCursor_new (str ''Arbitrary_string'' @ [0])))))) = Inl UnexpectedEof"
  by code_simp

lemma test_extract_string_non_utf:
  "map_sum kind id (fst (extract_string (ReadCursor_new (str ''Arbitrary_'' @ [0xFF] @ str ''string'' @ [0, 0x0A])))) = Inl InvalidData"
  by code_simp

lemma test_extract_non_terminated_string:
  "map_sum kind id (fst (extract_string (ReadCursor_new (str ''Arbitrary_string'')))) = Inl InvalidData"
  by code_simp

section \<open>Options and requests\<close>

lemma test_find_block_size:
  "map_option (\<lambda>b. (block_size b, Blksize_as_key_pair b)) (Blksize_find_in [BLKSIZE \<mapsto> str ''1468'']) = Some (1468, (BLKSIZE, str ''1468''))"
  by (simp add: parse_usize_def str_def is_digit_def usize_modulus_def usize_to_string.simps digit_byte_def
      Blksize_find_in_def Blksize_as_key_pair_def BLOCK_SIZE_BOTTOM_CAP_def BLOCK_SIZE_UPPER_CAP_def)

lemma test_find_tsize: "TSize_is_requested [TSIZE \<mapsto> str ''0'']"
  by code_simp

lemma test_find_timeout: "map_option timeout (AckTimeout_find_in [TIMEOUT \<mapsto> str ''10'']) = Some 10"
  by (simp add: parse_usize_def str_def is_digit_def usize_modulus_def usize_to_string.simps digit_byte_def
      AckTimeout_find_in_def ACK_TIMEOUT_BOTTOM_CAP_def ACK_TIMEOUT_UPPER_CAP_def)

lemma test_caps:
  "AckTimeout_find_in [TIMEOUT \<mapsto> usize_to_string (ACK_TIMEOUT_UPPER_CAP + 1)] = None"
  "AckTimeout_find_in [TIMEOUT \<mapsto> usize_to_string (ACK_TIMEOUT_BOTTOM_CAP - 1)] = None"
  "Blksize_find_in [BLKSIZE \<mapsto> usize_to_string (BLOCK_SIZE_BOTTOM_CAP - 1)] = None"
  "Blksize_find_in [BLKSIZE \<mapsto> usize_to_string (BLOCK_SIZE_UPPER_CAP + 1)] = None"
  "WindowSize_find_in [WINDOW_SIZE \<mapsto> usize_to_string (WINDOW_SIZE_BOTTOM_CAP - 1)] = None"
  "WindowSize_find_in [WINDOW_SIZE \<mapsto> usize_to_string (WINDOW_SIZE_UPPER_CAP + 1)] = None"
  by (simp_all add: AckTimeout_find_in_def Blksize_find_in_def WindowSize_find_in_def parse_usize_to_string usize_modulus_def
      ACK_TIMEOUT_BOTTOM_CAP_def ACK_TIMEOUT_UPPER_CAP_def BLOCK_SIZE_BOTTOM_CAP_def BLOCK_SIZE_UPPER_CAP_def
      WINDOW_SIZE_BOTTOM_CAP_def WINDOW_SIZE_UPPER_CAP_def)

lemma test_window_size: "WindowSize_find_in [WINDOW_SIZE \<mapsto> str ''10''] \<noteq> None"
  by (simp add: parse_usize_def str_def is_digit_def usize_modulus_def usize_to_string.simps digit_byte_def
      WindowSize_find_in_def WINDOW_SIZE_BOTTOM_CAP_def WINDOW_SIZE_UPPER_CAP_def)

lemma test_parse_rrq: "\<not> isl (ReadRequest_parse (be_bytes RRQ @ str ''irrelevant.file'' @ [0] @ OCTET @ [0]))"
  by code_simp

lemma test_parse_incomplete_rrq:
  "case ReadRequest_parse (be_bytes RRQ @ str ''irrelevant.file'' @ [0]) of
     Inl e \<Rightarrow> contains (TFTPError_display e) (str ''Bad format'') | Inr _ \<Rightarrow> False"
  by code_simp

lemma test_parse_empty_rrq:
  "case ReadRequest_parse [] of Inl e \<Rightarrow> contains (TFTPError_display e) (str ''Bad format'') | Inr _ \<Rightarrow> False"
  by code_simp

section \<open>The queue\<close>

lemma test_queue:
  fixes a b c :: nat
  shows "let q = TX_push (TX_push (TX_push async_channel_new a) b) c;
         (r1, q) = Future_poll t q; (r2, q) = Future_poll t q; (r3, q) = Future_poll t q
     in r1 = Ready a \<and> r2 = Ready b \<and> r3 = Ready c"
  by (simp add: TX_push_def SharedQueue_push_def async_channel_new_def SharedQueue_new_def Future_poll_def pop_nowait_def)

lemma test_queue_wait:
  fixes a :: nat
  shows "let (r1, q) = Future_poll t async_channel_new; q = TX_push q a; (r2, q) = Future_poll t q
     in r1 = Pending \<and> woken q = [t] \<and> r2 = Ready a"
  by (simp add: TX_push_def SharedQueue_push_def async_channel_new_def SharedQueue_new_def Future_poll_def pop_nowait_def register_waker_def)

section \<open>Files\<close>

lemma test_open_non_existent:
  assumes "open_file (str ''/nonexistent/nonexistent.file'') = Inl (io_kind NotFound)"
  shows "map_sum kind id (LocalRoot_open open_file (LocalRoot_new (str ''/nonexistent'')) (str ''nonexistent.file'')) = Inl NotFound"
proof -
  have "path_join (str ''/nonexistent'') (trim_start_matches slash (str ''nonexistent.file'')) = str ''/nonexistent/nonexistent.file''"
    by code_simp
  with assms show ?thesis by (simp add: LocalRoot_open_is_os_open LocalRoot_new_def io_kind_def)
qed

lemma test_read_leading_slash: "LocalRoot_open open_file root (str ''/Cargo.toml'') = LocalRoot_open open_file root (str ''Cargo.toml'')"
proof -
  have "trim_start_matches slash (str ''/Cargo.toml'') = trim_start_matches slash (str ''Cargo.toml'')" by code_simp
  then show ?thesis by (simp add: LocalRoot_open_is_os_open)
qed

lemma test_add_non_existing_disk:
  assumes "guestfs_add_drive_opts lib (str ''/nonexisting.qcow2'') True (gfs_handle g) = (-1, msgs, h)"
    and "guestfs_last_error lib h = Some m" "utf8_valid m" "contains m (str ''No such file or directory'')"
  shows "\<exists>g'. add_disk lib g (str ''/nonexisting.qcow2'') True = Some (Inl (DiskNotFound m), g')"
proof -
  have "0 \<notin> set (str ''/nonexisting.qcow2'')" by code_simp
  with assms show ?thesis by (simp add: add_disk_def CString_def foreign_call_def get_last_error_def)
qed

section \<open>Reading a whole file\<close>

definition DATA_PATTERN :: rstr where "DATA_PATTERN = str ''ARBITRARY DATA''"

definition make_payload :: "usize \<Rightarrow> bytes" where
  "make_payload sz = map (\<lambda>i. DATA_PATTERN ! (i mod length DATA_PATTERN)) [0..<sz]"

text \<open>The loop of \<open>read_file\<close>; \<open>None\<close> is a failed \<open>unwrap\<close>, or a loop that does not end.\<close>

partial_function (option) read_file_loop :: "'f read_to \<Rightarrow> 'f \<Rightarrow> bytes \<Rightarrow> bytes \<Rightarrow> (bytes \<times> 'f) option" where
  "read_file_loop read_to opened buf chk =
    (case read_to opened chk of
       None \<Rightarrow> None
     | Some (r, opened, chk) \<Rightarrow>
        (case r of
           Inl _ \<Rightarrow> None
         | Inr read_size \<Rightarrow>
             if read_size = 0 then Some (buf, opened)
             else read_file_loop read_to opened (buf @ take read_size chk) chk))"

definition read_file :: "'h libguestfs \<Rightarrow> 'h FileReader \<Rightarrow> (bytes \<times> 'h FileReader) option" where
  "read_file lib opened = read_file_loop (FileReader_read_to lib) opened [] (replicate 512 0)"

context opened_file begin

lemma read_file_loop_reads_the_rest:
  assumes "healthy f" "0 < length chk"
  shows "\<exists>f'. read_file_loop read_to f buf chk = Some (buf @ rest f, f') \<and> healthy f' \<and> rest f' = []"
  using assms
proof (induction "length (rest f)" arbitrary: f buf chk rule: less_induct)
  case less
  define n where "n = min (length chk) (length (rest f))"
  obtain f1 where f1: "read_to f chk = Some (Inr n, f1, take n (rest f) @ drop n chk)" "healthy f1" "rest f1 = drop n (rest f)"
    using read_to_delivers [OF less.prems(1) n_def] by blast
  show ?case
  proof (cases "n = 0")
    case True
    with less.prems(2) have "rest f = []" by (auto simp: n_def min_def split: if_splits)
    with True f1 show ?thesis by (subst read_file_loop.simps) simp
  next
    case False
    let ?chk = "take n (rest f) @ drop n chk"
    have "length (rest f1) < length (rest f)" "0 < length ?chk" using False f1(3) less.prems(2) by (auto simp: n_def)
    from less.hyps [OF this(1) f1(2) this(2), of "buf @ take n (rest f)"] obtain f' where
      "read_file_loop read_to f1 (buf @ take n (rest f)) ?chk = Some (buf @ take n (rest f) @ rest f1, f')" "healthy f'" "rest f' = []"
      by auto
    moreover have "read_file_loop read_to f buf chk = read_file_loop read_to f1 (buf @ take n ?chk) ?chk"
      using False f1(1) by (subst read_file_loop.simps) simp
    moreover have "take n ?chk = take n (rest f)" by (simp add: n_def)
    moreover have "take n (rest f) @ rest f1 = rest f" using f1(3) by simp
    ultimately show ?thesis by (simp only:) blast
  qed
qed

end

text \<open>Reading in steps of 512 bytes until a read returns nothing gives the file.\<close>

lemma read_file_returns_the_file:
  assumes "remote_healthy lib data f" "remote_fresh f"
  shows "\<exists>f'. read_file lib f = Some (data, f')"
  using remote_file.read_file_loop_reads_the_rest [OF assms(1), of "replicate 512 0" "[]"] assms(2)
  by (auto simp: read_file_def remote_rest_def remote_fresh_def)

lemma test_read_payload: "\<exists>f'. read_file (memory_disk (make_payload 30)) (sample_reader (make_payload 30)) = Some (make_payload 30, f')"
proof (rule read_file_returns_the_file)
  show "remote_healthy (memory_disk (make_payload 30)) (make_payload 30) (sample_reader (make_payload 30))"
    by (rule sample_reader_healthy) (simp add: make_payload_def)
qed (rule sample_reader_healthy)

text \<open>The tests \<open>send_aligned_data\<close>, \<open>send_unaligned_data\<close> and their windowed variants, for every content: blocks of 100 bytes and
  windows of one and of five blocks.\<close>

lemma test_send_data:
  assumes "wsize = 1 \<or> wsize = 5" "length data < 6553500"
  shows "\<exists>acks x d. send_file dbg VirtualOpenedFile_read_to (VirtualOpenedFile_new data)
        (DatagramStream_new (map (Arrives client) acks) [] client) (Window_new 100 wsize) AckTimeout_default (replicate 1024 0)
      = Some (Inr (length data, 0), x)
    \<and> download_stream err_text (DatagramStream_new (map (Arrives server) (outbox (xf_stream x))) [] server) 100 wsize = Some (Inr data, d)
    \<and> outbox (dl_stream d) = acks \<and> inbox (xf_stream x) = [] \<and> inbox (dl_stream d) = []"
proof -
  have w: "0 < unat (100 :: u16)" "0 < unat wsize" using assms(1) by auto
  have f: "virtual_healthy (VirtualOpenedFile_new data)" "virtual_rest (VirtualOpenedFile_new data) = data"
    by (simp_all add: VirtualOpenedFile_new_def virtual_healthy_def virtual_rest_def)
  have "block_count data 100 < 65536" using assms(2) by (simp add: block_count_def)
  then show ?thesis
    using virtual_file.joined_download [OF f(1) w, of "DatagramStream_new [] [] client" "replicate 1024 0" "DatagramStream_new [] [] server"
        dbg AckTimeout_default err_text] f(2)
    by (simp add: DatagramStream_new_def)
qed

end
