(* ===== verification/Spec2Isabelle.thy ===== *)
theory Spec2Isabelle
  imports Shared_Sessions Departures Whole_Downloads Nbd_Calls Unit_Tests
begin

text \<open>
  \<^bold>\<open>rtftp, a read-only TFTP server: model and properties.\<close>

  \<^bold>\<open>The program.\<close> \<open>main.rs\<close> binds a UDP socket and runs \<open>TFTPServer\<close> (\<open>server.rs\<close>). The server parses
  every datagram as a read request (\<open>messages\<close>, over the cursors of \<open>cursor\<close>) and feeds it to the
  handler thread of the sender's address (\<open>peer_handler\<close>); it also watches the TFTP root (\<open>fs_watch\<close>) and restarts a
  handler when the peer's configuration changes. A handler opens the requested file in the first root that has
  it: the peer's own directory, its NBD disk, the default directory (\<open>local_fs\<close>; \<open>nbd_disk\<close>, \<open>remote_fs\<close>
  and \<open>guestfs\<close>), and starts a session that negotiates options (\<open>options\<close>) and sends the file window by
  window over a socket of its own (\<open>datagram_stream\<close>).

  \<^bold>\<open>The theories\<close> (sources under \<open>src/src/\<close>):
  \<^item> \<open>Prelude\<close>: machine types, byte strings, decimal numbers, slices; the \<open>run\<close> type whose \<open>None\<close> is a panic.
  \<^item> \<open>Cursor\<close> (\<open>cursor/mod.rs\<close>), \<open>Tftp_Error\<close> (\<open>error.rs\<close>), \<open>Messages\<close> (\<open>messages/mod.rs\<close>),
    \<open>Tftp_Options\<close> (\<open>options/mod.rs\<close>): packets. The contract of a bounded option is the locale \<open>ranged_option\<close>.
  \<^item> \<open>Ip_Addr\<close>, \<open>Paths\<close>: what the sources use of \<open>std::net\<close> and \<open>std::path\<close>.
  \<^item> \<open>Datagram_Stream\<close> (\<open>datagram_stream.rs\<close>): a socket with its surroundings: the events that will happen at
    it, the results of its sends, the datagrams it accepted and the seconds waited.
  \<^item> \<open>Fs\<close> (\<open>fs.rs\<close>): the traits, with three contracts of an open file as locales: \<open>readable\<close> (a read keeps the caller's
    slice), \<open>opened_file\<close> (it delivers the bytes in order) and \<open>total_file\<close> (it does not panic).
    \<open>Local_Fs\<close> (\<open>local_fs/mod.rs\<close>) and \<open>Remote_Fs\<close> (\<open>remote_fs.rs\<close>) interpret them. \<open>Shared_Disk\<close>: the libguestfs handle that
    the readers of one disk share, as an explicit store, and the table of independent files it implements.
  \<^item> \<open>Guestfs\<close> (\<open>guestfs/mod.rs\<close>), \<open>Nbd_Disk\<close> (\<open>nbd_disk/mod.rs\<close>): the wrapper of libguestfs, which is a
    parameter, and the search for a peer's disk; \<open>Nbd_Calls\<close>: the calls that connecting a disk makes, by a library that records them.
  \<^item> \<open>Peer_Window\<close>, \<open>Peer_Transfer\<close>: the window, and the session's functions (\<open>peer_handler/mod.rs\<close>);
    \<open>Peer_Delivery\<close>, \<open>Peer_Session\<close>: what they deliver, proved in the locales and so for both kinds of file;
    \<open>Peer_Refinement\<close>: the abstract sender, the proof that \<open>send_file\<close> implements it, and the lossy network;
    \<open>Session_Errors\<close>: the sessions that fail; \<open>Peer_Traffic\<close>: how many datagrams and how much time a session can cost.
  \<^item> \<open>Download_Client\<close> (\<open>peer_handler/tests.rs\<close>): the client of the unit tests and its file in memory, joined with \<open>send_file\<close>;
    \<open>Unit_Tests\<close> (\<open>tests_common.rs\<close> and the \<open>tests.rs\<close> of the components): the repository's unit tests on the model, many of them for all inputs.
  \<^item> \<open>Integration_Client\<close> (\<open>tests/common/client.rs\<close>): the client of the integration tests, with its socket, the states of an exchange and its two
    downloads; \<open>Whole_Downloads\<close>: this client and the whole server together. What the server needs of a client is the locale \<open>downloader\<close>, which both
    downloads interpret.
  \<^item> \<open>Peer_Handler\<close>: scheduling and the handler's loop as a step relation, with its invariant and shutdown.
  \<^item> \<open>Async_Channel\<close>, \<open>Fs_Watch\<close> (\<open>fs_watch\<close>): the queue (locale \<open>fifo\<close>), the inotify records and the watch.
  \<^item> \<open>Server\<close> (\<open>server.rs\<close>, \<open>main.rs\<close>): start-up, and the server's loop as a step relation over the handlers; \<open>Server_Runs\<close>: its
    runs together with the handlers' threads: from a datagram to the end of its session (\<open>request_served\<close>), what becomes of running sessions, and
    to the end of the server.
  \<^item> \<open>Example_Setting\<close>: concrete surroundings for the examples; \<open>Session_Guarantees\<close>: the properties of one session; \<open>Shared_Sessions\<close>: those
    of sessions that use one disk at the same time;
    \<open>Departures\<close>: behaviour that is not what the code means to do; the properties of the other components and those that span
    components are in this theory.

  \<^bold>\<open>Conventions.\<close> \<open>u16\<close> counters are words and wrap as in the source; \<open>usize\<close> is \<open>nat\<close> where no wrap-around is
  possible, and the places where it is possible write it out. \<open>dbg\<close> tells a build with debug assertions and overflow checks
  from one without. Every loop is a terminating function: the transfer loop consumes an event of the socket with every
  acknowledgement, a guarded receive ends by its timer when no event is left, the reader of a remote file copies a byte in
  every second round. The loops of the test clients and of \<open>read_file\<close> are partial functions, which are shown to return. No fuel is used.

  \<^bold>\<open>What is shown.\<close> A session delivers the file (C1, C2), and so does the whole server for the datagram of a request, from a
  directory (C3) and from an NBD disk (C4); so does a session whose disk other sessions use (C5). The whole server and the client of the integration
  tests, each receiving what the other sends, both come to their end and the client has the file, block by block (C6) and by windows (C7), or the error that
  the roots gave (C8). A transfer implements an abstract sender that has no ring of buffers, no file position and no
  wrap-around (C9, C10), and readers of a shared handle implement independent files (C11). A transfer delivers through a lossy network (C12), sends
  nothing but blocks of the file (C13) and no more than a bound (C14), gives up on a silent peer (C15) and does not panic in a release
  build (C16, C17); what a failing session sends (C18, C19); the shape of the window (C20).
  Packets (C21 to C23), options (C24, C25) and the receive filter (C26); the life of handlers (C27 to C30), of which no running session is cut off,
  whatever the server does (C28), and which close their disks when idle (C30); the server, which can be stopped in every state (C31 to C34); roots and disks
  (C35 to C37); the watch from the kernel to the server (C38, C39). C40 and the other lemmas of \<open>Departures\<close> pin down behaviour that departs from what
  the code means to do: each states exactly what happens and under which conditions.

  \<^bold>\<open>Bounds.\<close> C1 to C7 hold for windows of one block and any file, and for larger windows and files of fewer than 65536
  blocks; C9, C10 and C12 for files of fewer than 65536 blocks. Beyond, block numbers wrap around, and \<open>acknowledgement_compared_without_wrap\<close> and
  \<open>window_slots_collide_at_the_wrap\<close> show what fails then.

  \<^bold>\<open>Not modelled.\<close> Diagnostic output on stderr after start-up; command line parsing (clap), JSON decoding (serde), the runtime, libguestfs, the
  kernel's file system and inotify, which are parameters; tokio's scheduler beyond the interleaving of the step
  relations; the unsafe pointer handling around libguestfs, whose C results are taken as values. In \<open>Remote_Fs\<close> and \<open>Peer_Handler\<close> each reader
  carries a copy of the state of the libguestfs handle; C5 and C11 show that sharing the handle makes no difference on a disk that does not
  change. Of the integration tests, the processes they start and the search for their ports; their client is modelled, and what they assert of downloads
  is proved in \<open>Whole_Downloads\<close>. Of the unit tests, the ones that need a real disk.
\<close>

section \<open>A request and its download\<close>

text \<open>
  \<^bold>\<open>C3.\<close> From the datagram of a read request to the file. A well-formed request of a peer without a handler arrives at the waiting
  server; the peer's roots can be opened, and the first of them that has the file is a local directory, with the file intact. Then the
  server, the new handler's thread and the session can take steps after which the session for the peer's port has finished, has sent to that
  port the acknowledgement of the accepted options and the blocks, and a receiver that keeps the blocks in order has the file; the server
  waits for the next request and has answered nothing itself (\<open>request_served\<close>). The network is that of C1.
\<close>

theorem request_is_served:
  assumes "activity s = Selecting" "length (srv_buffer s) = BUFFER_SIZE" "peer_handlers s ip = None"
    and "wf_str name" "wf_options opts" "length (rrq_packet name opts) \<le> BUFFER_SIZE"
    and "request = \<lparr>filename = name, options = map_of (rev opts)\<rparr>"
    and "initial_roots dbg host (root_dir s) ip = Some (before @ LocalKind root # others)" "list_all (refuses host request) before"
    and "open_in request (LocalRoot_open (os_open host) root) = Inr f" "0 < hash_capacity host MAX_SESSIONS_PER_IP"
    and "local_healthy f" "local_fresh f" "data = contents (rd f)" "length data < usize_modulus"
    and "negotiated_oack LocalOpenedFile_get_size f (map_of (rev opts)) = (oack, t, b, ws, f')"
    and "N = block_count data (Blksize_get_size b)" "WindowSize_get_size ws = 1 \<or> N < 65536"
    and "if has_options oack then answers (ip, port) 65535 0 0 hello else hello = []"
    and "delivers (ip, port) 65535 (WindowSize_get_size ws) N 0 rounds"
  shows "\<exists>s' session blocks.
    request_served dbg host task s (rrq_packet name opts) (ip, port) (hello @ concat (map snd rounds)) s' session
    \<and> outbox (s_stream session) = (if has_options oack then [oack_packet (oack_options oack)] else []) @ blocks
    \<and> receive 1 blocks = data"
proof -
  let ?st = "DatagramStream_new (hello @ concat (map snd rounds)) [] (ip, port)"
  have st: "peer_address ?st = (ip, port)" "outbox ?st = []" "inbox ?st = hello @ concat (map snd rounds) @ []" "send_results ?st = []"
    by (simp_all add: DatagramStream_new_def)
  have net: "if has_options oack then answers (peer_address ?st) 65535 0 0 hello else hello = []"
    "delivers (peer_address ?st) 65535 (WindowSize_get_size ws) N 0 rounds"
    unfolding st(1) by (rule assms(19,20))+
  obtain st' blocks where "send dbg LocalOpenedFile_read_to LocalOpenedFile_get_size f ?st (map_of (rev opts)) (replicate 65535 0) = Some st'"
    and out: "outbox st' = outbox ?st @ (if has_options oack then [oack_packet (oack_options oack)] else []) @ blocks"
    and data: "receive 1 blocks = data"
    using local_send_delivers [OF assms(12-18) net st(3,4), of dbg] by blast
  then have run: "run_task dbg host (SendLocal f (map_of (rev opts))) ?st (replicate 65535 0) = Some st'" by (simp add: run_task_def)
  have "open_root host request (LocalKind root) = Some (Inr (SendLocal f (map_of (rev opts))), LocalKind root)"
    using assms(7,10) by (simp add: yield_options_def)
  from request_runs_its_task [OF assms(1-8) schedule_task_first [OF assms(9) this] assms(11) run, of task] out data st(2)
  show ?thesis by fastforce
qed

theorem request_is_served_witness:
  "\<exists>s' session blocks. request_served False (bare_host (\<lambda>p. if p = str ''/srv/10.0.0.1/k''
        then Inr (rd (sample_file [1, 2, 3] [])) else Inl (io_kind NotFound))) 0 (TFTPServer_new (V4 10 0 0 2, 69) (str ''/srv'') 1 0)
      (rrq_packet (str ''k'') [(BLKSIZE, str ''8'')]) (V4 10 0 0 1, 2000)
      [Arrives (V4 10 0 0 1, 2000) (ack_packet 0), Arrives (V4 10 0 0 1, 2000) (ack_packet 1)] s' session
    \<and> outbox (s_stream session) = [oack_packet [(BLKSIZE, str ''8'')]] @ blocks \<and> receive 1 blocks = [1, 2, 3]"
proof -
  let ?files = "\<lambda>p. if p = str ''/srv/10.0.0.1/k'' then Inr (rd (sample_file [1, 2, 3] [])) else Inl (io_kind NotFound)"
  let ?s = "TFTPServer_new (V4 10 0 0 2, 69) (str ''/srv'') 1 0 :: unit TFTPServer" and ?opts = "[(BLKSIZE, str ''8'')]"
  let ?f = "\<lparr>rd = rd (sample_file [1, 2, 3] []), lf_display = str ''/srv/10.0.0.1/k''\<rparr>"
  let ?root = "LocalRoot_new (str ''/srv/10.0.0.1'')" and ?rq = "\<lparr>filename = str ''k'', options = map_of (rev ?opts)\<rparr>"
  have "path_join (str ''/srv'') (IpAddr_to_string (V4 10 0 0 1)) = str ''/srv/10.0.0.1''"
    by (simp add: path_join_def has_root_def ipv4_string_def usize_to_string.simps digit_byte_def str_def dot_def slash_def)
  then have roots: "initial_roots False (bare_host ?files) (root_dir ?s) (V4 10 0 0 1)
      = Some ([] @ LocalKind ?root # [LocalKind (LocalRoot_new (path_join (str ''/srv'') (str ''default'')))])"
    unfolding new_server(4) by (simp add: bare_host_roots)
  have op: "list_all (refuses (bare_host ?files) ?rq) []" "open_in ?rq (LocalRoot_open (os_open (bare_host ?files)) ?root) = Inr ?f"
    "0 < hash_capacity (bare_host ?files) MAX_SESSIONS_PER_IP"
    by (simp_all add: open_in_def LocalRoot_open_is_os_open LocalRoot_new_def bare_host_def memory_host_def MAX_SESSIONS_PER_IP_def
        str_def trim_start_matches_def slash_def path_join_def has_root_def)
  have f: "local_healthy ?f" "local_fresh ?f" "[1, 2, 3] = contents (rd ?f)" "length [1 :: byte, 2, 3] < usize_modulus"
    by (simp_all add: sample_file_def local_healthy_def local_fresh_def usize_modulus_def)
  have o: "negotiated_oack LocalOpenedFile_get_size ?f (map_of (rev ?opts))
      = (\<lparr>oack_options = ?opts\<rparr>, \<lparr>timeout = 5\<rparr>, \<lparr>block_size = 8\<rparr>, WindowSize 1, ?f)"
    using blksize_only [of LocalOpenedFile_get_size ?f] by simp
  from sample_network(5) request_is_served [OF new_server(1-3) sample_request refl roots op f o sample_network(1-4), of 0]
  show ?thesis by simp
qed

text \<open>
  \<^bold>\<open>C4.\<close> The same when the first root that has the file is the peer's NBD disk: the library reports the size of the file and serves its
  contents as documented, in chunks of any size. The session has opened the file on the disk, and the receiver has the file.
\<close>

theorem remote_request_is_served:
  assumes "activity s = Selecting" "length (srv_buffer s) = BUFFER_SIZE" "peer_handlers s ip = None"
    and "wf_str name" "wf_options opts" "length (rrq_packet name opts) \<le> BUFFER_SIZE"
    and "request = \<lparr>filename = name, options = map_of (rev opts)\<rparr>"
    and "initial_roots dbg host (root_dir s) ip = Some (before @ RemoteKind root # others)" "list_all (refuses host request) before"
    and "path = path_join (chroot_path root) (trim_start_matches slash name)" "0 \<notin> set path"
    and "guestfs_stat_of (guestfs_lib host) path (gfs_handle (cd_handle (rr_disk root))) = (Some info, msgs, h1)"
    and "unat (st_size info) = length data" "length data < usize_modulus"
    and "guestfs_pread (guestfs_lib host) path CHUNK_SIZE 0 h1 = (Some (take n data), msgs2, h2)"
    and "serves (guestfs_lib host) path data h2" "0 < hash_capacity host MAX_SESSIONS_PER_IP"
    and "negotiated_oack (\<lambda>u. (Inr (length data), u)) () (map_of (rev opts)) = (oack, t, b, ws, ())"
    and "N = block_count data (Blksize_get_size b)" "WindowSize_get_size ws = 1 \<or> N < 65536"
    and "if has_options oack then answers (ip, port) 65535 0 0 hello else hello = []"
    and "delivers (ip, port) 65535 (WindowSize_get_size ws) N 0 rounds"
  shows "\<exists>s' session blocks.
    request_served dbg host task s (rrq_packet name opts) (ip, port) (hello @ concat (map snd rounds)) s' session
    \<and> outbox (s_stream session) = (if has_options oack then [oack_packet (oack_options oack)] else []) @ blocks
    \<and> receive 1 blocks = data"
proof -
  let ?st = "DatagramStream_new (hello @ concat (map snd rounds)) [] (ip, port)" and ?lib = "guestfs_lib host"
  have st: "peer_address ?st = (ip, port)" "outbox ?st = []" "inbox ?st = hello @ concat (map snd rounds) @ []" "send_results ?st = []"
    by (simp_all add: DatagramStream_new_def)
  have net: "if has_options oack then answers (peer_address ?st) 65535 0 0 hello else hello = []"
    "delivers (peer_address ?st) 65535 (WindowSize_get_size ws) N 0 rounds"
    unfolding st(1) by (rule assms(21,22))+
  obtain f d' where f: "ConnectedDisk_open ?lib (rr_disk root) path = Some (Inr f, d')" "remote_healthy ?lib data f" "remote_fresh f"
    using ConnectedDisk_open_served [OF assms(12,13,15,16,11)] by blast
  then have "open_root host request (RemoteKind root)
      = Some (Inr (SendRemote f (map_of (rev opts))), RemoteKind (root\<lparr>rr_disk := d'\<rparr>))"
    using assms(7,10) by (simp add: open_in_def RemoteRoot_open_def yield_options_def)
  note opened = this
  have "FileReader_get_size f = (Inr (length data), f)" using f(2) by (simp add: FileReader_get_size_def remote_healthy_def)
  note neg = negotiated_for_size [where get_size = FileReader_get_size, OF assms(18) this]
  obtain st' blocks where "send dbg (FileReader_read_to ?lib) FileReader_get_size f ?st (map_of (rev opts)) (replicate 65535 0) = Some st'"
    and out: "outbox st' = outbox ?st @ (if has_options oack then [oack_packet (oack_options oack)] else []) @ blocks"
    and data: "receive 1 blocks = data"
    using remote_send_delivers [OF f(2,3) assms(14) neg assms(19,20) net st(3,4), of dbg] by blast
  then have "run_task dbg host (SendRemote f (map_of (rev opts))) ?st (replicate 65535 0) = Some st'" by (simp add: run_task_def)
  from request_runs_its_task [OF assms(1-8) schedule_task_first [OF assms(9) opened] assms(17) this, of task] out data st(2)
  show ?thesis by fastforce
qed

theorem remote_request_is_served_witness:
  "\<exists>s' session blocks. request_served False (memory_host (\<lambda>_. Inl (io_kind NotFound))) 0 (TFTPServer_new (V4 10 0 0 2, 69) (str ''/srv'') 1 0)
      (rrq_packet (str ''k'') [(BLKSIZE, str ''8'')]) (V4 10 0 0 1, 2000)
      [Arrives (V4 10 0 0 1, 2000) (ack_packet 0), Arrives (V4 10 0 0 1, 2000) (ack_packet 1)] s' session
    \<and> outbox (s_stream session) = [oack_packet [(BLKSIZE, str ''8'')]] @ blocks \<and> receive 1 blocks = [1, 2, 3]"
proof -
  let ?s = "TFTPServer_new (V4 10 0 0 2, 69) (str ''/srv'') 1 0 :: unit TFTPServer" and ?opts = "[(BLKSIZE, str ''8'')]"
  let ?root = "RemoteRoot_new (ConnectedDisk_new \<lparr>gfs_handle = (), events = []\<rparr> (str ''nbd://h/e'')) (str ''/boot'')"
  let ?rq = "\<lparr>filename = str ''k'', options = map_of (rev ?opts)\<rparr>" and ?lib = "guestfs_lib empty_host"
  let ?path = "path_join (chroot_path ?root) (trim_start_matches slash (str ''k''))"
  have roots: "initial_roots False empty_host (root_dir ?s) (V4 10 0 0 1) = Some ([LocalKind (LocalRoot_new (str ''/srv/10.0.0.1''))]
      @ RemoteKind ?root # [LocalKind (LocalRoot_new (str ''/srv/default''))])"
    unfolding new_server(4) memory_host_roots by simp
  have op: "list_all (refuses empty_host ?rq) [LocalKind (LocalRoot_new (str ''/srv/10.0.0.1''))]"
    by (simp add: refuses_def open_in_def LocalRoot_open_is_os_open memory_host_def io_kind_def Let_def)
  have lib: "0 \<notin> set ?path" "guestfs_stat_of ?lib ?path (gfs_handle (cd_handle (rr_disk ?root))) = (Some \<lparr>st_size = 3\<rparr>, [], ())"
    "unat (st_size \<lparr>st_size = 3\<rparr>) = length [1 :: byte, 2, 3]" "length [1 :: byte, 2, 3] < usize_modulus"
    "guestfs_pread ?lib ?path CHUNK_SIZE 0 () = (Some (take 3 [1, 2, 3]), [], ())"
    by (simp_all add: memory_host_def memory_disk_def RemoteRoot_new_def usize_modulus_def str_def path_join_def slash_def
        has_root_def trim_start_matches_def)
  have serves: "serves ?lib ?path [1, 2, 3] ()" "0 < hash_capacity empty_host MAX_SESSIONS_PER_IP"
    using memory_disk_serves [of "[1, 2, 3]" ?path] by (simp_all add: memory_host_def MAX_SESSIONS_PER_IP_def)
  have o: "negotiated_oack (\<lambda>u. (Inr (length [1 :: byte, 2, 3]), u)) () (map_of (rev ?opts))
      = (\<lparr>oack_options = ?opts\<rparr>, \<lparr>timeout = 5\<rparr>, \<lparr>block_size = 8\<rparr>, WindowSize 1, ())"
    using blksize_only [of "\<lambda>u. (Inr (length [1 :: byte, 2, 3]), u)" "()"] by simp
  from sample_network(5) remote_request_is_served [OF new_server(1-3) sample_request refl roots op refl lib serves o sample_network(1-4), of 0]
  show ?thesis by simp
qed

text \<open>
  The transfer and the client of the unit tests together. The client of the unit tests and the server's transfer are joined, the datagrams of each being
  what the other receives, in order. Both finish: the server has sent the file, the client returns it byte for byte, and nothing
  is left in flight. This holds for every file, block size and window for which C1 holds.
\<close>

lemma client_and_server_finish:
  assumes "local_healthy f" "0 < unat bsize" "0 < unat wsize" "wsize = 1 \<or> block_count (local_rest f) (unat bsize) < 65536"
    and "4 \<le> length buf"
  shows "\<exists>acks x d. send_file dbg LocalOpenedFile_read_to f (DatagramStream_new (map (Arrives client) acks) [] client)
        (Window_new bsize wsize) t buf = Some (Inr (length (local_rest f), 0), x)
    \<and> download_stream err_text (DatagramStream_new (map (Arrives server) (outbox (xf_stream x))) [] server) bsize wsize
        = Some (Inr (local_rest f), d)
    \<and> outbox (dl_stream d) = acks \<and> inbox (xf_stream x) = [] \<and> inbox (dl_stream d) = []"
  using local_file.joined_download [OF assms(1-4) _ _ assms(5), of "DatagramStream_new [] [] client" "DatagramStream_new [] [] server" dbg t err_text]
  by (simp add: DatagramStream_new_def)

lemma client_and_server_finish_witness:
  "\<exists>acks x d. send_file True LocalOpenedFile_read_to (sample_file [1, 2, 3, 4, 5, 6, 7, 8, 9] [])
        (DatagramStream_new (map (Arrives (V4 10 0 0 1, 2000)) acks) [] (V4 10 0 0 1, 2000)) (Window_new 4 2) \<lparr>timeout = 1\<rparr> [0, 0, 0, 0]
      = Some (Inr (length [1 :: byte, 2, 3, 4, 5, 6, 7, 8, 9], 0), x)
    \<and> download_stream detail (DatagramStream_new (map (Arrives (V4 10 0 0 2, 69)) (outbox (xf_stream x))) [] (V4 10 0 0 2, 69)) 4 2
      = Some (Inr [1, 2, 3, 4, 5, 6, 7, 8, 9], d)
    \<and> outbox (dl_stream d) = acks \<and> inbox (xf_stream x) = [] \<and> inbox (dl_stream d) = []"
proof -
  have "local_healthy (sample_file [1, 2, 3, 4, 5, 6, 7, 8, 9] [])" "local_rest (sample_file [1, 2, 3, 4, 5, 6, 7, 8, 9] []) = [1, 2, 3, 4, 5, 6, 7, 8, 9]"
    by (simp_all add: sample_file_def local_healthy_def local_rest_def)
  then show ?thesis
    using client_and_server_finish [of "sample_file [1, 2, 3, 4, 5, 6, 7, 8, 9] []" 4 2 "[0, 0, 0, 0]" True "(V4 10 0 0 1, 2000)" "\<lparr>timeout = 1\<rparr>"
        detail "(V4 10 0 0 2, 69)"]
    by (simp add: block_count_def)
qed

section \<open>Packets and options\<close>


text \<open>
  \<^bold>\<open>C22.\<close> \<open>TFTPError::serialize\<close> on every buffer. With room for more than the packet it writes the packet but for the
  terminator, which is whatever byte the buffer held at that place; in a buffer of exactly the packet's size it
  panics; in a smaller one it returns an error.
\<close>

theorem error_serialization:
  "if error_size e < length buf then
     \<exists>buf'. TFTPError_serialize e buf = Some (Inr (error_size e), buf') \<and> length buf' = length buf
       \<and> take (error_size e) buf' = butlast (error_packet e) @ [buf ! (error_size e - 1)]
   else if error_size e = length buf then TFTPError_serialize e buf = None
   else \<exists>err buf'. TFTPError_serialize e buf = Some (Inl err, buf') \<and> length buf' = length buf"
  using serialize_success [of e buf] serialize_panics [of buf e] serialize_too_small [of buf e] by simp

text \<open>
  \<^bold>\<open>C23.\<close> Into a zeroed buffer that is larger than the packet, \<open>OptionsAcknowledge::serialize\<close> writes exactly the packet, and
  reading the pairs back gives the options that were pushed.
\<close>

theorem options_acknowledge_roundtrip:
  assumes "has_options oack" "wf_options (oack_options oack)" "length (oack_packet (oack_options oack)) < n"
  shows "\<exists>size buf. OptionsAcknowledge_serialize oack (replicate n 0) = Some (Inr size, buf)
    \<and> take size buf = oack_packet (oack_options oack)
    \<and> parse_options \<lparr>datagram = take size buf, index = 2\<rparr> Map.empty = Inr (map_of (rev (oack_options oack)))"
  using OptionsAcknowledge_serialize_zeroed [of oack n] oack_packet_readable [OF assms(2)] assms(1,3)
  by (auto simp: has_options_def)

theorem options_acknowledge_roundtrip_witness:
  "\<exists>size buf. OptionsAcknowledge_serialize \<lparr>oack_options = [(str ''tsize'', str ''10''), (str ''blksize'', str ''8'')]\<rparr> (replicate 40 0)
      = Some (Inr size, buf)
    \<and> take size buf = oack_packet [(str ''tsize'', str ''10''), (str ''blksize'', str ''8'')]
    \<and> parse_options \<lparr>datagram = take size buf, index = 2\<rparr> Map.empty
        = Inr (map_of (rev [(str ''tsize'', str ''10''), (str ''blksize'', str ''8'')]))"
  using options_acknowledge_roundtrip [of "\<lparr>oack_options = [(str ''tsize'', str ''10''), (str ''blksize'', str ''8'')]\<rparr>" 40]
  by (simp add: has_options_def wf_options_def wf_str_def oack_packet_def str_def)

text \<open>
  \<^bold>\<open>C24.\<close> Every window that \<open>negotiate_options\<close> produces is well-formed: the block size is at least 8 and, like the window
  size, the value that was negotiated (the conversions to \<open>u16\<close> lose nothing); the timeout is between 1 and 255.
\<close>

theorem negotiated_window_is_sound:
  "case negotiate_options get_size st f buf opts of
     Some (Some (w, t), _) \<Rightarrow>
       window_wf w \<and> 8 \<le> unat (win_block_size w)
       \<and> unat (win_block_size w) = Blksize_get_size (or_default Blksize_default (Blksize_find_in opts))
       \<and> length (buffers w) = WindowSize_get_size (or_default WindowSize_default (WindowSize_find_in opts))
       \<and> 1 \<le> timeout t \<and> timeout t \<le> 255
   | _ \<Rightarrow> True"
proof -
  let ?w = "Window_new (of_nat (Blksize_get_size (or_default Blksize_default (Blksize_find_in opts))))
      (of_nat (WindowSize_get_size (or_default WindowSize_default (WindowSize_find_in opts))))"
  have "1 \<le> timeout (or_default AckTimeout_default (AckTimeout_find_in opts))"
    "timeout (or_default AckTimeout_default (AckTimeout_find_in opts)) \<le> 255"
    using ack_timeout.found_in_range [of opts]
    by (auto simp: or_default_def AckTimeout_default_def ACK_TIMEOUT_BOTTOM_CAP_def ACK_TIMEOUT_UPPER_CAP_def
        split: option.splits)
  moreover have "case negotiate_options get_size st f buf opts of
      Some (Some (w, t), _) \<Rightarrow> w = ?w \<and> t = or_default AckTimeout_default (AckTimeout_find_in opts) | _ \<Rightarrow> True"
    by (auto simp: negotiate_options_def negotiated_oack_eq Let_def split: option.splits bind_splits sum.splits if_splits)
  ultimately show ?thesis
    using negotiated_window [of ?w opts] negotiated_sizes [of opts]
    by (auto split: option.splits)
qed



section \<open>Handlers and the server\<close>

text \<open>
  \<^bold>\<open>C27.\<close> In every state a handler can reach, its sessions have different ports, each talks to its own port of the peer, the
  request channel holds at most ten requests, and a closed handler has no running session and no root left.
\<close>

theorem handler_sessions_invariant:
  assumes "handler_run dbg host h"
  shows "distinct (map fst (send_sessions h))
    \<and> list_all (\<lambda>(p, s). peer_address (s_stream s) = (sender_address h, p)) (send_sessions h)
    \<and> length (channel h) \<le> 10
    \<and> (phase h = Closed \<longrightarrow> list_all (\<lambda>(_, s). s_finished s) (send_sessions h) \<and> available_roots h = [])"
  using handler_inv_run [OF assms] by (auto simp: handler_inv_def list_all_iff REQUESTS_CHANNEL_SIZE_def)

theorem handler_sessions_invariant_witness:
  "distinct (map fst (send_sessions sample_run))
    \<and> list_all (\<lambda>(p, s). peer_address (s_stream s) = (sender_address sample_run, p)) (send_sessions sample_run)
    \<and> length (channel sample_run) \<le> 10"
proof -
  let ?h = "PeerHandler_new (V4 10 0 0 1) (V4 10 0 0 2) (str ''/srv'') 5000 0 :: unit PeerHandler"
  have "handler_step False empty_host ?h (start_thread False empty_host (?h\<lparr>clock := clock ?h + 20\<rparr>))"
    by (rule step_start) (simp add: PeerHandler_new_def)
  from run_step [OF run_new this] have "handler_run False empty_host sample_run"
    by (simp add: sample_run_def PeerHandler_new_def)
  from handler_sessions_invariant [OF this] show ?thesis by blast
qed



text \<open>
  \<^bold>\<open>C29.\<close> Once its request channel is closed, a handler ends: the end can be reached, and no run takes more steps than
  \<open>shutdown_rank\<close>.
\<close>

theorem shutdown_terminates:
  assumes "sender_dropped h"
  shows "(\<exists>h'. (handler_step dbg host)\<^sup>*\<^sup>* h h' \<and> is_finished h')
    \<and> (\<forall>n h'. (handler_step dbg host ^^ n) h h' \<longrightarrow> n \<le> shutdown_rank h)"
  using shutdown_reaches_end [OF assms] shutdown_bounded [OF _ assms] by (meson add_leD1)

theorem shutdown_terminates_witness:
  "(\<exists>h'. (handler_step False empty_host)\<^sup>*\<^sup>* (request_shutdown (sample_handler Serving [(7, sample_session False)])) h' \<and> is_finished h')
    \<and> (\<nexists>n h'. (handler_step False empty_host ^^ n) (request_shutdown (sample_handler Serving [(7, sample_session False)])) h'
        \<and> shutdown_rank (request_shutdown (sample_handler Serving [(7, sample_session False)])) < n)"
  using shutdown_terminates [of "request_shutdown (sample_handler Serving [(7, sample_session False)])" False empty_host]
  by (simp add: request_shutdown_def) (meson not_less)



text \<open>
  \<^bold>\<open>C31.\<close> In every state the server can reach, each handler is filed under the address it serves, binds its sockets to the address
  on which the server listens, satisfies its own invariant and has an open request channel; a pending request has a handler to go to; a handler that is being joined
  was asked to shut down.
\<close>

theorem server_invariant: 
  assumes "server_run dbg host t s"
  shows "(\<forall>ip. case peer_handlers s ip of None \<Rightarrow> True
      | Some h \<Rightarrow> handler_inv h \<and> sender_address h = ip \<and> local_address h = fst (socket_addr s) \<and> \<not> sender_dropped h)
    \<and> length (srv_buffer s) = BUFFER_SIZE
    \<and> (case activity s of
         Joining h _ \<Rightarrow> handler_inv h \<and> sender_dropped h
       | Feeding ip _ _ \<Rightarrow> peer_handlers s ip \<noteq> None
       | _ \<Rightarrow> True)"
  using server_inv_run [OF assms] by (auto simp: server_inv_def split: option.splits)

theorem server_invariant_witness:
  "(\<forall>ip. case peer_handlers (on_turn (TFTPServer_new (V4 10 0 0 2, 69) (str ''/srv'') 1 0 :: unit TFTPServer)) ip of None \<Rightarrow> True
      | Some h \<Rightarrow> handler_inv h \<and> sender_address h = ip
        \<and> local_address h = fst (socket_addr (on_turn (TFTPServer_new (V4 10 0 0 2, 69) (str ''/srv'') 1 0 :: unit TFTPServer)))
        \<and> \<not> sender_dropped h)
    \<and> length (srv_buffer (on_turn (TFTPServer_new (V4 10 0 0 2, 69) (str ''/srv'') 1 0 :: unit TFTPServer))) = BUFFER_SIZE
    \<and> (case activity (on_turn (TFTPServer_new (V4 10 0 0 2, 69) (str ''/srv'') 1 0 :: unit TFTPServer)) of
         Joining h _ \<Rightarrow> handler_inv h \<and> sender_dropped h
       | Feeding ip _ _ \<Rightarrow> peer_handlers (on_turn (TFTPServer_new (V4 10 0 0 2, 69) (str ''/srv'') 1 0 :: unit TFTPServer)) ip \<noteq> None
       | _ \<Rightarrow> True)"
proof (rule server_invariant)
  let ?s = "TFTPServer_new (V4 10 0 0 2, 69) (str ''/srv'') 1 0 :: unit TFTPServer"
  have "server_run False empty_host 0 ?s" by (rule sample_started)
  then show "server_run False empty_host 0 (on_turn ?s)"
    by (rule srv_stepped) (simp add: srv_turn TFTPServer_new_def)
qed





text \<open>
  \<^bold>\<open>C34.\<close> When the file \<open><address>.nbd\<close> of a peer was written or moved into the root, the server starts a new handler for
  that peer and shuts down the previous one, if any; the handlers of the other peers are kept. The address is found again from the file's name,
  also an IPv6 address with its run of zeros left out.
\<close>

theorem changed_config_restarts_the_handler:
  assumes "is_modify e" "ev_file_name e = Some (IpAddr_to_string ip @ str ''.nbd'')"
  shows "peer_handlers (on_event e s) = (peer_handlers s)(ip \<mapsto> new_handler s ip)
    \<and> (case peer_handlers s ip of
         Some h \<Rightarrow> activity (on_event e s) = Joining (request_shutdown h) False
       | None \<Rightarrow> activity (on_event e s) = activity s)"
proof -
  have "rsplit_once dot (IpAddr_to_string ip @ dot # str ''nbd'') = Some (IpAddr_to_string ip, str ''nbd'')"
    by (rule rsplit_once_append) (simp add: str_def dot_def)
  then have "rsplit_once dot (Event_file_name e) = Some (IpAddr_to_string ip, str ''nbd'')"
    using assms(2) by (simp add: Event_file_name_def str_def dot_def)
  with assms(1) IpAddr_roundtrip [of ip] show ?thesis
    by (auto simp: on_event_def Let_def split: option.splits)
qed

theorem changed_config_restarts_the_handler_witness:
  "peer_handlers (on_event \<lparr>ev_mask = 0x80, ev_file_name = Some (str ''fe80::a1:0:0:2.nbd'')\<rparr>
      (TFTPServer_new (V4 10 0 0 2, 69) (str ''/srv'') 1 0 :: unit TFTPServer))
    = [V6 0xFE80 0 0 0 0xA1 0 0 2 \<mapsto> new_handler (TFTPServer_new (V4 10 0 0 2, 69) (str ''/srv'') 1 0) (V6 0xFE80 0 0 0 0xA1 0 0 2)]"
proof -
  have "str ''fe80::a1:0:0:2.nbd'' = IpAddr_to_string (V6 0xFE80 0 0 0 0xA1 0 0 2) @ str ''.nbd''"
    by (simp add: ipv6_string_def segments_string_def hex_segment hex_digit_def str_def colon_def)
  then show ?thesis
    using changed_config_restarts_the_handler [of "\<lparr>ev_mask = 0x80, ev_file_name = Some (str ''fe80::a1:0:0:2.nbd'')\<rparr>"
        "V6 0xFE80 0 0 0 0xA1 0 0 2" "TFTPServer_new (V4 10 0 0 2, 69) (str ''/srv'') 1 0 :: unit TFTPServer"]
    by (simp add: is_modify_def IN_MOVED_TO_def IN_CLOSE_WRITE_def TFTPServer_new_def [of _ _ _ _] del: IpAddr_to_string.simps)
qed

section \<open>Roots and disks\<close>

text \<open>
  \<^bold>\<open>C35.\<close> When \<open>LocalRoot::open\<close> opens a file for a request without \<open>..\<close>, it is the system's file at a place
  below the root.
\<close>

theorem request_without_dotdot_stays_below_the_root:
  assumes "LocalRoot_open open_file root path = Inr f" "lr_path root \<noteq> []"
    and "[dot, dot] \<notin> set (split_slash (trim_start_matches slash path))"
  shows "open_file (lf_display f) = Inr (rd f) \<and> prefix (resolve (lr_path root)) (resolve (lf_display f))"
proof -
  let ?p = "path_join (lr_path root) (trim_start_matches slash path)"
  from assms(1) have "lf_display f = ?p" "open_file ?p = Inr (rd f)"
    by (auto simp: LocalRoot_open_is_os_open Let_def map_sum_def split: sum.splits)
  with request_stays_below [OF trim_has_no_root assms(2,3)] show ?thesis by simp
qed

theorem request_without_dotdot_stays_below_the_root_witness:
  "prefix (resolve (str ''/srv'')) (resolve (str ''/srv/boot/./k''))"
proof -
  let ?F = "\<lparr>contents = [1], pos = 0, read_plan = [], seek_error = None\<rparr>"
  have "LocalRoot_open (\<lambda>_. Inr ?F) (LocalRoot_new (str ''/srv'')) (str ''//boot/./k'')
      = Inr \<lparr>rd = ?F, lf_display = str ''/srv/boot/./k''\<rparr>"
    unfolding LocalRoot_open_is_os_open
    by (simp add: LocalRoot_new_def str_def trim_start_matches_def slash_def path_join_def has_root_def)
  from request_without_dotdot_stays_below_the_root [OF this] show ?thesis
    by (simp add: LocalRoot_new_def str_def trim_start_matches_def slash_def dot_def)
qed

text \<open>
  When libguestfs reports that there is no such file, \<open>open\<close> returns \<open>NotFound\<close>, so that the next root is asked.
\<close>

lemma missing_remote_file_is_not_found:
  assumes "guestfs_stat_of lib path (gfs_handle (cd_handle d)) = (None, msgs, h)"
    and "guestfs_last_error lib h = Some m" "utf8_valid m" "contains m (str ''No such file or directory'')"
    and "0 \<notin> set path"
  shows "\<exists>d'. ConnectedDisk_open lib d path = Some (Inl (io_kind NotFound), d')"
  by (rule ConnectedDisk_open_not_found [OF assms])

lemma missing_remote_file_is_not_found_witness:
  "\<exists>d'. ConnectedDisk_open ((memory_disk [])\<lparr>guestfs_stat_of := (\<lambda>_ h. (None, [], h)),
        guestfs_last_error := (\<lambda>_. Some (str ''stat: No such file or directory''))\<rparr>)
      (ConnectedDisk_new \<lparr>gfs_handle = (), events = []\<rparr> []) (str ''/k'') = Some (Inl (io_kind NotFound), d')"
  by (rule missing_remote_file_is_not_found [where m = "str ''stat: No such file or directory''" and msgs = "[]" and h = "()"])
    (simp_all add: str_def starts_with_def)




section \<open>The watch on the root\<close>



text \<open>
  \<^bold>\<open>C39.\<close> A task that waits for the next event is never forgotten: while it sleeps the queue is empty and holds its waker.
\<close>

theorem watch_channel_loses_no_wakeup:
  assumes "channel_reachable t s" "asleep s"
  shows "queue (chan s) = [] \<and> waker (chan s) = Some t"
  by (rule channel_no_lost_wakeup [OF assms])

theorem watch_channel_loses_no_wakeup_witness:
  "queue (snd (Future_poll 3 (SharedQueue_new :: InotifyEvent SharedQueue))) = []
    \<and> waker (snd (Future_poll 3 (SharedQueue_new :: InotifyEvent SharedQueue))) = Some 3"
proof -
  let ?q = "snd (Future_poll 3 (SharedQueue_new :: InotifyEvent SharedQueue))"
  have "channel_step 3 \<lparr>chan = SharedQueue_new, asleep = False\<rparr> \<lparr>chan = ?q, asleep = True\<rparr>"
    using step_poll [of "\<lparr>chan = SharedQueue_new, asleep = False\<rparr>" 3 Pending ?q]
    by (simp add: Future_poll_def pop_nowait_def SharedQueue_new_def)
  from watch_channel_loses_no_wakeup [OF reach_step [OF reach_new this]] show ?thesis by simp
qed

end
